(* ===== verification/Skynet_Prelude.thy ===== *)
theory Skynet_Prelude
  imports Main "HOL-Library.Word" "HOL-Library.Sublist" "HOL-Library.Multiset"
begin

text \<open>
  Shared vocabulary of the development: machine integers of the C++ sources, little-endian
  memory images (\<open>memcpy\<close> of an integer on the little-endian hosts the runtime is built
  for), the generic contract of a length-prefixed stream codec, and the generic contract of a
  transition system with an inductive invariant.  Every component theory imports this one.
\<close>

unbundle bit_operations_syntax

named_theorems wire_simps
  \<open>equations that compute byte images and their lengths\<close>
named_theorems inv_intros
  \<open>introduction rules: an operation preserves its component's invariant\<close>

section \<open>Machine types\<close>

type_synonym byte = "8 word"
type_synonym u16 = "16 word"
type_synonym u32 = "32 word"
type_synonym u64 = "64 word"
type_synonym bytes = "byte list"

lemma sint_of_nat_i32: "n < 2 ^ 31 \<Longrightarrow> sint (word_of_nat n :: 32 word) = int n"
  by (simp add: signed_of_nat signed_take_bit_int_eq_self)

lemma i32_of_u64_of_nat: "(ucast (word_of_nat n :: 64 word) :: 32 word) = word_of_nat n"
  by (rule word_unat_eq_iff [THEN iffD2]) (simp add: unsigned_ucast_eq unsigned_of_nat)

section \<open>Bytes and little-endian images\<close>

lemma unat_byte_less [simp]: "unat (b :: byte) < 256"
  using unsigned_less [of b, where ?'a = nat] by simp

lemma unat_byte_le [simp]: "unat (b :: byte) \<le> 255"
  using unat_byte_less [of b] by linarith

lemma word_of_nat_unat_id: "word_of_nat (unat (w :: 'a :: len word)) = w"
  by simp

text \<open>The \<open>n\<close> low-order bytes of \<open>x\<close>, least significant byte first.\<close>

fun le_bytes :: "nat \<Rightarrow> nat \<Rightarrow> bytes" where
  "le_bytes 0 x = []"
| "le_bytes (Suc n) x = word_of_nat x # le_bytes n (x div 256)"

fun le_nat :: "bytes \<Rightarrow> nat" where
  "le_nat [] = 0"
| "le_nat (b # bs) = unat b + 256 * le_nat bs"

lemma length_le_bytes [simp, wire_simps]: "length (le_bytes n x) = n"
  by (induction n arbitrary: x) auto

lemma unat_of_nat_byte [simp]: "unat (word_of_nat x :: byte) = x mod 256"
  by (simp add: unsigned_of_nat take_bit_eq_mod)

lemma le_nat_le_bytes: "le_nat (le_bytes n x) = x mod 256 ^ n"
proof (induction n arbitrary: x)
  case 0
  then show ?case by simp
next
  case (Suc n)
  have "x mod 256 + 256 * (x div 256 mod 256 ^ n) = x mod (256 * 256 ^ n)"
    by (simp add: mod_mult2_eq add.commute)
  with Suc show ?case by simp
qed

lemma le_nat_less: "le_nat bs < 256 ^ length bs"
proof (induction bs)
  case Nil
  then show ?case by simp
next
  case (Cons b bs)
  have "unat b + 256 * le_nat bs < 256 + 256 * le_nat bs" by simp
  also have "\<dots> = 256 * Suc (le_nat bs)" by simp
  also have "\<dots> \<le> 256 * 256 ^ length bs"
    using Cons.IH by (meson Suc_leI mult_le_mono2)
  finally show ?case by simp
qed

lemma le_bytes_le_nat: "length bs = n \<Longrightarrow> le_bytes n (le_nat bs) = bs"
proof (induction bs arbitrary: n)
  case Nil
  then show ?case by simp
next
  case (Cons b bs)
  then obtain m where n: "n = Suc m" "length bs = m" by auto
  have "(word_of_nat (unat b + 256 * le_nat bs) :: byte) = word_of_nat (unat b)"
    by (subst word_of_nat_eq_iff) (simp add: take_bit_eq_mod)
  then have "(word_of_nat (unat b + 256 * le_nat bs) :: byte) = b"
    by (simp only: word_of_nat_unat_id)
  moreover have "(unat b + 256 * le_nat bs) div 256 = le_nat bs"
    by simp
  ultimately show ?case
    using n Cons.IH by simp
qed

text \<open>\<open>memcpy\<close> of a \<open>w\<close>-bit integer into a buffer, and back.\<close>

definition mem_of_u16 :: "u16 \<Rightarrow> bytes" where
  "mem_of_u16 w = le_bytes 2 (unat w)"

definition mem_of_u32 :: "u32 \<Rightarrow> bytes" where
  "mem_of_u32 w = le_bytes 4 (unat w)"

definition mem_of_u64 :: "u64 \<Rightarrow> bytes" where
  "mem_of_u64 w = le_bytes 8 (unat w)"

definition u16_of_mem :: "bytes \<Rightarrow> u16" where
  "u16_of_mem bs = word_of_nat (le_nat bs)"

definition u32_of_mem :: "bytes \<Rightarrow> u32" where
  "u32_of_mem bs = word_of_nat (le_nat bs)"

definition u64_of_mem :: "bytes \<Rightarrow> u64" where
  "u64_of_mem bs = word_of_nat (le_nat bs)"

lemma length_mem_of [simp, wire_simps]:
  "length (mem_of_u16 a) = 2" "length (mem_of_u32 b) = 4" "length (mem_of_u64 c) = 8"
  by (simp_all add: mem_of_u16_def mem_of_u32_def mem_of_u64_def)

lemma unat_less_u16: "unat (w :: u16) < 65536"
  using unsigned_less [of w, where ?'a = nat] by simp

lemma unat_less_u32: "unat (w :: u32) < 4294967296"
  using unsigned_less [of w, where ?'a = nat] by simp

lemma unat_less_u64: "unat (w :: u64) < 18446744073709551616"
  using unsigned_less [of w, where ?'a = nat] by simp

lemma u16_of_mem_of [simp, wire_simps]: "u16_of_mem (mem_of_u16 w) = w"
  using unat_less_u16 [of w]
  by (simp add: u16_of_mem_def mem_of_u16_def le_nat_le_bytes)

lemma u32_of_mem_of [simp, wire_simps]: "u32_of_mem (mem_of_u32 w) = w"
  using unat_less_u32 [of w]
  by (simp add: u32_of_mem_def mem_of_u32_def le_nat_le_bytes)

lemma u64_of_mem_of [simp, wire_simps]: "u64_of_mem (mem_of_u64 w) = w"
  using unat_less_u64 [of w]
  by (simp add: u64_of_mem_def mem_of_u64_def le_nat_le_bytes)

section \<open>Big-endian two-byte headers\<close>

text \<open>\<open>(b0 << 8) | b1\<close> on promoted \<open>int\<close> operands, as both framing modules compute it.\<close>

definition be_header :: "byte \<Rightarrow> byte \<Rightarrow> nat" where
  "be_header b0 b1 = or (push_bit 8 (unat b0)) (unat b1)"

lemma be_header_eq: "be_header b0 b1 = 256 * unat b0 + unat b1"
proof -
  have "or (push_bit 8 (unat b0)) (unat b1) = push_bit 8 (unat b0) + unat b1"
  proof (rule disjunctive_add [symmetric])
    fix n
    have "\<not> bit (unat b1) n" if "8 \<le> n"
    proof -
      have "unat b1 < 2 ^ 8" by simp
      also have "(2 :: nat) ^ 8 \<le> 2 ^ n" using that by (rule power_increasing) simp
      finally show ?thesis by (simp add: bit_iff_odd)
    qed
    then show "\<not> bit (push_bit 8 (unat b0)) n \<or> \<not> bit (unat b1) n"
      by (auto simp: bit_push_bit_iff)
  qed
  then show ?thesis by (simp add: be_header_def push_bit_eq_mult mult.commute)
qed

lemma be_header_le: "be_header b0 b1 \<le> 65535"
proof -
  have "256 * unat b0 + unat b1 \<le> 256 * 255 + 255"
    by (intro add_mono mult_le_mono2 unat_byte_le)
  then show ?thesis by (simp add: be_header_eq)
qed

text \<open>The two header bytes of a length: \<open>(n >> 8) & 0xff\<close> and \<open>n & 0xff\<close>.\<close>

definition hi_byte :: "nat \<Rightarrow> byte" where
  "hi_byte n = word_of_nat (and (drop_bit 8 n) 0xFF)"

definition lo_byte :: "nat \<Rightarrow> byte" where
  "lo_byte n = word_of_nat (and n 0xFF)"

lemma and_255: "and (n :: nat) 255 = n mod 256"
  using take_bit_eq_mask [of 8 n] by (simp add: take_bit_eq_mod mask_eq_exp_minus_1)

lemma be_header_hi_lo: "n < 65536 \<Longrightarrow> be_header (hi_byte n) (lo_byte n) = n"
  by (simp add: be_header_eq hi_byte_def lo_byte_def and_255 drop_bit_eq_div)

section \<open>The stream-codec contract\<close>

text \<open>
  A stream decoder takes one frame off the front of a byte buffer or reports that the buffer
  does not hold a complete frame yet.  \<open>drain\<close> repeats it until it stops; the fuel bounds the
  number of frames and the length of the buffer is always enough, since a frame is not empty.
\<close>

fun drain :: "('b list \<Rightarrow> ('a \<times> 'b list) option) \<Rightarrow> nat \<Rightarrow> 'b list \<Rightarrow> 'a list \<times> 'b list" where
  "drain dec 0 bs = ([], bs)"
| "drain dec (Suc n) bs =
     (case dec bs of
        None \<Rightarrow> ([], bs)
      | Some (x, rest) \<Rightarrow> (let (xs, r) = drain dec n rest in (x # xs, r)))"

locale frame_codec =
  fixes ok :: "'a \<Rightarrow> bool"
    and enc :: "'a \<Rightarrow> 'b list"
    and dec :: "'b list \<Rightarrow> ('a \<times> 'b list) option"
  assumes dec_enc: "ok x \<Longrightarrow> dec (enc x @ rest) = Some (x, rest)"
    and dec_shrinks: "dec bs = Some (x, rest) \<Longrightarrow> length rest < length bs"
    and dec_mono: "dec bs = Some (x, rest) \<Longrightarrow> dec (bs @ more) = Some (x, rest @ more)"
    and dec_nil: "dec [] = None"
begin

lemma drain_fuel: "length bs \<le> n \<Longrightarrow> drain dec n bs = drain dec (length bs) bs"
proof (induction "length bs" arbitrary: bs n rule: less_induct)
  case less
  show ?case
  proof (cases "dec bs")
    case None
    then have "drain dec k bs = ([], bs)" for k by (cases k) simp_all
    then show ?thesis by simp
  next
    case (Some p)
    then obtain x rest where d: "dec bs = Some (x, rest)" by (cases p) auto
    from d have lt: "length rest < length bs" by (rule dec_shrinks)
    then obtain m where m: "length bs = Suc m" by (cases "length bs") auto
    with less.prems obtain k where k: "n = Suc k" by (cases n) auto
    have "drain dec k rest = drain dec (length rest) rest"
      by (rule less.hyps [OF lt]) (use less.prems lt m k in linarith)
    moreover have "drain dec m rest = drain dec (length rest) rest"
      by (rule less.hyps [OF lt]) (use lt m in linarith)
    ultimately show ?thesis using d m k by simp
  qed
qed

lemma drain_rest_stuck: "drain dec (length bs) bs = (xs, r) \<Longrightarrow> dec r = None"
proof (induction "length bs" arbitrary: bs xs r rule: less_induct)
  case less
  show ?case
  proof (cases "dec bs")
    case None
    then have "drain dec k bs = ([], bs)" for k by (cases k) simp_all
    with less.prems None show ?thesis by simp
  next
    case (Some p)
    then obtain x rest where d: "dec bs = Some (x, rest)" by (cases p) auto
    from d have lt: "length rest < length bs" by (rule dec_shrinks)
    then obtain m where m: "length bs = Suc m" by (cases "length bs") auto
    then have "drain dec m rest = drain dec (length rest) rest"
      using lt by (intro drain_fuel) simp
    with less.prems d m obtain xs' where "drain dec (length rest) rest = (xs', r)"
      by (auto split: prod.splits)
    with less.hyps [OF lt] show ?thesis by blast
  qed
qed

text \<open>Chunk independence: decoding a prefix first and the rest later loses and reorders nothing.\<close>

lemma drain_append:
  "drain dec (length (bs @ more)) (bs @ more) =
     (let (xs, r) = drain dec (length bs) bs;
          (ys, r') = drain dec (length (r @ more)) (r @ more)
      in (xs @ ys, r'))"
proof (induction "length bs" arbitrary: bs rule: less_induct)
  case less
  show ?case
  proof (cases "dec bs")
    case None
    then have "drain dec k bs = ([], bs)" for k by (cases k) simp_all
    then show ?thesis by (simp split: prod.splits)
  next
    case (Some p)
    then obtain x rest where d: "dec bs = Some (x, rest)" by (cases p) auto
    from d have lt: "length rest < length bs" by (rule dec_shrinks)
    then obtain m where m: "length bs = Suc m" by (cases "length bs") auto
    from d have dm: "dec (bs @ more) = Some (x, rest @ more)" by (rule dec_mono)
    have f1: "drain dec m rest = drain dec (length rest) rest"
      using lt m by (intro drain_fuel) simp
    have f2: "drain dec (m + length more) (rest @ more) =
        drain dec (length (rest @ more)) (rest @ more)"
      using lt m by (intro drain_fuel) simp
    show ?thesis
      using less.hyps [OF lt] d dm m f1 f2
      by (simp split: prod.splits)
  qed
qed

lemma drain_concat_enc:
  "(\<And>x. x \<in> set xs \<Longrightarrow> ok x) \<Longrightarrow> drain dec (length (concat (map enc xs))) (concat (map enc xs)) = (xs, [])"
proof (induction xs)
  case Nil
  then show ?case by simp
next
  case (Cons x xs)
  let ?tl = "concat (map enc xs)"
  have d: "dec (enc x @ ?tl) = Some (x, ?tl)" using Cons.prems by (intro dec_enc) simp
  then have lt: "length ?tl < length (enc x @ ?tl)" by (rule dec_shrinks)
  then obtain m where m: "length (enc x @ ?tl) = Suc m" by (cases "length (enc x @ ?tl)") auto
  have "drain dec m ?tl = drain dec (length ?tl) ?tl"
    using lt m by (intro drain_fuel) linarith
  with Cons d m show ?case by simp
qed

end

section \<open>The transition-system contract\<close>

text \<open>Reachability from an initial state under a step relation.\<close>

inductive reach :: "('s \<Rightarrow> bool) \<Rightarrow> ('s \<Rightarrow> 's \<Rightarrow> bool) \<Rightarrow> 's \<Rightarrow> bool"
  for init :: "'s \<Rightarrow> bool" and step :: "'s \<Rightarrow> 's \<Rightarrow> bool" where
  reach_init: "init s \<Longrightarrow> reach init step s"
| reach_step: "reach init step s \<Longrightarrow> step s t \<Longrightarrow> reach init step t"

locale invariant_system =
  fixes init :: "'s \<Rightarrow> bool"
    and step :: "'s \<Rightarrow> 's \<Rightarrow> bool"
    and inv :: "'s \<Rightarrow> bool"
  assumes init_inv: "init s \<Longrightarrow> inv s"
    and step_inv: "inv s \<Longrightarrow> step s t \<Longrightarrow> inv t"
begin

lemma reach_inv: "reach init step s \<Longrightarrow> inv s"
  by (induction rule: reach.induct) (auto intro: init_inv step_inv)

end

end
