(* ===== verification/Lua_Value.thy ===== *)
theory Lua_Value
  imports Skynet_Prelude
begin

text \<open>
  Lua values as the C API shows them to the runtime's C++ modules.  Integers and floats are
  64-bit words (a float is its IEEE 754 bit pattern), strings are byte lists, light userdata is
  an address.  A table is the list of its entries in the order \<open>lua_next\<close> visits them; the
  border that \<open>lua_rawlen\<close> reports is unspecified by Lua and is a parameter of the operations
  that use it.  \<open>LOther\<close> stands for the values the serializer rejects (functions, full userdata,
  threads), with the type's name.
\<close>

datatype lua_value =
    LNil
  | LBool bool
  | LInt u64
  | LNum u64
  | LLight u64
  | LStr bytes
  | LTable "(lua_value \<times> lua_value) list"
  | LOther string

type_synonym entries = "(lua_value \<times> lua_value) list"

fun is_table :: "lua_value \<Rightarrow> bool" where
  "is_table (LTable es) = True"
| "is_table v = False"

section \<open>Float keys\<close>

text \<open>Fields of an IEEE 754 double.\<close>

definition flt_exponent :: "u64 \<Rightarrow> nat" where
  "flt_exponent w = unat (drop_bit 52 w) mod 2048"

definition flt_fraction :: "u64 \<Rightarrow> nat" where
  "flt_fraction w = unat w mod 2 ^ 52"

definition flt_negative :: "u64 \<Rightarrow> bool" where
  "flt_negative w \<longleftrightarrow> bit w 63"

definition flt_is_nan :: "u64 \<Rightarrow> bool" where
  "flt_is_nan w \<longleftrightarrow> flt_exponent w = 2047 \<and> flt_fraction w \<noteq> 0"

text \<open>
  The exact integer value of a float, if it has one in the range of a Lua integer: Lua tables
  store such a key under the integer.
\<close>

definition flt_to_int :: "u64 \<Rightarrow> u64 option" where
  "flt_to_int w =
     (let e = flt_exponent w; m = flt_fraction w; s = flt_negative w
      in if e = 0 \<and> m = 0 then Some 0
         else if e < 1023 then None
         else if e < 1075 then
           (if m mod 2 ^ (1075 - e) = 0
            then (let n = (2 ^ 52 + m) div 2 ^ (1075 - e)
                  in Some (if s then - word_of_nat n else word_of_nat n))
            else None)
         else if e < 1086 then
           (let n = (2 ^ 52 + m) * 2 ^ (e - 1075)
            in Some (if s then - word_of_nat n else word_of_nat n))
         else if e = 1086 \<and> m = 0 \<and> s then Some (word_of_nat (2 ^ 63))
         else None)"

section \<open>Raw table access\<close>

text \<open>\<open>lua_rawgeti\<close>: the value at an integer key, \<open>nil\<close> when absent.\<close>

definition rawgeti :: "entries \<Rightarrow> int \<Rightarrow> lua_value" where
  "rawgeti es i = (case map_of es (LInt (word_of_int i)) of None \<Rightarrow> LNil | Some v \<Rightarrow> v)"

text \<open>
  \<open>lua_rawset\<close> on a table under construction.  A \<open>nil\<close> or NaN key is a Lua error, a float key
  with an integer value is that integer, a \<open>nil\<close> value removes the key.  A key that is a table
  was created by the reader itself, so it differs from every key already present.
\<close>

datatype index_error = IndexIsNil | IndexIsNaN

definition same_key :: "lua_value \<Rightarrow> lua_value \<Rightarrow> bool" where
  "same_key k k' \<longleftrightarrow> k = k' \<and> \<not> is_table k"

fun set_entry :: "entries \<Rightarrow> lua_value \<Rightarrow> lua_value \<Rightarrow> entries" where
  "set_entry [] k v = (if v = LNil then [] else [(k, v)])"
| "set_entry ((k', v') # es) k v =
     (if same_key k k' then (if v = LNil then es else (k', v) # es)
      else (k', v') # set_entry es k v)"

fun lua_rawset :: "entries \<Rightarrow> lua_value \<Rightarrow> lua_value \<Rightarrow> index_error + entries" where
  "lua_rawset es LNil v = Inl IndexIsNil"
| "lua_rawset es (LNum f) v =
     (if flt_is_nan f then Inl IndexIsNaN
      else case flt_to_int f of
             Some i \<Rightarrow> Inr (set_entry es (LInt i) v)
           | None \<Rightarrow> Inr (set_entry es (LNum f) v))"
| "lua_rawset es k v = Inr (set_entry es k v)"

definition lua_rawseti :: "entries \<Rightarrow> int \<Rightarrow> lua_value \<Rightarrow> entries" where
  "lua_rawseti es i v = set_entry es (LInt (word_of_int i)) v"

text \<open>Keys a Lua table can hold.\<close>

fun key_ok :: "lua_value \<Rightarrow> bool" where
  "key_ok LNil = False"
| "key_ok (LNum f) = (\<not> flt_is_nan f \<and> flt_to_int f = None)"
| "key_ok k = True"

section \<open>Equality up to traversal order\<close>

inductive lua_equiv :: "lua_value \<Rightarrow> lua_value \<Rightarrow> bool" where
  equiv_atom: "\<not> is_table v \<Longrightarrow> lua_equiv v v"
| equiv_table:
    "mset es = mset es1 \<Longrightarrow>
     list_all2 (\<lambda>p q. lua_equiv (fst p) (fst q) \<and> lua_equiv (snd p) (snd q)) es1 es2 \<Longrightarrow>
     lua_equiv (LTable es) (LTable es2)"

section \<open>Lemmas\<close>

lemma set_entry_fresh:
  "\<forall>p \<in> set es. \<not> same_key k (fst p) \<Longrightarrow>
   set_entry es k v = (if v = LNil then es else es @ [(k, v)])"
  by (induction es) auto

lemma lua_rawset_key_ok: "key_ok k \<Longrightarrow> lua_rawset es k v = Inr (set_entry es k v)"
  by (cases k) auto

lemma size_entry_less:
  assumes "(k, v) \<in> set es"
  shows "size k < size_list (size_prod size size) es"
    and "size v < size_list (size_prod size size) es"
proof -
  have "size_prod size size (k, v) < Suc (size_list (size_prod size size) es)"
    using assms by (induction es) auto
  then show "size k < size_list (size_prod size size) es"
    and "size v < size_list (size_prod size size) es"
    by simp_all
qed

lemma size_entry_le:
  "(k, v) \<in> set es \<Longrightarrow>
   size k \<le> size_list (size_prod size size) es \<and> size v \<le> size_list (size_prod size size) es"
  using size_entry_less [of k v es] by simp

lemma size_rawgeti_le: "size (rawgeti es i) \<le> size_list (size_prod size size) es"
proof (cases "map_of es (LInt (word_of_int i))")
  case None
  then show ?thesis by (simp add: rawgeti_def)
next
  case (Some v)
  then have "(LInt (word_of_int i), v) \<in> set es" by (rule map_of_SomeD)
  from size_entry_less(2) [OF this] Some show ?thesis by (simp add: rawgeti_def)
qed

end
