(* ===== verification/Lua_Seri.thy ===== *)
theory Lua_Seri
  imports Lua_Value
begin

text \<open>
  The message serializer \<open>src/lua_seri.cpp\<close>: the block-list write buffer, the packer, the read
  buffer, the unpacker and the two entry points \<open>luaseri_pack\<close> and \<open>luaseri_unpack\<close>.  The border
  \<open>lua_rawlen\<close> reports is the parameter \<open>rawlen\<close>; whether \<open>malloc\<close> succeeds is the parameter
  \<open>malloc_ok\<close>.  A Lua error is the left summand of the result.  The unpacker is recursive over
  untrusted input, so it carries fuel, which bounds the depth of the calls; \<open>unpack_recursion_depth\<close> shows how
  much an input needs and that \<open>luaseri_unpack\<close> passes enough.

  The definitions describe calls for which the Lua and the C stack and the memory of the Lua state suffice.  When
  they do not, the functions of the Lua library raise an error that leaves the C++ function where it is
  (\<open>luaL_checkstack\<close> in \<open>wb_table\<close>, \<open>lua_createtable\<close> with an array size taken from the input, \<open>lua_pushlstring\<close>);
  the check in the loop of \<open>unpack_impl\<close> is part of \<open>unpack_values\<close> in \<open>Lua_Buffers\<close>.  \<open>rb_table\<close> and \<open>unpack_one\<close>
  check neither stack, so for them it is the caller who has to keep the input flat enough.
\<close>

section \<open>Format constants\<close>

abbreviation (input) TYPE_NIL :: nat where "TYPE_NIL \<equiv> 0"
abbreviation (input) TYPE_BOOLEAN :: nat where "TYPE_BOOLEAN \<equiv> 1"
abbreviation (input) TYPE_NUMBER :: nat where "TYPE_NUMBER \<equiv> 2"
abbreviation (input) TYPE_USERDATA :: nat where "TYPE_USERDATA \<equiv> 3"
abbreviation (input) TYPE_SHORT_STRING :: nat where "TYPE_SHORT_STRING \<equiv> 4"
abbreviation (input) TYPE_LONG_STRING :: nat where "TYPE_LONG_STRING \<equiv> 5"
abbreviation (input) TYPE_TABLE :: nat where "TYPE_TABLE \<equiv> 6"

abbreviation (input) TYPE_NUMBER_ZERO :: nat where "TYPE_NUMBER_ZERO \<equiv> 0"
abbreviation (input) TYPE_NUMBER_BYTE :: nat where "TYPE_NUMBER_BYTE \<equiv> 1"
abbreviation (input) TYPE_NUMBER_WORD :: nat where "TYPE_NUMBER_WORD \<equiv> 2"
abbreviation (input) TYPE_NUMBER_DWORD :: nat where "TYPE_NUMBER_DWORD \<equiv> 4"
abbreviation (input) TYPE_NUMBER_QWORD :: nat where "TYPE_NUMBER_QWORD \<equiv> 6"
abbreviation (input) TYPE_NUMBER_DOUBLE :: nat where "TYPE_NUMBER_DOUBLE \<equiv> 8"

abbreviation (input) MAX_COOKIE :: nat where "MAX_COOKIE \<equiv> 32"
abbreviation (input) MAX_DEPTH :: nat where "MAX_DEPTH \<equiv> 32"
abbreviation (input) BLOCK_SIZE :: nat where "BLOCK_SIZE \<equiv> 128"

definition COMBINE_TYPE :: "nat \<Rightarrow> nat \<Rightarrow> byte" where
  "COMBINE_TYPE t v = word_of_nat (or t (push_bit 3 v))"

datatype seri_error =
    TableTooDeep nat
  | UnsupportedType string
  | OutOfMemory nat
  | BadIndex index_error
  | OutOfFuel

section \<open>The write buffer\<close>

text \<open>
  The linked blocks from \<open>head\<close> to \<open>current\<close> (the last one), the total length and the write
  position in the current block.
\<close>

record write_block =
  blocks :: "bytes list"
  wlen :: nat
  wptr :: nat

definition wb_init :: write_block where
  "wb_init = \<lparr>blocks = [[]], wlen = 0, wptr = 0\<rparr>"

text \<open>\<open>memcpy(current->buffer + ptr, src, copy)\<close> and the updates of \<open>ptr\<close> and \<open>len\<close>.\<close>

definition copy_in :: "write_block \<Rightarrow> bytes \<Rightarrow> write_block" where
  "copy_in wb chunk =
     (let cur = last (blocks wb)
      in wb\<lparr>blocks := butlast (blocks wb) @
                [take (wptr wb) cur @ chunk @ drop (wptr wb + length chunk) cur],
            wptr := wptr wb + length chunk,
            wlen := wlen wb + length chunk\<rparr>)"

definition grow :: "write_block \<Rightarrow> write_block" where
  "grow wb = (if BLOCK_SIZE - wptr wb = 0
              then wb\<lparr>blocks := blocks wb @ [[]], wptr := 0\<rparr> else wb)"

lemma grow_space: "0 < BLOCK_SIZE - wptr (grow wb)"
  by (simp add: grow_def)

function push :: "write_block \<Rightarrow> bytes \<Rightarrow> write_block" where
  "push wb data =
     (if data = [] then wb
      else
        (let wb1 = grow wb; space = BLOCK_SIZE - wptr wb1;
             copy = (if length data < space then length data else space)
         in push (copy_in wb1 (take copy data)) (drop copy data)))"
  by pat_completeness auto
termination
proof (relation "measure (\<lambda>(wb, data). length data)", goal_cases)
  case (2 wb data wb1 space copy)
  then show ?case using grow_space [of wb] by (cases data) auto
qed simp

declare push.simps [simp del]

section \<open>Pack helpers\<close>

definition wb_nil :: "write_block \<Rightarrow> write_block" where
  "wb_nil wb = push wb [COMBINE_TYPE TYPE_NIL 0]"

definition wb_boolean :: "write_block \<Rightarrow> bool \<Rightarrow> write_block" where
  "wb_boolean wb v = push wb [COMBINE_TYPE TYPE_BOOLEAN (if v then 1 else 0)]"

definition wb_integer :: "write_block \<Rightarrow> u64 \<Rightarrow> write_block" where
  "wb_integer wb v =
     (if v = 0 then push wb [COMBINE_TYPE TYPE_NUMBER TYPE_NUMBER_ZERO]
      else if v \<noteq> scast (ucast v :: u32) then
        push (push wb [COMBINE_TYPE TYPE_NUMBER TYPE_NUMBER_QWORD]) (mem_of_u64 v)
      else if sint v < 0 then
        push (push wb [COMBINE_TYPE TYPE_NUMBER TYPE_NUMBER_DWORD]) (mem_of_u32 (ucast v))
      else if sint v < 0x100 then
        push (push wb [COMBINE_TYPE TYPE_NUMBER TYPE_NUMBER_BYTE]) [ucast v]
      else if sint v < 0x10000 then
        push (push wb [COMBINE_TYPE TYPE_NUMBER TYPE_NUMBER_WORD]) (mem_of_u16 (ucast v))
      else
        push (push wb [COMBINE_TYPE TYPE_NUMBER TYPE_NUMBER_DWORD]) (mem_of_u32 (ucast v)))"

definition wb_double :: "write_block \<Rightarrow> u64 \<Rightarrow> write_block" where
  "wb_double wb v = push (push wb [COMBINE_TYPE TYPE_NUMBER TYPE_NUMBER_DOUBLE]) (mem_of_u64 v)"

definition wb_pointer :: "write_block \<Rightarrow> u64 \<Rightarrow> write_block" where
  "wb_pointer wb v = push (push wb [COMBINE_TYPE TYPE_USERDATA 0]) (mem_of_u64 v)"

definition wb_string :: "write_block \<Rightarrow> bytes \<Rightarrow> write_block" where
  "wb_string wb str =
     (let len = length str
      in if len < MAX_COOKIE then
           (let wb1 = push wb [COMBINE_TYPE TYPE_SHORT_STRING len]
            in if len > 0 then push wb1 str else wb1)
         else if len < 0x10000 then
           push (push (push wb [COMBINE_TYPE TYPE_LONG_STRING 2]) (mem_of_u16 (word_of_nat len))) str
         else
           push (push (push wb [COMBINE_TYPE TYPE_LONG_STRING 4]) (mem_of_u32 (word_of_nat len))) str)"

text \<open>
  \<open>static_cast<int>(lua_rawlen(L, index))\<close> and the table header it selects.  The header byte
  keeps five bits of the cookie, so a negative size (a border of \<open>2 ^ 31\<close> and above) leaves its
  residue modulo 32 there.
\<close>

definition table_array_size :: "(entries \<Rightarrow> nat) \<Rightarrow> entries \<Rightarrow> int" where
  "table_array_size rawlen es = sint (word_of_nat (rawlen es) :: u32)"

definition wb_table_header :: "write_block \<Rightarrow> int \<Rightarrow> write_block" where
  "wb_table_header wb array_size =
     (if array_size \<ge> int MAX_COOKIE - 1 then
        wb_integer (push wb [COMBINE_TYPE TYPE_TABLE (MAX_COOKIE - 1)]) (word_of_int array_size)
      else push wb [COMBINE_TYPE TYPE_TABLE (nat (array_size mod int MAX_COOKIE))])"

text \<open>The entries \<open>wb_table_hash\<close> skips: integer keys of the array part.\<close>

fun in_array_part :: "int \<Rightarrow> lua_value \<Rightarrow> bool" where
  "in_array_part array_size (LInt x) = (sint x > 0 \<and> sint x \<le> array_size)"
| "in_array_part array_size k = False"

section \<open>The packer\<close>

text \<open>
  \<open>wb_table_array\<close> and \<open>wb_table_hash\<close> are the loops of the two C++ functions of those names:
  over the indices \<open>i, \<dots>, i + k - 1\<close>, and over the entries \<open>lua_next\<close> has not visited yet.
\<close>

function (sequential)
  pack_one :: "(entries \<Rightarrow> nat) \<Rightarrow> write_block \<Rightarrow> lua_value \<Rightarrow> nat \<Rightarrow> seri_error + write_block"
  and wb_table :: "(entries \<Rightarrow> nat) \<Rightarrow> write_block \<Rightarrow> entries \<Rightarrow> nat \<Rightarrow> seri_error + write_block"
  and wb_table_array :: "(entries \<Rightarrow> nat) \<Rightarrow> write_block \<Rightarrow> entries \<Rightarrow> nat \<Rightarrow> int \<Rightarrow> nat \<Rightarrow> seri_error + write_block"
  and wb_table_hash :: "(entries \<Rightarrow> nat) \<Rightarrow> write_block \<Rightarrow> entries \<Rightarrow> nat \<Rightarrow> int \<Rightarrow> seri_error + write_block"
where
  "pack_one rawlen wb LNil depth = Inr (wb_nil wb)"
| "pack_one rawlen wb (LBool b) depth = Inr (wb_boolean wb b)"
| "pack_one rawlen wb (LInt v) depth = Inr (wb_integer wb v)"
| "pack_one rawlen wb (LNum v) depth = Inr (wb_double wb v)"
| "pack_one rawlen wb (LLight p) depth = Inr (wb_pointer wb p)"
| "pack_one rawlen wb (LStr s) depth = Inr (wb_string wb s)"
| "pack_one rawlen wb (LTable es) depth = wb_table rawlen wb es (depth + 1)"
| "pack_one rawlen wb (LOther ty) depth = Inl (UnsupportedType ty)"
| "wb_table rawlen wb es depth =
     (if depth \<ge> MAX_DEPTH then Inl (TableTooDeep depth)
      else
        (let array_size = table_array_size rawlen es
         in case wb_table_array rawlen (wb_table_header wb array_size) es depth 1 (nat array_size) of
              Inl e \<Rightarrow> Inl e
            | Inr wb1 \<Rightarrow> wb_table_hash rawlen wb1 es depth array_size))"
| "wb_table_array rawlen wb es depth i 0 = Inr wb"
| "wb_table_array rawlen wb es depth i (Suc k) =
     (case pack_one rawlen wb (rawgeti es i) depth of
        Inl e \<Rightarrow> Inl e
      | Inr wb1 \<Rightarrow> wb_table_array rawlen wb1 es depth (i + 1) k)"
| "wb_table_hash rawlen wb [] depth array_size = Inr (wb_nil wb)"
| "wb_table_hash rawlen wb ((key, val) # es) depth array_size =
     (if in_array_part array_size key then wb_table_hash rawlen wb es depth array_size
      else
        (case pack_one rawlen wb key depth of
           Inl e \<Rightarrow> Inl e
         | Inr wb1 \<Rightarrow>
             (case pack_one rawlen wb1 val depth of
                Inl e \<Rightarrow> Inl e
              | Inr wb2 \<Rightarrow> wb_table_hash rawlen wb2 es depth array_size)))"
  by pat_completeness auto
termination
  by (relation "measures
      [case_sum
         (case_sum (\<lambda>(rawlen, wb, v, depth). 2 * size v)
                   (\<lambda>(rawlen, wb, es, depth). Suc (2 * size_list (size_prod size size) es)))
         (case_sum (\<lambda>(rawlen, wb, es, depth, i, k). Suc (2 * size_list (size_prod size size) es))
                   (\<lambda>(rawlen, wb, es, depth, n). Suc (2 * size_list (size_prod size size) es))),
       case_sum (case_sum (\<lambda>_. 0) (\<lambda>(rawlen, wb, es, depth). Suc (nat (table_array_size rawlen es))))
                (case_sum (\<lambda>(rawlen, wb, es, depth, i, k). k) (\<lambda>_. 0))]")
     (auto simp: size_rawgeti_le less_Suc_eq_le)

text \<open>\<open>seri\<close>: copy the blocks into one allocated buffer.\<close>

fun seri_copy :: "bytes list \<Rightarrow> nat \<Rightarrow> nat \<Rightarrow> bytes" where
  "seri_copy [] last_len remaining = []"
| "seri_copy (b # bs) last_len remaining =
     (if remaining > 0 then
        (let copy0 = (if bs = [] then last_len else BLOCK_SIZE);
             copy = (if copy0 > remaining then remaining else copy0)
         in take copy b @ seri_copy bs last_len (remaining - copy))
      else [])"

definition seri :: "(nat \<Rightarrow> bool) \<Rightarrow> write_block \<Rightarrow> seri_error + bytes" where
  "seri malloc_ok wb =
     (let sz = wlen wb
      in if \<not> malloc_ok sz then Inl (OutOfMemory sz)
         else Inr (seri_copy (blocks wb) (wptr wb) sz))"

fun pack_all :: "(entries \<Rightarrow> nat) \<Rightarrow> write_block \<Rightarrow> lua_value list \<Rightarrow> seri_error + write_block" where
  "pack_all rawlen wb [] = Inr wb"
| "pack_all rawlen wb (v # vs) =
     (case pack_one rawlen wb v 0 of Inl e \<Rightarrow> Inl e | Inr wb1 \<Rightarrow> pack_all rawlen wb1 vs)"

definition luaseri_pack ::
    "(entries \<Rightarrow> nat) \<Rightarrow> (nat \<Rightarrow> bool) \<Rightarrow> lua_value list \<Rightarrow> seri_error + bytes" where
  "luaseri_pack rawlen malloc_ok vs =
     (case pack_all rawlen wb_init vs of Inl e \<Rightarrow> Inl e | Inr wb \<Rightarrow> seri malloc_ok wb)"

section \<open>The read buffer\<close>

record read_block =
  rbuf :: bytes
  rptr :: nat

definition rb_init :: "bytes \<Rightarrow> read_block" where
  "rb_init buf = \<lparr>rbuf = buf, rptr = 0\<rparr>"

definition rb_read :: "read_block \<Rightarrow> nat \<Rightarrow> bytes option \<times> read_block" where
  "rb_read rb sz =
     (if rptr rb + sz > length (rbuf rb) then (None, rb)
      else (Some (take sz (drop (rptr rb) (rbuf rb))), rb\<lparr>rptr := rptr rb + sz\<rparr>))"

section \<open>Unpack helpers\<close>

definition rb_integer :: "read_block \<Rightarrow> nat \<Rightarrow> u64 \<times> read_block" where
  "rb_integer rb cookie =
     (if cookie = TYPE_NUMBER_ZERO then (0, rb)
      else if cookie = TYPE_NUMBER_BYTE then
        (case rb_read rb 1 of (None, rb1) \<Rightarrow> (0, rb1) | (Some p, rb1) \<Rightarrow> (ucast (hd p), rb1))
      else if cookie = TYPE_NUMBER_WORD then
        (case rb_read rb 2 of (None, rb1) \<Rightarrow> (0, rb1) | (Some p, rb1) \<Rightarrow> (ucast (u16_of_mem p), rb1))
      else if cookie = TYPE_NUMBER_DWORD then
        (case rb_read rb 4 of (None, rb1) \<Rightarrow> (0, rb1) | (Some p, rb1) \<Rightarrow> (scast (u32_of_mem p), rb1))
      else if cookie = TYPE_NUMBER_QWORD then
        (case rb_read rb 8 of (None, rb1) \<Rightarrow> (0, rb1) | (Some p, rb1) \<Rightarrow> (u64_of_mem p, rb1))
      else (0, rb))"

definition rb_double :: "read_block \<Rightarrow> u64 \<times> read_block" where
  "rb_double rb = (case rb_read rb 8 of (None, rb1) \<Rightarrow> (0, rb1) | (Some p, rb1) \<Rightarrow> (u64_of_mem p, rb1))"

definition rb_pointer :: "read_block \<Rightarrow> u64 \<times> read_block" where
  "rb_pointer rb = (case rb_read rb 8 of (None, rb1) \<Rightarrow> (0, rb1) | (Some p, rb1) \<Rightarrow> (u64_of_mem p, rb1))"

definition rb_string :: "read_block \<Rightarrow> nat \<Rightarrow> lua_value \<times> read_block" where
  "rb_string rb len =
     (case rb_read rb len of (None, rb1) \<Rightarrow> (LNil, rb1) | (Some p, rb1) \<Rightarrow> (LStr p, rb1))"

text \<open>The length field of a long string: two bytes for cookie 2, else four; 0 if missing.\<close>

definition rb_string_length :: "read_block \<Rightarrow> nat \<Rightarrow> nat \<times> read_block" where
  "rb_string_length rb cookie =
     (if cookie = 2 then
        (case rb_read rb 2 of (None, rb1) \<Rightarrow> (0, rb1) | (Some p, rb1) \<Rightarrow> (unat (u16_of_mem p), rb1))
      else
        (case rb_read rb 4 of (None, rb1) \<Rightarrow> (0, rb1) | (Some p, rb1) \<Rightarrow> (unat (u32_of_mem p), rb1)))"

text \<open>The array size of a table: the cookie, or the integer that follows when the cookie is 31.\<close>

definition rb_array_size :: "read_block \<Rightarrow> nat \<Rightarrow> int \<times> read_block" where
  "rb_array_size rb cookie =
     (if cookie = MAX_COOKIE - 1 then
        (case rb_read rb 1 of
           (None, rb1) \<Rightarrow> (int cookie, rb1)
         | (Some st, rb1) \<Rightarrow>
             (let (v, rb2) = rb_integer rb1 (unat (drop_bit 3 (hd st)))
              in (sint (ucast v :: u32), rb2)))
      else (int cookie, rb))"

section \<open>The unpacker\<close>

text \<open>
  \<open>unpack_value\<close> is the \<open>switch\<close> on type and cookie, written twice in the C++ (in \<open>unpack_one\<close>
  and, for keys, inlined in \<open>rb_table\<close>); \<open>rb_table_array\<close> and \<open>rb_table_hash\<close> are the two loops
  of \<open>rb_table\<close>.
\<close>

function (sequential)
  unpack_one :: "nat \<Rightarrow> read_block \<Rightarrow> seri_error + (lua_value \<times> read_block)"
  and unpack_value :: "nat \<Rightarrow> nat \<Rightarrow> nat \<Rightarrow> read_block \<Rightarrow> seri_error + (lua_value \<times> read_block)"
  and rb_table_array :: "nat \<Rightarrow> read_block \<Rightarrow> entries \<Rightarrow> int \<Rightarrow> nat \<Rightarrow> seri_error + (entries \<times> read_block)"
  and rb_table_hash :: "nat \<Rightarrow> read_block \<Rightarrow> entries \<Rightarrow> seri_error + (entries \<times> read_block)"
where
  "unpack_one 0 rb = Inl OutOfFuel"
| "unpack_one (Suc fuel) rb =
     (case rb_read rb 1 of
        (None, rb1) \<Rightarrow> Inr (LNil, rb1)
      | (Some t, rb1) \<Rightarrow> unpack_value fuel (unat (hd t AND 7)) (unat (drop_bit 3 (hd t))) rb1)"
| "unpack_value fuel type cookie rb =
     (if type = TYPE_NIL then Inr (LNil, rb)
      else if type = TYPE_BOOLEAN then Inr (LBool (cookie \<noteq> 0), rb)
      else if type = TYPE_NUMBER then
        (if cookie = TYPE_NUMBER_DOUBLE
         then (let (v, rb1) = rb_double rb in Inr (LNum v, rb1))
         else (let (v, rb1) = rb_integer rb cookie in Inr (LInt v, rb1)))
      else if type = TYPE_USERDATA then (let (v, rb1) = rb_pointer rb in Inr (LLight v, rb1))
      else if type = TYPE_SHORT_STRING then Inr (rb_string rb cookie)
      else if type = TYPE_LONG_STRING then
        (let (len, rb1) = rb_string_length rb cookie in Inr (rb_string rb1 len))
      else if type = TYPE_TABLE then
        (let (array_size, rb1) = rb_array_size rb cookie
         in case rb_table_array fuel rb1 [] 1 (nat array_size) of
              Inl e \<Rightarrow> Inl e
            | Inr (es, rb2) \<Rightarrow>
                (case rb_table_hash fuel rb2 es of
                   Inl e \<Rightarrow> Inl e
                 | Inr (es', rb3) \<Rightarrow> Inr (LTable es', rb3)))
      else Inr (LNil, rb))"
| "rb_table_array fuel rb es i 0 = Inr (es, rb)"
| "rb_table_array fuel rb es i (Suc k) =
     (case unpack_one fuel rb of
        Inl e \<Rightarrow> Inl e
      | Inr (v, rb1) \<Rightarrow> rb_table_array fuel rb1 (lua_rawseti es i v) (i + 1) k)"
| "rb_table_hash 0 rb es = Inl OutOfFuel"
| "rb_table_hash (Suc fuel) rb es =
     (case rb_read rb 1 of
        (None, rb1) \<Rightarrow> Inr (es, rb1)
      | (Some t, rb1) \<Rightarrow>
          (if unat (hd t AND 7) = TYPE_NIL then Inr (es, rb1)
           else
             (case unpack_value fuel (unat (hd t AND 7)) (unat (drop_bit 3 (hd t))) rb1 of
                Inl e \<Rightarrow> Inl e
              | Inr (key, rb2) \<Rightarrow>
                  (case unpack_one fuel rb2 of
                     Inl e \<Rightarrow> Inl e
                   | Inr (val, rb3) \<Rightarrow>
                       (case lua_rawset es key val of
                          Inl e \<Rightarrow> Inl (BadIndex e)
                        | Inr es1 \<Rightarrow> rb_table_hash fuel rb3 es1)))))"
  by pat_completeness auto
termination
  by (relation "measures
      [case_sum (case_sum (\<lambda>(f, _). f) (\<lambda>(f, _). f)) (case_sum (\<lambda>(f, _). f) (\<lambda>(f, _). f)),
       case_sum (case_sum (\<lambda>_. 0) (\<lambda>_. 2)) (case_sum (\<lambda>_. 1) (\<lambda>_. 1)),
       case_sum (case_sum (\<lambda>_. 0) (\<lambda>_. 0)) (case_sum (\<lambda>(f, rb, es, i, k). k) (\<lambda>_. 0))]")
     auto

text \<open>The loop of \<open>unpack_impl\<close>: values until the buffer is used up.\<close>

fun unpack_loop :: "nat \<Rightarrow> nat \<Rightarrow> read_block \<Rightarrow> seri_error + lua_value list" where
  "unpack_loop fuel 0 rb = Inl OutOfFuel"
| "unpack_loop fuel (Suc n) rb =
     (if rptr rb < length (rbuf rb) then
        (case unpack_one fuel rb of
           Inl e \<Rightarrow> Inl e
         | Inr (v, rb1) \<Rightarrow>
             (case unpack_loop fuel n rb1 of Inl e \<Rightarrow> Inl e | Inr vs \<Rightarrow> Inr (v # vs)))
      else Inr [])"

text \<open>The values in a buffer, as the loop of \<open>unpack_impl\<close> reads them while the stack suffices.\<close>

definition luaseri_unpack :: "bytes \<Rightarrow> seri_error + lua_value list" where
  "luaseri_unpack buf = unpack_loop (length buf + 1) (length buf + 1) (rb_init buf)"

end
