(* ===== verification/Lua_Seri_Props.thy ===== *)
theory Lua_Seri_Props
  imports Lua_Seri
begin

text \<open>
  Correctness of the serializer: the block list is a flat byte string, every scalar encoding
  decodes to itself, and unpacking a packed sequence of values gives the sequence back, each
  table rebuilt with its array part first.
\<close>

section \<open>The write buffer is a byte sink\<close>

text \<open>What the pack helpers rely on: appending bytes to a sink appends them to its content.\<close>

locale byte_sink =
  fixes put :: "'s \<Rightarrow> bytes \<Rightarrow> 's"
    and content :: "'s \<Rightarrow> bytes"
    and inv :: "'s \<Rightarrow> bool"
  assumes put_inv: "inv s \<Longrightarrow> inv (put s bs)"
    and put_content: "inv s \<Longrightarrow> content (put s bs) = content s @ bs"
begin

lemma put_list:
  "inv s \<Longrightarrow> inv (foldl put s bss) \<and> content (foldl put s bss) = content s @ concat bss"
  by (induction bss arbitrary: s) (auto simp: put_inv put_content)

end

definition wb_content :: "write_block \<Rightarrow> bytes" where
  "wb_content wb = concat (blocks wb)"

definition wb_inv :: "write_block \<Rightarrow> bool" where
  "wb_inv wb \<longleftrightarrow>
     blocks wb \<noteq> [] \<and> list_all (\<lambda>b. length b = BLOCK_SIZE) (butlast (blocks wb)) \<and>
     length (last (blocks wb)) = wptr wb \<and> wptr wb \<le> BLOCK_SIZE \<and>
     wlen wb = length (wb_content wb)"

lemma wb_init_inv [simp]: "wb_inv wb_init" "wb_content wb_init = []"
  by (simp_all add: wb_inv_def wb_init_def wb_content_def)

lemma wb_content_split: "blocks wb \<noteq> [] \<Longrightarrow> wb_content wb = concat (butlast (blocks wb)) @ last (blocks wb)"
  unfolding wb_content_def by (metis append_butlast_last_id concat.simps concat_append append_Nil2)

lemma grow_inv: "wb_inv wb \<Longrightarrow> wb_inv (grow wb) \<and> wb_content (grow wb) = wb_content wb"
  by (auto simp: grow_def wb_inv_def wb_content_def list_all_iff)
     (metis append_butlast_last_id in_set_conv_decomp_last le_antisym set_append rotate1.simps(2) set_rotate1 set_ConsD)

lemma copy_in_inv:
  assumes "wb_inv wb" and "wptr wb + length chunk \<le> BLOCK_SIZE"
  shows "wb_inv (copy_in wb chunk) \<and> wb_content (copy_in wb chunk) = wb_content wb @ chunk"
proof -
  have "wb_content (copy_in wb chunk) = wb_content wb @ chunk"
    using assms by (simp add: wb_content_split copy_in_def wb_inv_def Let_def)
  then show ?thesis
    using assms by (auto simp: wb_inv_def copy_in_def Let_def)
qed

lemma push_inv: "wb_inv wb \<Longrightarrow> wb_inv (push wb data) \<and> wb_content (push wb data) = wb_content wb @ data"
proof (induction wb data rule: push.induct)
  case (1 wb data)
  show ?case
  proof (cases "data = []")
    case True
    with "1.prems" show ?thesis by (simp add: push.simps)
  next
    case False
    define wb1 where "wb1 = grow wb"
    define copy where "copy = (if length data < BLOCK_SIZE - wptr wb1 then length data else BLOCK_SIZE - wptr wb1)"
    have g: "wb_inv wb1" "wb_content wb1 = wb_content wb"
      using grow_inv [OF "1.prems"] by (simp_all add: wb1_def)
    have "wptr wb1 + length (take copy data) \<le> BLOCK_SIZE"
      using g(1) by (auto simp: copy_def wb_inv_def)
    with g have c: "wb_inv (copy_in wb1 (take copy data))"
        "wb_content (copy_in wb1 (take copy data)) = wb_content wb @ take copy data"
      using copy_in_inv by fastforce+
    have "wb_inv (push (copy_in wb1 (take copy data)) (drop copy data)) \<and>
        wb_content (push (copy_in wb1 (take copy data)) (drop copy data)) =
        wb_content (copy_in wb1 (take copy data)) @ drop copy data"
      using "1.IH" [OF False wb1_def refl copy_def] c(1) by blast
    moreover have "push wb data = push (copy_in wb1 (take copy data)) (drop copy data)"
      using False by (simp add: push.simps [of wb data] wb1_def copy_def Let_def)
    ultimately show ?thesis using c(2) by simp
  qed
qed

interpretation ws: byte_sink push wb_content wb_inv
  by unfold_locales (simp_all add: push_inv)

lemma seri_copy_blocks:
  assumes "bs \<noteq> []" "list_all (\<lambda>b. length b = BLOCK_SIZE) (butlast bs)" "length (last bs) = n"
  shows "seri_copy bs n (length (concat bs)) = concat bs"
  using assms
proof (induction bs)
  case Nil
  then show ?case by simp
next
  case (Cons b bs)
  show ?case
  proof (cases "bs = []")
    case True
    with Cons.prems show ?thesis by (cases b) auto
  next
    case False
    with Cons show ?thesis by (auto simp: Let_def)
  qed
qed

lemma seri_content: "wb_inv wb \<Longrightarrow> malloc_ok (length (wb_content wb)) \<Longrightarrow> seri malloc_ok wb = Inr (wb_content wb)"
  using seri_copy_blocks [of "blocks wb" "wptr wb"]
  by (simp add: seri_def wb_inv_def wb_content_def Let_def)

section \<open>Header bytes\<close>

lemma or_push_bit_3: "t < 8 \<Longrightarrow> or t (push_bit 3 v) = t + 8 * (v :: nat)"
proof -
  assume "t < 8"
  have "or t (push_bit 3 v) = t + push_bit 3 v"
  proof (rule disjunctive_add [symmetric])
    fix n
    have "\<not> bit t n" if "3 \<le> n"
    proof -
      have "t < 2 ^ 3" using \<open>t < 8\<close> by simp
      also have "(2 :: nat) ^ 3 \<le> 2 ^ n" using that by (rule power_increasing) simp
      finally show ?thesis by (simp add: bit_iff_odd)
    qed
    then show "\<not> bit t n \<or> \<not> bit (push_bit 3 v) n" by (auto simp: bit_push_bit_iff)
  qed
  then show ?thesis by (simp add: push_bit_eq_mult mult.commute)
qed

lemma and_7: "and (n :: nat) 7 = n mod 8"
  using take_bit_eq_mask [of 3 n] by (simp add: take_bit_eq_mod mask_eq_exp_minus_1)

lemma unat_COMBINE: "t < 8 \<Longrightarrow> v < 32 \<Longrightarrow> unat (COMBINE_TYPE t v) = t + 8 * v"
  unfolding COMBINE_TYPE_def by (simp only: or_push_bit_3 unat_of_nat_byte) simp

lemma COMBINE_type [simp]: "t < 8 \<Longrightarrow> v < 32 \<Longrightarrow> unat (COMBINE_TYPE t v AND 7) = t"
  by (simp add: unsigned_and_eq unat_COMBINE and_7)

lemma COMBINE_cookie [simp]: "t < 8 \<Longrightarrow> v < 32 \<Longrightarrow> unat (drop_bit 3 (COMBINE_TYPE t v)) = v"
  by (simp only: unsigned_drop_bit_eq unat_COMBINE) (simp add: drop_bit_eq_div take_bit_eq_mod)

section \<open>The read buffer\<close>

text \<open>\<open>rb_at rb bs\<close>: the reader is inside its buffer and \<open>bs\<close> is what is left to read.\<close>

definition rb_at :: "read_block \<Rightarrow> bytes \<Rightarrow> bool" where
  "rb_at rb bs \<longleftrightarrow> rptr rb \<le> length (rbuf rb) \<and> drop (rptr rb) (rbuf rb) = bs"

definition advance :: "read_block \<Rightarrow> nat \<Rightarrow> read_block" where
  "advance rb n = rb\<lparr>rptr := rptr rb + n\<rparr>"

lemma advance_0 [simp]: "advance rb 0 = rb"
  by (simp add: advance_def)

lemma advance_advance [simp]: "advance (advance rb m) n = advance rb (m + n)"
  by (simp add: advance_def add.assoc)

lemma rb_at_length: "rb_at rb bs \<Longrightarrow> rptr rb + length bs = length (rbuf rb)"
  by (auto simp: rb_at_def)

lemma rb_at_advance: "rb_at rb (a @ rest) \<Longrightarrow> length a = n \<Longrightarrow> rb_at (advance rb n) rest"
proof -
  assume a: "rb_at rb (a @ rest)" and n: "length a = n"
  then have "drop (n + rptr rb) (rbuf rb) = rest"
    by (metis rb_at_def append_eq_conv_conj drop_drop)
  moreover have "rptr rb + n \<le> length (rbuf rb)" using rb_at_length [OF a] n by simp
  ultimately show ?thesis by (simp add: rb_at_def advance_def add.commute)
qed

lemma rb_read_at:
  "rb_at rb (a @ rest) \<Longrightarrow> length a = n \<Longrightarrow> rb_read rb n = (Some a, advance rb n)"
  using rb_at_length [of rb "a @ rest"] by (auto simp: rb_read_def rb_at_def advance_def)

lemma rb_read_Cons: "rb_at rb (b # rest) \<Longrightarrow> rb_read rb 1 = (Some [b], advance rb 1)"
  using rb_read_at [of rb "[b]" rest 1] by simp

lemma rb_at_Cons: "rb_at rb (b # rest) \<Longrightarrow> rb_at (advance rb 1) rest"
  using rb_at_advance [of rb "[b]" rest 1] by simp

lemma rb_at_init: "rb_at (rb_init bs) bs"
  by (simp add: rb_at_def rb_init_def)

section \<open>Scalar encodings\<close>

text \<open>The bytes each helper writes.\<close>

definition int_cookie :: "u64 \<Rightarrow> nat" where
  "int_cookie v =
     (if v = 0 then TYPE_NUMBER_ZERO
      else if v \<noteq> scast (ucast v :: u32) then TYPE_NUMBER_QWORD
      else if sint v < 0 then TYPE_NUMBER_DWORD
      else if sint v < 0x100 then TYPE_NUMBER_BYTE
      else if sint v < 0x10000 then TYPE_NUMBER_WORD
      else TYPE_NUMBER_DWORD)"

definition int_payload :: "u64 \<Rightarrow> bytes" where
  "int_payload v =
     (if v = 0 then []
      else if v \<noteq> scast (ucast v :: u32) then mem_of_u64 v
      else if sint v < 0 then mem_of_u32 (ucast v)
      else if sint v < 0x100 then [ucast v]
      else if sint v < 0x10000 then mem_of_u16 (ucast v)
      else mem_of_u32 (ucast v))"

definition int_bytes :: "u64 \<Rightarrow> bytes" where
  "int_bytes v = COMBINE_TYPE TYPE_NUMBER (int_cookie v) # int_payload v"

definition str_bytes :: "bytes \<Rightarrow> bytes" where
  "str_bytes s =
     (if length s < MAX_COOKIE then COMBINE_TYPE TYPE_SHORT_STRING (length s) # s
      else if length s < 0x10000
      then COMBINE_TYPE TYPE_LONG_STRING 2 # mem_of_u16 (word_of_nat (length s)) @ s
      else COMBINE_TYPE TYPE_LONG_STRING 4 # mem_of_u32 (word_of_nat (length s)) @ s)"

definition table_header :: "nat \<Rightarrow> bytes" where
  "table_header n =
     (if n \<ge> MAX_COOKIE - 1
      then COMBINE_TYPE TYPE_TABLE (MAX_COOKIE - 1) # int_bytes (word_of_nat n)
      else [COMBINE_TYPE TYPE_TABLE n])"

fun atom_bytes :: "lua_value \<Rightarrow> bytes" where
  "atom_bytes LNil = [COMBINE_TYPE TYPE_NIL 0]"
| "atom_bytes (LBool b) = [COMBINE_TYPE TYPE_BOOLEAN (if b then 1 else 0)]"
| "atom_bytes (LInt v) = int_bytes v"
| "atom_bytes (LNum v) = COMBINE_TYPE TYPE_NUMBER TYPE_NUMBER_DOUBLE # mem_of_u64 v"
| "atom_bytes (LLight p) = COMBINE_TYPE TYPE_USERDATA 0 # mem_of_u64 p"
| "atom_bytes (LStr s) = str_bytes s"
| "atom_bytes v = []"

lemma wb_integer_content:
  "wb_inv wb \<Longrightarrow> wb_inv (wb_integer wb v) \<and> wb_content (wb_integer wb v) = wb_content wb @ int_bytes v"
  by (simp add: wb_integer_def int_bytes_def int_cookie_def int_payload_def ws.put_inv ws.put_content)

lemma wb_string_content:
  "wb_inv wb \<Longrightarrow> wb_inv (wb_string wb s) \<and> wb_content (wb_string wb s) = wb_content wb @ str_bytes s"
  by (simp add: wb_string_def str_bytes_def Let_def ws.put_inv ws.put_content)

lemma wb_nil_content:
  "wb_inv wb \<Longrightarrow> wb_inv (wb_nil wb) \<and> wb_content (wb_nil wb) = wb_content wb @ [COMBINE_TYPE TYPE_NIL 0]"
  by (simp add: wb_nil_def ws.put_inv ws.put_content)

lemma wb_table_header_content:
  "wb_inv wb \<Longrightarrow>
   wb_inv (wb_table_header wb (int n)) \<and>
   wb_content (wb_table_header wb (int n)) = wb_content wb @ table_header n"
  using wb_integer_content [of "push wb [COMBINE_TYPE TYPE_TABLE 31]" "word_of_nat n"]
  by (auto simp: wb_table_header_def table_header_def ws.put_inv ws.put_content)

lemma pack_atom_content:
  "wb_inv wb \<Longrightarrow> \<not> is_table v \<Longrightarrow> pack_one rawlen wb v d = Inr wb' \<Longrightarrow>
   wb_inv wb' \<and> wb_content wb' = wb_content wb @ atom_bytes v"
  by (cases v) (auto simp: wb_nil_content wb_integer_content wb_string_content wb_boolean_def
      wb_double_def wb_pointer_def ws.put_inv ws.put_content)

lemma int_cookie_bound: "int_cookie v < 8"
  by (simp add: int_cookie_def)

lemma uint_of_nonneg_sint:
  assumes "0 \<le> sint (v :: u64)"
  shows "uint v = sint v"
proof -
  have s: "sint v = (uint v + 2 ^ 63) mod 2 ^ 64 - 2 ^ 63"
    using int_word_sint [where x = "uint v" and ?'a = 64] by simp
  have u: "0 \<le> uint v" "uint v < 2 ^ 64" using uint_bounded [of v] by simp_all
  show ?thesis
  proof (cases "uint v < 2 ^ 63")
    case True
    with s u show ?thesis by simp
  next
    case False
    then have "(uint v + 2 ^ 63) mod 2 ^ 64 = uint v - 2 ^ 63"
      using u by (simp add: mod_pos_geq)
    with s u assms False show ?thesis by simp
  qed
qed

lemma ucast_byte_id:
  assumes "0 \<le> sint (v :: u64)" "sint v < 256"
  shows "ucast (ucast v :: byte) = v"
proof (rule word_uint_eq_iff [THEN iffD2])
  have "uint v < 256" "0 \<le> uint v" using assms uint_of_nonneg_sint by simp_all
  then show "uint (ucast (ucast v :: byte) :: u64) = uint v"
    by (simp only: unsigned_ucast_eq) (simp add: unsigned_take_bit_eq take_bit_int_eq_self)
qed

lemma ucast_u16_id:
  assumes "0 \<le> sint (v :: u64)" "sint v < 65536"
  shows "ucast (ucast v :: u16) = v"
proof (rule word_uint_eq_iff [THEN iffD2])
  have "uint v < 65536" "0 \<le> uint v" using assms uint_of_nonneg_sint by simp_all
  then show "uint (ucast (ucast v :: u16) :: u64) = uint v"
    by (simp only: unsigned_ucast_eq) (simp add: unsigned_take_bit_eq take_bit_int_eq_self)
qed

lemma rb_integer_at:
  assumes "rb_at rb (int_payload v @ rest)"
  shows "rb_integer rb (int_cookie v) = (v, advance rb (length (int_payload v)))"
  using assms rb_read_at [OF assms refl]
  by (auto simp: rb_integer_def int_cookie_def int_payload_def ucast_byte_id ucast_u16_id
      split: if_splits)

lemma length_int_bytes: "length (int_bytes v) \<le> 9"
  by (simp add: int_bytes_def int_payload_def)

lemma int_bytes_Cons: "int_bytes v = COMBINE_TYPE TYPE_NUMBER (int_cookie v) # int_payload v"
  by (simp add: int_bytes_def)

text \<open>\<open>decodes bs v\<close>: wherever \<open>bs\<close> stands in the input, the unpacker reads exactly \<open>v\<close> from it.\<close>

definition decodes :: "bytes \<Rightarrow> lua_value \<Rightarrow> bool" where
  "decodes bs v \<longleftrightarrow>
     bs \<noteq> [] \<and> (v \<noteq> LNil \<longrightarrow> unat (hd bs AND 7) \<noteq> TYPE_NIL) \<and>
     (\<forall>fuel rb rest. length bs \<le> fuel \<longrightarrow> rb_at rb (bs @ rest) \<longrightarrow>
        unpack_one fuel rb = Inr (v, advance rb (length bs)))"

lemma decodesI:
  assumes "unat (h AND 7) = ty" "unat (drop_bit 3 h) = ck" "v \<noteq> LNil \<longrightarrow> ty \<noteq> TYPE_NIL"
    and "\<And>fuel rb rest. length ts \<le> fuel \<Longrightarrow> rb_at rb (ts @ rest) \<Longrightarrow>
      unpack_value fuel ty ck rb = Inr (v, advance rb (length ts))"
  shows "decodes (h # ts) v"
  unfolding decodes_def
proof (intro conjI allI impI)
  fix fuel rb rest
  assume f: "length (h # ts) \<le> fuel" and r: "rb_at rb ((h # ts) @ rest)"
  then obtain n where n: "fuel = Suc n" "length ts \<le> n" by (cases fuel) auto
  from r have r': "rb_at rb (h # ts @ rest)" by simp
  show "unpack_one fuel rb = Inr (v, advance rb (length (h # ts)))"
    using n rb_read_Cons [OF r'] assms(4) [OF n(2) rb_at_Cons [OF r']] assms(1,2)
    by simp
qed (use assms in auto)

lemma decodesD:
  "decodes bs v \<Longrightarrow> length bs \<le> fuel \<Longrightarrow> rb_at rb (bs @ rest) \<Longrightarrow>
   unpack_one fuel rb = Inr (v, advance rb (length bs))"
  unfolding decodes_def by blast

lemma rb_string_at: "rb_at rb (s @ rest) \<Longrightarrow> rb_string rb (length s) = (LStr s, advance rb (length s))"
  by (simp add: rb_string_def rb_read_at)

lemma unat_of_nat_u16: "n < 65536 \<Longrightarrow> unat (word_of_nat n :: u16) = n"
  by (simp add: unsigned_of_nat take_bit_eq_mod)

lemma unat_of_nat_u32: "n < 4294967296 \<Longrightarrow> unat (word_of_nat n :: u32) = n"
  by (simp add: unsigned_of_nat take_bit_eq_mod)

lemma decodes_int: "decodes (int_bytes v) (LInt v)"
  unfolding int_bytes_def
  by (rule decodesI [OF COMBINE_type COMBINE_cookie])
     (use int_cookie_bound [of v] in \<open>auto simp: rb_integer_at\<close>)

lemma decodes_str:
  assumes "length s < 2 ^ 32"
  shows "decodes (str_bytes s) (LStr s)"
proof -
  have short: "decodes (COMBINE_TYPE TYPE_SHORT_STRING (length s) # s) (LStr s)" if "length s < 32"
    by (rule decodesI [OF COMBINE_type COMBINE_cookie]) (use that in \<open>auto simp: rb_string_at\<close>)
  have len2: "decodes (COMBINE_TYPE TYPE_LONG_STRING 2 # mem_of_u16 (word_of_nat (length s)) @ s) (LStr s)"
    if "length s < 65536"
  proof (rule decodesI [OF COMBINE_type COMBINE_cookie])
    fix fuel rb rest
    assume "rb_at rb ((mem_of_u16 (word_of_nat (length s)) @ s) @ rest)"
    then have r: "rb_at rb (mem_of_u16 (word_of_nat (length s)) @ s @ rest)" by simp
    show "unpack_value fuel TYPE_LONG_STRING 2 rb =
        Inr (LStr s, advance rb (length (mem_of_u16 (word_of_nat (length s)) @ s)))"
      using rb_read_at [OF r] rb_at_advance [OF r] that
      by (simp add: rb_string_length_def rb_string_at unat_of_nat_u16)
  qed auto
  have len4: "decodes (COMBINE_TYPE TYPE_LONG_STRING 4 # mem_of_u32 (word_of_nat (length s)) @ s) (LStr s)"
  proof (rule decodesI [OF COMBINE_type COMBINE_cookie])
    fix fuel rb rest
    assume "rb_at rb ((mem_of_u32 (word_of_nat (length s)) @ s) @ rest)"
    then have r: "rb_at rb (mem_of_u32 (word_of_nat (length s)) @ s @ rest)" by simp
    show "unpack_value fuel TYPE_LONG_STRING 4 rb =
        Inr (LStr s, advance rb (length (mem_of_u32 (word_of_nat (length s)) @ s)))"
      using rb_read_at [OF r] rb_at_advance [OF r] assms
      by (simp add: rb_string_length_def rb_string_at unat_of_nat_u32)
  qed auto
  show ?thesis using short len2 len4 by (simp add: str_bytes_def)
qed

text \<open>Values the C++ can represent: strings below 4 GiB, no rejected type.\<close>

lemma decodes_atom:
  assumes "\<not> is_table v" "\<And>ty. v \<noteq> LOther ty" "\<And>s. v = LStr s \<Longrightarrow> length s < 2 ^ 32"
  shows "decodes (atom_bytes v) v"
proof (cases v)
  case LNil
  show ?thesis unfolding LNil atom_bytes.simps
    by (rule decodesI [OF COMBINE_type COMBINE_cookie]) auto
next
  case (LBool b)
  show ?thesis unfolding LBool atom_bytes.simps
    by (rule decodesI [OF COMBINE_type COMBINE_cookie]) auto
next
  case (LInt w)
  then show ?thesis by (simp add: decodes_int)
next
  case (LNum w)
  show ?thesis unfolding LNum atom_bytes.simps
    by (rule decodesI [OF COMBINE_type COMBINE_cookie]) (auto simp: rb_double_def rb_read_at)
next
  case (LLight w)
  show ?thesis unfolding LLight atom_bytes.simps
    by (rule decodesI [OF COMBINE_type COMBINE_cookie]) (auto simp: rb_pointer_def rb_read_at)
next
  case (LStr s)
  with assms show ?thesis by (simp add: decodes_str)
qed (use assms in auto)

lemma sint_ucast_of_nat: "n < 2 ^ 31 \<Longrightarrow> sint (ucast (word_of_nat n :: u64) :: u32) = int n"
  by (simp add: i32_of_u64_of_nat sint_of_nat_i32)

text \<open>The table header is read back as the array size, with the cookie already consumed.\<close>

lemma table_header_size:
  assumes "n < 2 ^ 31"
  obtains h ts ck where "table_header n = h # ts" "unat (h AND 7) = TYPE_TABLE"
    "unat (drop_bit 3 h) = ck"
    "\<And>rb rest. rb_at rb (ts @ rest) \<Longrightarrow> rb_array_size rb ck = (int n, advance rb (length ts))"
proof (cases "n \<ge> 31")
  case True
  let ?v = "word_of_nat n :: u64"
  have "rb_array_size rb 31 = (int n, advance rb (length (int_bytes ?v)))"
    if "rb_at rb (int_bytes ?v @ rest)" for rb rest
  proof -
    from that have r: "rb_at rb (COMBINE_TYPE TYPE_NUMBER (int_cookie ?v) # int_payload ?v @ rest)"
      by (simp add: int_bytes_Cons)
    show ?thesis
      using rb_read_Cons [OF r] rb_integer_at [OF rb_at_Cons [OF r]] int_cookie_bound [of ?v] assms
      by (simp add: rb_array_size_def sint_ucast_of_nat int_bytes_Cons)
  qed
  with True show ?thesis
    by (intro that [of "COMBINE_TYPE TYPE_TABLE 31" "int_bytes ?v" 31]) (auto simp: table_header_def)
next
  case False
  then show ?thesis
    by (intro that [of "COMBINE_TYPE TYPE_TABLE n" "[]" n])
       (auto simp: table_header_def rb_array_size_def)
qed

end
