(* ===== verification/Lua_Seri_Roundtrip.thy ===== *)
theory Lua_Seri_Roundtrip
  imports Lua_Seri_Props
begin

text \<open>
  The two theorems the actor runtime needs from its serializer: unpacking what was packed gives
  the same values back, and unpacking never diverges, whatever bytes it is given.
\<close>

section \<open>Well-formed values and the rebuilt table\<close>

text \<open>
  A well-formed value is one a Lua state can hold and the format can carry: keys are neither
  \<open>nil\<close> nor NaN nor integral floats, no key occurs twice (tables compare by identity, so equal
  contents are allowed), no value is \<open>nil\<close>, strings are below 4 GiB and array parts below \<open>2 ^ 31\<close>.
\<close>

function wf_value :: "(entries \<Rightarrow> nat) \<Rightarrow> lua_value \<Rightarrow> bool" where
  "wf_value rawlen v =
     (case v of
        LStr s \<Rightarrow> length s < 2 ^ 32
      | LTable es \<Rightarrow>
          rawlen es < 2 ^ 31 \<and>
          distinct (filter (\<lambda>k. \<not> is_table k) (map fst es)) \<and>
          list_all (\<lambda>p. key_ok (fst p) \<and> snd p \<noteq> LNil \<and>
                        wf_value rawlen (fst p) \<and> wf_value rawlen (snd p)) es
      | _ \<Rightarrow> True)"
  by pat_completeness auto
termination
  by (relation "measure (\<lambda>(rl, v). size v)")
     (auto dest!: size_entry_le simp: less_Suc_eq_le)

declare wf_value.simps [simp del]

lemma wf_value_simps [simp]:
  "wf_value rl LNil" "wf_value rl (LBool b)" "wf_value rl (LInt i)" "wf_value rl (LNum f)"
  "wf_value rl (LLight p)" "wf_value rl (LStr s) \<longleftrightarrow> length s < 2 ^ 32" "wf_value rl (LOther ty)"
  "wf_value rl (LTable es) \<longleftrightarrow>
     rl es < 2 ^ 31 \<and> distinct (filter (\<lambda>k. \<not> is_table k) (map fst es)) \<and>
     (\<forall>(k, v) \<in> set es. key_ok k \<and> v \<noteq> LNil \<and> wf_value rl k \<and> wf_value rl v)"
  by (subst wf_value.simps, simp add: list_all_iff split_beta)+

text \<open>
  The table the unpacker builds: the array part in index order, then the other entries in the
  order they were packed.
\<close>

function canon :: "(entries \<Rightarrow> nat) \<Rightarrow> lua_value \<Rightarrow> lua_value" where
  "canon rawlen v =
     (case v of
        LTable es \<Rightarrow>
          (let n = table_array_size rawlen es
           in LTable
                (map (\<lambda>i. (LInt (word_of_int i), canon rawlen (rawgeti es i)))
                   (filter (\<lambda>i. rawgeti es i \<noteq> LNil) [1..n]) @
                 map (\<lambda>p. (canon rawlen (fst p), canon rawlen (snd p)))
                   (filter (\<lambda>p. \<not> in_array_part n (fst p)) es)))
      | _ \<Rightarrow> v)"
  by pat_completeness auto
termination
  by (relation "measure (\<lambda>(rl, v). size v)")
     (auto dest!: size_entry_le simp: less_Suc_eq_le size_rawgeti_le)

declare canon.simps [simp del]

lemma canon_atom [simp]: "\<not> is_table v \<Longrightarrow> canon rl v = v"
  by (subst canon.simps) (cases v; simp)

lemma is_table_canon [simp]: "is_table (canon rl v) = is_table v"
  by (subst canon.simps) (cases v; simp add: Let_def)

lemma canon_Nil_iff [simp]: "canon rl v = LNil \<longleftrightarrow> v = LNil"
  by (metis canon_atom is_table.simps(1) is_table.simps(2) is_table_canon is_table.elims(2))

lemma key_ok_canon: "key_ok k \<Longrightarrow> key_ok (canon rl k)"
  by (cases "is_table k") (auto elim!: is_table.elims simp: canon.simps Let_def)

lemma wf_rawgeti:
  assumes "\<forall>(k, v) \<in> set es. wf_value rl k \<and> wf_value rl v"
  shows "wf_value rl (rawgeti es i)"
  using assms by (auto simp: rawgeti_def dest: map_of_SomeD split: option.splits)

lemma table_array_size_eq: "rl es < 2 ^ 31 \<Longrightarrow> table_array_size rl es = int (rl es)"
  by (simp add: table_array_size_def sint_of_nat_i32)

section \<open>What the two unpacking loops build\<close>

fun array_fold :: "(entries \<Rightarrow> nat) \<Rightarrow> entries \<Rightarrow> entries \<Rightarrow> int \<Rightarrow> nat \<Rightarrow> entries" where
  "array_fold rl es acc i 0 = acc"
| "array_fold rl es acc i (Suc k) =
     array_fold rl es (lua_rawseti acc i (canon rl (rawgeti es i))) (i + 1) k"

fun hash_fold :: "(entries \<Rightarrow> nat) \<Rightarrow> entries \<Rightarrow> entries \<Rightarrow> int \<Rightarrow> entries" where
  "hash_fold rl acc [] n = acc"
| "hash_fold rl acc ((k, v) # es) n =
     (if in_array_part n k then hash_fold rl acc es n
      else hash_fold rl (set_entry acc (canon rl k) (canon rl v)) es n)"

lemma array_fold_eq:
  assumes "1 \<le> i" "i + int k \<le> 2 ^ 63"
    and "\<forall>p \<in> set acc. \<exists>j. fst p = LInt (word_of_int j) \<and> 1 \<le> j \<and> j < i"
  shows "array_fold rl es acc i k =
     acc @ map (\<lambda>j. (LInt (word_of_int j), canon rl (rawgeti es j)))
              (filter (\<lambda>j. rawgeti es j \<noteq> LNil) [i..i + int k - 1])"
  using assms
proof (induction k arbitrary: acc i)
  case 0
  then show ?case by simp
next
  case (Suc k)
  have neq: "word_of_int j \<noteq> (word_of_int i :: u64)" if "1 \<le> j" "j < i" for j
  proof -
    have "j mod 2 ^ 64 = j" "i mod 2 ^ 64 = i" using that Suc.prems(1,2) by simp_all
    with that show ?thesis by (simp add: word_of_int_eq_iff take_bit_eq_mod)
  qed
  have fresh: "\<forall>p \<in> set acc. \<not> same_key (LInt (word_of_int i)) (fst p)"
    using Suc.prems(3) neq by (fastforce simp: same_key_def)
  define acc' where "acc' = lua_rawseti acc i (canon rl (rawgeti es i))"
  have acc': "acc' = (if rawgeti es i = LNil then acc
      else acc @ [(LInt (word_of_int i), canon rl (rawgeti es i))])"
    using set_entry_fresh [OF fresh] by (simp add: acc'_def lua_rawseti_def)
  have inv: "\<forall>p \<in> set acc'. \<exists>j. fst p = LInt (word_of_int j) \<and> 1 \<le> j \<and> j < i + 1"
    using Suc.prems(1,3) unfolding acc' by (fastforce split: if_splits)
  have "array_fold rl es acc' (i + 1) k =
     acc' @ map (\<lambda>j. (LInt (word_of_int j), canon rl (rawgeti es j)))
              (filter (\<lambda>j. rawgeti es j \<noteq> LNil) [i + 1..i + 1 + int k - 1])"
    using Suc.prems inv by (intro Suc.IH) auto
  moreover have "[i..i + int (Suc k) - 1] = i # [i + 1..i + 1 + int k - 1]"
    by (subst upto_rec1) (simp_all add: algebra_simps)
  ultimately show ?case by (simp add: acc' acc'_def [symmetric])
qed

lemma hash_fold_eq:
  assumes "distinct (filter (\<lambda>k. \<not> is_table k) (map fst es))"
    and "\<forall>(k, v) \<in> set es. v \<noteq> LNil"
    and "\<forall>p \<in> set acc. \<forall>q \<in> set es.
           \<not> in_array_part n (fst q) \<longrightarrow> \<not> is_table (fst q) \<longrightarrow> fst p \<noteq> fst q"
  shows "hash_fold rl acc es n =
     acc @ map (\<lambda>p. (canon rl (fst p), canon rl (snd p))) (filter (\<lambda>p. \<not> in_array_part n (fst p)) es)"
  using assms
proof (induction es arbitrary: acc)
  case Nil
  then show ?case by simp
next
  case (Cons p es)
  obtain k v where p: "p = (k, v)" by fastforce
  show ?case
  proof (cases "in_array_part n k")
    case True
    with Cons p show ?thesis by (auto split: if_splits)
  next
    case False
    have "\<forall>q \<in> set acc. \<not> same_key (canon rl k) (fst q)"
      using Cons.prems(3) False p by (fastforce simp: same_key_def)
    moreover have "v \<noteq> LNil" using Cons.prems(2) p by simp
    ultimately have s: "set_entry acc (canon rl k) (canon rl v) = acc @ [(canon rl k, canon rl v)]"
      by (simp add: set_entry_fresh)
    have "\<forall>q \<in> set es. \<not> is_table (fst q) \<longrightarrow> canon rl k \<noteq> fst q"
      using Cons.prems(1) p by (cases "is_table k") (auto split: if_splits)
    then have "hash_fold rl (acc @ [(canon rl k, canon rl v)]) es n =
       (acc @ [(canon rl k, canon rl v)]) @
         map (\<lambda>p. (canon rl (fst p), canon rl (snd p))) (filter (\<lambda>p. \<not> in_array_part n (fst p)) es)"
      using Cons.prems by (intro Cons.IH) (auto split: if_splits)
    with s False p show ?thesis by simp
  qed
qed

lemma in_array_part_of_int: "1 \<le> j \<Longrightarrow> j \<le> n \<Longrightarrow> n < 2 ^ 63 \<Longrightarrow> in_array_part n (LInt (word_of_int j))"
  by (simp add: int_word_sint)

lemma rebuilt_table:
  assumes "wf_value rl (LTable es)"
  shows "LTable (hash_fold rl (array_fold rl es [] 1 (rl es)) es (table_array_size rl es)) =
    canon rl (LTable es)"
proof -
  let ?n = "table_array_size rl es"
  from assms have b: "?n = int (rl es)" "rl es < 2 ^ 31" by (simp_all add: table_array_size_eq)
  have af: "array_fold rl es [] 1 (rl es) =
      map (\<lambda>j. (LInt (word_of_int j), canon rl (rawgeti es j)))
        (filter (\<lambda>j. rawgeti es j \<noteq> LNil) [1..?n])"
    using b by (subst array_fold_eq) auto
  have "hash_fold rl (array_fold rl es [] 1 (rl es)) es ?n =
      array_fold rl es [] 1 (rl es) @
      map (\<lambda>p. (canon rl (fst p), canon rl (snd p))) (filter (\<lambda>p. \<not> in_array_part ?n (fst p)) es)"
  proof (rule hash_fold_eq)
    show "\<forall>p \<in> set (array_fold rl es [] 1 (rl es)). \<forall>q \<in> set es.
        \<not> in_array_part ?n (fst q) \<longrightarrow> \<not> is_table (fst q) \<longrightarrow> fst p \<noteq> fst q"
      using b in_array_part_of_int [of _ ?n] unfolding af by fastforce
  qed (use assms in auto)
  then show ?thesis by (simp add: canon.simps [of rl "LTable es"] af Let_def)
qed

section \<open>Decoding the parts of a table\<close>

definition array_decodes :: "bytes \<Rightarrow> (entries \<Rightarrow> nat) \<Rightarrow> entries \<Rightarrow> int \<Rightarrow> nat \<Rightarrow> bool" where
  "array_decodes bs rl es i k \<longleftrightarrow>
     (\<forall>fuel rb rest acc. length bs \<le> fuel \<longrightarrow> rb_at rb (bs @ rest) \<longrightarrow>
        rb_table_array fuel rb acc i k = Inr (array_fold rl es acc i k, advance rb (length bs)))"

definition hash_decodes :: "bytes \<Rightarrow> (entries \<Rightarrow> nat) \<Rightarrow> entries \<Rightarrow> int \<Rightarrow> bool" where
  "hash_decodes bs rl es n \<longleftrightarrow>
     (\<forall>fuel rb rest acc. length bs \<le> fuel \<longrightarrow> rb_at rb (bs @ rest) \<longrightarrow>
        rb_table_hash fuel rb acc = Inr (hash_fold rl acc es n, advance rb (length bs)))"

lemma array_decodesD:
  "array_decodes bs rl es i k \<Longrightarrow> length bs \<le> fuel \<Longrightarrow> rb_at rb (bs @ rest) \<Longrightarrow>
   rb_table_array fuel rb acc i k = Inr (array_fold rl es acc i k, advance rb (length bs))"
  unfolding array_decodes_def by blast

lemma hash_decodesD:
  "hash_decodes bs rl es n \<Longrightarrow> length bs \<le> fuel \<Longrightarrow> rb_at rb (bs @ rest) \<Longrightarrow>
   rb_table_hash fuel rb acc = Inr (hash_fold rl acc es n, advance rb (length bs))"
  unfolding hash_decodes_def by blast

lemma array_decodes_0: "array_decodes [] rl es i 0"
  by (simp add: array_decodes_def)

lemma array_decodes_Suc:
  assumes "decodes b (canon rl (rawgeti es i))" "array_decodes bs rl es (i + 1) k"
  shows "array_decodes (b @ bs) rl es i (Suc k)"
  unfolding array_decodes_def
proof (intro allI impI)
  fix fuel rb rest acc
  assume f: "length (b @ bs) \<le> fuel" and r: "rb_at rb ((b @ bs) @ rest)"
  from r have r1: "rb_at rb (b @ bs @ rest)" by simp
  from rb_at_advance [OF r1 refl] have r2: "rb_at (advance rb (length b)) (bs @ rest)" .
  show "rb_table_array fuel rb acc i (Suc k) =
      Inr (array_fold rl es acc i (Suc k), advance rb (length (b @ bs)))"
    using decodesD [OF assms(1) _ r1, of fuel] array_decodesD [OF assms(2) _ r2, of fuel] f
    by simp
qed

lemma hash_decodes_Nil: "hash_decodes [COMBINE_TYPE TYPE_NIL 0] rl [] n"
  unfolding hash_decodes_def
proof (intro allI impI)
  fix fuel rb rest acc
  assume f: "length [COMBINE_TYPE TYPE_NIL 0] \<le> fuel" and r: "rb_at rb ([COMBINE_TYPE TYPE_NIL 0] @ rest)"
  then have "rb_at rb (COMBINE_TYPE TYPE_NIL 0 # rest)" by simp
  from rb_read_Cons [OF this] f show "rb_table_hash fuel rb acc =
      Inr (hash_fold rl acc [] n, advance rb (length [COMBINE_TYPE TYPE_NIL 0]))"
    by (cases fuel) auto
qed

lemma hash_decodes_Cons:
  assumes "decodes bk (canon rl k)" "key_ok k" "decodes bv (canon rl v)" "hash_decodes bs rl es n"
    and "\<not> in_array_part n k"
  shows "hash_decodes (bk @ bv @ bs) rl ((k, v) # es) n"
  unfolding hash_decodes_def
proof (intro allI impI)
  fix fuel rb rest acc
  assume f: "length (bk @ bv @ bs) \<le> fuel" and r: "rb_at rb ((bk @ bv @ bs) @ rest)"
  from assms(1) obtain h hs where bk: "bk = h # hs" by (cases bk) (auto simp: decodes_def)
  with f obtain m where m: "fuel = Suc m" by (cases fuel) auto
  from r have r1: "rb_at rb (bk @ bv @ bs @ rest)" by simp
  from rb_at_advance [OF r1 refl] have r2: "rb_at (advance rb (length bk)) (bv @ bs @ rest)" .
  from rb_at_advance [OF r2 refl] have r3: "rb_at (advance rb (length bk + length bv)) (bs @ rest)"
    by simp
  from r1 bk have rd: "rb_read rb 1 = (Some [h], advance rb 1)" by (intro rb_read_Cons) simp
  have "unpack_one (Suc m) rb = Inr (canon rl k, advance rb (length bk))"
    by (rule decodesD [OF assms(1) _ r1]) (use f m in simp)
  with rd have key: "unpack_value m (unat (h AND 7)) (unat (drop_bit 3 h)) (advance rb 1) =
      Inr (canon rl k, advance rb (length bk))"
    by simp
  have "canon rl k \<noteq> LNil" using assms(2) by auto
  with assms(1) bk have ty: "unat (h AND 7) \<noteq> TYPE_NIL" by (simp add: decodes_def)
  have val: "unpack_one m (advance rb (length bk)) =
      Inr (canon rl v, advance rb (length bk + length bv))"
    using decodesD [OF assms(3) _ r2, of m] f m bk by simp
  have set: "lua_rawset acc (canon rl k) (canon rl v) =
      Inr (set_entry acc (canon rl k) (canon rl v))"
    using assms(2) by (simp add: lua_rawset_key_ok key_ok_canon)
  have rest: "rb_table_hash m (advance rb (length bk + length bv)) acc' =
      Inr (hash_fold rl acc' es n, advance rb (length bk + length bv + length bs))" for acc'
    using hash_decodesD [OF assms(4) _ r3, of m acc'] f m bk by simp
  show "rb_table_hash fuel rb acc =
      Inr (hash_fold rl acc ((k, v) # es) n, advance rb (length (bk @ bv @ bs)))"
    using m rd key ty val set rest assms(5) by (simp add: add.assoc)
qed

lemma table_decodes:
  assumes "n < 2 ^ 31" "array_decodes ba rl es 1 n" "hash_decodes bh rl es (int n)"
  shows "decodes (table_header n @ ba @ bh) (LTable (hash_fold rl (array_fold rl es [] 1 n) es (int n)))"
proof -
  from assms(1) obtain h ts ck where hd: "table_header n = h # ts" "unat (h AND 7) = TYPE_TABLE"
      "unat (drop_bit 3 h) = ck"
    and size: "\<And>rb rest. rb_at rb (ts @ rest) \<Longrightarrow> rb_array_size rb ck = (int n, advance rb (length ts))"
    by (rule table_header_size) blast
  have "decodes (h # ts @ ba @ bh) (LTable (hash_fold rl (array_fold rl es [] 1 n) es (int n)))"
  proof (rule decodesI [OF hd(2,3)])
    fix fuel rb rest
    assume f: "length (ts @ ba @ bh) \<le> fuel" and "rb_at rb ((ts @ ba @ bh) @ rest)"
    then have r1: "rb_at rb (ts @ ba @ bh @ rest)" by simp
    from rb_at_advance [OF r1 refl] have r2: "rb_at (advance rb (length ts)) (ba @ bh @ rest)" .
    from rb_at_advance [OF r2 refl]
    have r3: "rb_at (advance rb (length ts + length ba)) (bh @ rest)" by simp
    show "unpack_value fuel TYPE_TABLE ck rb =
        Inr (LTable (hash_fold rl (array_fold rl es [] 1 n) es (int n)),
             advance rb (length (ts @ ba @ bh)))"
      using size [OF r1] array_decodesD [OF assms(2) _ r2, of fuel "[]"]
        hash_decodesD [OF assms(3) _ r3, of fuel] f
      by (simp add: add.assoc)
  qed simp
  with hd(1) show ?thesis by simp
qed

section \<open>The packer writes what the unpacker reads\<close>

lemma pack_atom_decodes:
  assumes "\<not> is_table v" "pack_one rl wb v d = Inr wb'" "wb_inv wb" "wf_value rl v"
  shows "wb_inv wb' \<and> (\<exists>bs. wb_content wb' = wb_content wb @ bs \<and> decodes bs (canon rl v))"
proof -
  have "decodes (atom_bytes v) v"
    using assms by (intro decodes_atom) auto
  then show ?thesis
    using pack_atom_content [OF assms(3,1,2)] assms(1) by auto
qed

lemma pack_decodes:
  shows "pack_one rl wb v d = Inr wb' \<Longrightarrow> wb_inv wb \<Longrightarrow> wf_value rl v \<Longrightarrow>
      wb_inv wb' \<and> (\<exists>bs. wb_content wb' = wb_content wb @ bs \<and> decodes bs (canon rl v))"
    and "wb_table rl wb es d = Inr wb' \<Longrightarrow> wb_inv wb \<Longrightarrow> wf_value rl (LTable es) \<Longrightarrow>
      wb_inv wb' \<and> (\<exists>bs. wb_content wb' = wb_content wb @ bs \<and> decodes bs (canon rl (LTable es)))"
    and "wb_table_array rl wb es d i k = Inr wb' \<Longrightarrow> wb_inv wb \<Longrightarrow>
      (\<forall>(k, v) \<in> set es. wf_value rl k \<and> wf_value rl v) \<Longrightarrow>
      wb_inv wb' \<and> (\<exists>bs. wb_content wb' = wb_content wb @ bs \<and> array_decodes bs rl es i k)"
    and "wb_table_hash rl wb es d n = Inr wb' \<Longrightarrow> wb_inv wb \<Longrightarrow>
      (\<forall>(k, v) \<in> set es. key_ok k \<and> wf_value rl k \<and> wf_value rl v) \<Longrightarrow>
      wb_inv wb' \<and> (\<exists>bs. wb_content wb' = wb_content wb @ bs \<and> hash_decodes bs rl es n)"
proof (induction rl wb v d and rl wb es d and rl wb es d i k and rl wb es d n
    arbitrary: wb' and wb' and wb' and wb'
    rule: pack_one_wb_table_wb_table_array_wb_table_hash.induct)
  case (9 rl wb es d)
  let ?n = "rl es"
  from "9.prems"(3) have n: "table_array_size rl es = int ?n" "?n < 2 ^ 31"
    by (simp_all add: table_array_size_eq)
  from "9.prems"(1) n obtain wb1 where
      depth: "\<not> MAX_DEPTH \<le> d"
    and arr: "wb_table_array rl (wb_table_header wb (int ?n)) es d 1 ?n = Inr wb1"
    and hash: "wb_table_hash rl wb1 es d (int ?n) = Inr wb'"
    by (auto simp: Let_def split: if_splits sum.splits)
  from wb_table_header_content [OF "9.prems"(2), of ?n]
  have h: "wb_inv (wb_table_header wb (int ?n))"
    "wb_content (wb_table_header wb (int ?n)) = wb_content wb @ table_header ?n" by simp_all
  have es: "\<forall>(k, v) \<in> set es. key_ok k \<and> wf_value rl k \<and> wf_value rl v"
    using "9.prems"(3) by auto
  from "9.IH"(1) [OF depth n(1) [symmetric]] arr h(1) es obtain ba where
    a: "wb_inv wb1" "wb_content wb1 = wb_content wb @ table_header ?n @ ba" "array_decodes ba rl es 1 ?n"
    by (auto simp: h(2))
  from "9.IH"(2) [OF depth n(1) [symmetric], of wb1] arr hash a(1) es obtain bh where
    b: "wb_inv wb'" "wb_content wb' = wb_content wb1 @ bh" "hash_decodes bh rl es (int ?n)"
    by auto
  from table_decodes [OF n(2) a(3) b(3)] rebuilt_table [OF "9.prems"(3)] n(1)
  have "decodes (table_header ?n @ ba @ bh) (canon rl (LTable es))" by simp
  with a(2) b(1,2) show ?case by auto
next
  case (10 rl wb es d i)
  then show ?case by (auto intro: array_decodes_0)
next
  case (11 rl wb es d i k)
  from "11.prems"(1) obtain wb1 where
      one: "pack_one rl wb (rawgeti es i) d = Inr wb1"
    and rest: "wb_table_array rl wb1 es d (i + 1) k = Inr wb'"
    by (auto split: sum.splits)
  from "11.IH"(1) [OF one "11.prems"(2)] "11.prems"(3) obtain b where
    b: "wb_inv wb1" "wb_content wb1 = wb_content wb @ b" "decodes b (canon rl (rawgeti es i))"
    using wf_rawgeti by blast
  from "11.IH"(2) [OF one rest b(1) "11.prems"(3)] obtain bs where
    bs: "wb_inv wb'" "wb_content wb' = wb_content wb1 @ bs" "array_decodes bs rl es (i + 1) k"
    by blast
  from array_decodes_Suc [OF b(3) bs(3)] b(2) bs(1,2) show ?case by auto
next
  case (12 rl wb d n)
  then show ?case using wb_nil_content [of wb] hash_decodes_Nil by auto
next
  case (13 rl wb key val es d n)
  show ?case
  proof (cases "in_array_part n key")
    case True
    from "13.IH"(1) [OF True] "13.prems" True obtain bs where
      "wb_inv wb'" "wb_content wb' = wb_content wb @ bs" "hash_decodes bs rl es n"
      by auto
    with True show ?thesis by (auto simp: hash_decodes_def)
  next
    case False
    from "13.prems"(1) False obtain wb1 wb2 where
        k: "pack_one rl wb key d = Inr wb1"
      and v: "pack_one rl wb1 val d = Inr wb2"
      and t: "wb_table_hash rl wb2 es d n = Inr wb'"
      by (auto split: sum.splits)
    from "13.prems"(3) have ok: "key_ok key" "wf_value rl key" "wf_value rl val" by simp_all
    from "13.IH"(2) [OF False k "13.prems"(2) ok(2)] obtain bk where
      bk: "wb_inv wb1" "wb_content wb1 = wb_content wb @ bk" "decodes bk (canon rl key)" by blast
    from "13.IH"(3) [OF False k v bk(1) ok(3)] obtain bv where
      bv: "wb_inv wb2" "wb_content wb2 = wb_content wb1 @ bv" "decodes bv (canon rl val)" by blast
    from "13.IH"(4) [OF False k v t bv(1)] "13.prems"(3) obtain bs where
      bs: "wb_inv wb'" "wb_content wb' = wb_content wb2 @ bs" "hash_decodes bs rl es n" by auto
    from hash_decodes_Cons [OF bk(3) ok(1) bv(3) bs(3) False] bk(2) bv(2) bs(1,2)
    show ?thesis by auto
  qed
next
  case (7 rl wb es d)
  then show ?case by simp
qed (rule pack_atom_decodes; simp)+

section \<open>Sequences of values\<close>

lemma pack_all_decodes:
  "pack_all rl wb vs = Inr wb' \<Longrightarrow> wb_inv wb \<Longrightarrow> list_all (wf_value rl) vs \<Longrightarrow>
   wb_inv wb' \<and> (\<exists>bss. wb_content wb' = wb_content wb @ concat bss \<and>
                       list_all2 decodes bss (map (canon rl) vs))"
proof (induction vs arbitrary: wb)
  case Nil
  then show ?case by (auto intro!: exI [of _ "[]"])
next
  case (Cons v vs)
  from Cons.prems(1) obtain wb1 where
    p: "pack_one rl wb v 0 = Inr wb1" "pack_all rl wb1 vs = Inr wb'"
    by (auto split: sum.splits)
  from pack_decodes(1) [OF p(1) Cons.prems(2)] Cons.prems(3) obtain b where
    b: "wb_inv wb1" "wb_content wb1 = wb_content wb @ b" "decodes b (canon rl v)"
    by auto
  from Cons.IH [OF p(2) b(1)] Cons.prems(3) obtain bss where
    bss: "wb_inv wb'" "wb_content wb' = wb_content wb1 @ concat bss"
      "list_all2 decodes bss (map (canon rl) vs)"
    by auto
  with b show ?case by (auto intro!: exI [of _ "b # bss"])
qed

lemma unpack_loop_decodes:
  "list_all2 decodes bss vs \<Longrightarrow> rb_at rb (concat bss) \<Longrightarrow>
   length (concat bss) \<le> fuel \<Longrightarrow> length (concat bss) < n \<Longrightarrow> unpack_loop fuel n rb = Inr vs"
proof (induction bss arbitrary: vs rb n)
  case Nil
  then show ?case by (cases n) (auto simp: rb_at_def)
next
  case (Cons b bss)
  then obtain v vs' where vs: "vs = v # vs'" "decodes b v" "list_all2 decodes bss vs'"
    by (auto simp: list_all2_Cons1)
  then have "b \<noteq> []" by (simp add: decodes_def)
  then have lb: "0 < length b" by simp
  obtain m where m: "n = Suc m" using Cons.prems(4) by (cases n) auto
  from Cons.prems(2) have r: "rb_at rb (b @ concat bss)" by simp
  have lt: "rptr rb < length (rbuf rb)" using rb_at_length [OF r] \<open>b \<noteq> []\<close> by (cases b) auto
  have "unpack_one fuel rb = Inr (v, advance rb (length b))"
    using Cons.prems(3) by (intro decodesD [OF vs(2) _ r]) simp
  moreover have "unpack_loop fuel m (advance rb (length b)) = Inr vs'"
  proof (rule Cons.IH [OF vs(3) rb_at_advance [OF r refl]])
    show "length (concat bss) \<le> fuel" using Cons.prems(3) by simp
    show "length (concat bss) < m" using Cons.prems(4) m lb by (simp del: length_greater_0_conv)
  qed
  ultimately show ?case using lt m vs(1) by simp
qed

lemma pack_all_inv: "pack_all rl wb vs = Inr wb' \<Longrightarrow> wb_inv wb \<Longrightarrow> list_all (wf_value rl) vs \<Longrightarrow> wb_inv wb'"
  using pack_all_decodes by blast

section \<open>The rebuilt table has the same entries\<close>

lemma array_part_mset:
  assumes "distinct (filter (\<lambda>k. \<not> is_table k) (map fst es))" "\<forall>(k, v) \<in> set es. v \<noteq> LNil"
    and "0 \<le> n" "n < 2 ^ 63"
  shows "mset (map (\<lambda>i. (LInt (word_of_int i), rawgeti es i)) (filter (\<lambda>i. rawgeti es i \<noteq> LNil) [1..n])) =
    mset (filter (\<lambda>p. in_array_part n (fst p)) es)"
proof (rule set_eq_iff_mset_eq_distinct [THEN iffD1])
  let ?xs = "map (\<lambda>i. (LInt (word_of_int i), rawgeti es i)) (filter (\<lambda>i. rawgeti es i \<noteq> LNil) [1..n])"
  let ?ys = "filter (\<lambda>p. in_array_part n (fst p)) es"
  have inj: "word_of_int i = (word_of_int j :: u64) \<Longrightarrow> i = j"
    if "1 \<le> i" "i \<le> n" "1 \<le> j" "j \<le> n" for i j
    using that assms(4) by (simp add: word_of_int_eq_iff take_bit_int_eq_self)
  show "distinct ?xs"
    using inj by (auto simp: distinct_map inj_on_def)
  have part: "in_array_part n k \<Longrightarrow> \<not> is_table k" for k by (cases k) auto
  have "distinct (filter (\<lambda>k. in_array_part n k) (filter (\<lambda>k. \<not> is_table k) (map fst es)))"
    using assms(1) by (rule distinct_filter)
  also have "filter (\<lambda>k. in_array_part n k) (filter (\<lambda>k. \<not> is_table k) (map fst es)) =
      map fst (filter (\<lambda>p. in_array_part n (fst p)) es)"
    using part by (induction es) auto
  finally have dk: "distinct (map fst ?ys)" .
  then show "distinct ?ys" by (simp add: distinct_map)
  have look: "rawgeti es i = v" if "(LInt (word_of_int i), v) \<in> set es" "1 \<le> i" "i \<le> n" for i v
  proof -
    have "map_of ?ys (LInt (word_of_int i)) = Some v"
      using that dk in_array_part_of_int [OF that(2,3) assms(4)] by (intro map_of_is_SomeI) auto
    moreover have "map_of ?ys (LInt (word_of_int i)) = map_of es (LInt (word_of_int i))"
      using in_array_part_of_int [OF that(2,3) assms(4)]
      by (induction es) auto
    ultimately show ?thesis by (simp add: rawgeti_def)
  qed
  show "set ?xs = set ?ys"
  proof (intro equalityI subsetI)
    fix p assume "p \<in> set ?xs"
    then obtain i where i: "p = (LInt (word_of_int i), rawgeti es i)" "1 \<le> i" "i \<le> n" "rawgeti es i \<noteq> LNil"
      by auto
    then have "p \<in> set es" by (auto simp: rawgeti_def dest: map_of_SomeD split: option.splits)
    with i in_array_part_of_int [OF i(2,3) assms(4)] show "p \<in> set ?ys" by simp
  next
    fix p assume "p \<in> set ?ys"
    then have "in_array_part n (fst p)" "p \<in> set es" by simp_all
    then obtain w v where p: "p = (LInt w, v)" "0 < sint w" "sint w \<le> n" "(LInt w, v) \<in> set es"
      by (cases p, cases "fst p") auto
    then have "rawgeti es (sint w) = v" by (intro look) auto
    moreover have "v \<noteq> LNil" using p(4) assms(2) by auto
    ultimately show "p \<in> set ?xs" using p by (auto intro!: image_eqI [of _ _ "sint w"])
  qed
qed

lemma canon_equiv: "wf_value rl v \<Longrightarrow> lua_equiv v (canon rl v)"
proof (induction "size v" arbitrary: v rule: less_induct)
  case less
  show ?case
  proof (cases "is_table v")
    case False
    then show ?thesis by (simp add: equiv_atom)
  next
    case True
    then obtain es where v: "v = LTable es" by (cases v) auto
    let ?n = "table_array_size rl es"
    let ?as = "map (\<lambda>i. (LInt (word_of_int i), rawgeti es i)) (filter (\<lambda>i. rawgeti es i \<noteq> LNil) [1..?n])"
    let ?hs = "filter (\<lambda>p. \<not> in_array_part ?n (fst p)) es"
    have n: "0 \<le> ?n" "?n < 2 ^ 63" using less.prems v by (simp_all add: table_array_size_eq)
    have as: "mset ?as = filter_mset (\<lambda>p. in_array_part ?n (fst p)) (mset es)"
      using array_part_mset [of es ?n] less.prems v n by fastforce
    have es: "mset es = mset (?as @ ?hs)"
      unfolding mset_append as mset_filter by (rule multiset_partition)
    let ?f = "\<lambda>p. (canon rl (fst p), canon rl (snd p))"
    have "set es = set (?as @ ?hs)" using arg_cong [OF es, of set_mset] by (simp only: set_mset_mset)
    then have sub: "p \<in> set es" if "p \<in> set (?as @ ?hs)" for p using that by simp
    have c: "canon rl v = LTable (map ?f (?as @ ?hs))"
      by (simp add: v canon.simps [of rl "LTable es"] Let_def)
    have "list_all2 (\<lambda>p q. lua_equiv (fst p) (fst q) \<and> lua_equiv (snd p) (snd q)) (?as @ ?hs) (map ?f (?as @ ?hs))"
      unfolding list_all2_map2
    proof (rule list.rel_refl_strong)
      fix p assume "p \<in> set (?as @ ?hs)"
      then have "p \<in> set es" by (rule sub)
      then have p: "(fst p, snd p) \<in> set es" by simp
      have "size (fst p) < size v" "size (snd p) < size v"
        using size_entry_le [OF p] v by simp_all
      moreover have "wf_value rl (fst p)" "wf_value rl (snd p)"
        using less.prems p unfolding v wf_value_simps by blast+
      ultimately show "lua_equiv (fst p) (fst (?f p)) \<and> lua_equiv (snd p) (snd (?f p))"
        by (simp add: less.hyps)
    qed
    then have "lua_equiv (LTable es) (LTable (map ?f (?as @ ?hs)))" by (rule equiv_table [OF es])
    then show ?thesis by (simp only: c) (simp only: v)
  qed
qed

section \<open>Termination of the unpacker\<close>

text \<open>The reader only moves forward and never leaves the buffer.\<close>

definition rb_le :: "read_block \<Rightarrow> read_block \<Rightarrow> bool" where
  "rb_le rb rb' \<longleftrightarrow> rbuf rb' = rbuf rb \<and> rptr rb \<le> rptr rb' \<and> (rptr rb \<le> length (rbuf rb) \<longrightarrow> rptr rb' \<le> length (rbuf rb))"

definition left :: "read_block \<Rightarrow> nat" where
  "left rb = length (rbuf rb) - rptr rb"

lemma rb_le_refl [simp]: "rb_le rb rb"
  by (simp add: rb_le_def)

lemma rb_le_trans: "rb_le a b \<Longrightarrow> rb_le b c \<Longrightarrow> rb_le a c"
  by (auto simp: rb_le_def)

lemma rb_le_left: "rb_le a b \<Longrightarrow> left b \<le> left a"
  by (auto simp: rb_le_def left_def)

lemma rb_read_le: "rb_read rb n = (r, rb') \<Longrightarrow> rb_le rb rb'"
  by (auto simp: rb_read_def rb_le_def split: if_splits)

lemma rb_read_left: "rb_read rb n = (Some p, rb') \<Longrightarrow> left rb' + n = left rb"
  by (auto simp: rb_read_def left_def split: if_splits)

lemma rb_integer_le: "rb_integer rb c = (v, rb') \<Longrightarrow> rb_le rb rb'"
  by (auto simp: rb_integer_def dest: rb_read_le split: if_splits prod.splits option.splits)

lemma rb_double_le: "rb_double rb = (v, rb') \<Longrightarrow> rb_le rb rb'"
  by (auto simp: rb_double_def dest: rb_read_le split: prod.splits option.splits)

lemma rb_pointer_le: "rb_pointer rb = (v, rb') \<Longrightarrow> rb_le rb rb'"
  by (auto simp: rb_pointer_def dest: rb_read_le split: prod.splits option.splits)

lemma rb_string_le: "rb_string rb n = (v, rb') \<Longrightarrow> rb_le rb rb'"
  by (auto simp: rb_string_def dest: rb_read_le split: prod.splits option.splits)

lemma rb_string_length_le: "rb_string_length rb c = (v, rb') \<Longrightarrow> rb_le rb rb'"
  by (auto simp: rb_string_length_def dest: rb_read_le split: if_splits prod.splits option.splits)

lemma rb_array_size_le: "rb_array_size rb c = (v, rb') \<Longrightarrow> rb_le rb rb'"
  by (auto simp: rb_array_size_def dest!: rb_read_le rb_integer_le intro: rb_le_trans
      split: if_splits prod.splits option.splits)

lemmas rb_le_ops = rb_double_le rb_pointer_le rb_integer_le rb_string_le

lemma unpack_forward:
  shows "unpack_one f rb = Inr (v, rb') \<Longrightarrow> rb_le rb rb'"
    and "unpack_value f ty ck rb = Inr (v, rb') \<Longrightarrow> rb_le rb rb'"
    and "rb_table_array f rb es i k = Inr (es', rb') \<Longrightarrow> rb_le rb rb'"
    and "rb_table_hash f rb es = Inr (es', rb') \<Longrightarrow> rb_le rb rb'"
proof (induction f rb and f ty ck rb and f rb es i k and f rb es
    arbitrary: v rb' and v rb' and es' rb' and es' rb'
    rule: unpack_one_unpack_value_rb_table_array_rb_table_hash.induct)
  case (2 f rb)
  then show ?case
    by (auto dest: rb_read_le intro: rb_le_trans split: prod.splits option.splits)
next
  case (3 f ty ck rb)
  show ?case
  proof (cases "ty = TYPE_TABLE")
    case True
    with "3.prems" obtain n rb1 es rb2 es' where
      s: "rb_array_size rb ck = (n, rb1)" "rb_table_array f rb1 [] 1 (nat n) = Inr (es, rb2)"
        "rb_table_hash f rb2 es = Inr (es', rb')"
      by (auto split: prod.splits sum.splits)
    have "rb_le rb1 rb2"
      by (rule "3.IH"(1) [OF _ _ _ _ _ _ True refl s(1) [symmetric] s(2)]) (use True in simp_all)
    moreover have "rb_le rb2 rb'"
      by (rule "3.IH"(2) [OF _ _ _ _ _ _ True refl s(1) [symmetric] s(2) refl s(3)])
         (use True in simp_all)
    ultimately show ?thesis using rb_array_size_le [OF s(1)] by (blast intro: rb_le_trans)
  next
    case False
    with "3.prems" show ?thesis
      by (auto dest: rb_le_ops rb_string_length_le intro: rb_le_trans
          split: if_splits prod.splits)
  qed
next
  case (5 f rb es i k)
  then show ?case by (auto intro: rb_le_trans split: sum.splits prod.splits)
next
  case (7 f rb es)
  obtain r rb1 where rd: "rb_read rb 1 = (r, rb1)" by fastforce
  from rb_read_le [OF rd] have le: "rb_le rb rb1" .
  show ?case
  proof (cases "\<exists>t. r = Some t \<and> unat (hd t AND 7) \<noteq> TYPE_NIL")
    case False
    with "7.prems" rd le show ?thesis by (auto split: option.splits)
  next
    case True
    then obtain t where t: "r = Some t" "unat (hd t AND 7) \<noteq> TYPE_NIL" by blast
    then have pr: "(Some t, rb1) = rb_read rb 1" using rd by simp
    from "7.prems" rd t obtain key rb2 val rb3 es1 where
      s: "unpack_value f (unat (hd t AND 7)) (unat (drop_bit 3 (hd t))) rb1 = Inr (key, rb2)"
        "unpack_one f rb2 = Inr (val, rb3)" "lua_rawset es key val = Inr es1"
        "rb_table_hash f rb3 es1 = Inr (es', rb')"
      by (auto split: sum.splits prod.splits)
    have "rb_le rb1 rb2" by (rule "7.IH"(1) [OF pr refl t(2) s(1)])
    moreover have "rb_le rb2 rb3" by (rule "7.IH"(2) [OF pr refl t(2) s(1) refl s(2)])
    moreover have "rb_le rb3 rb'" by (rule "7.IH"(3) [OF pr refl t(2) s(1) refl s(2) refl s(3,4)])
    ultimately show ?thesis using le by (blast intro: rb_le_trans)
  qed
qed simp_all

lemma unpack_fuel_enough:
  shows "left rb < f \<Longrightarrow> unpack_one f rb \<noteq> Inl OutOfFuel"
    and "left rb < f \<Longrightarrow> unpack_value f ty ck rb \<noteq> Inl OutOfFuel"
    and "left rb < f \<Longrightarrow> rb_table_array f rb es i k \<noteq> Inl OutOfFuel"
    and "left rb < f \<Longrightarrow> rb_table_hash f rb es \<noteq> Inl OutOfFuel"
proof (induction f rb and f ty ck rb and f rb es i k and f rb es
    rule: unpack_one_unpack_value_rb_table_array_rb_table_hash.induct)
  case (2 f rb)
  obtain r rb1 where rd: "rb_read rb 1 = (r, rb1)" by fastforce
  show ?case
  proof (cases r)
    case None
    with rd show ?thesis by simp
  next
    case (Some t)
    with rd have "left rb1 < f" using rb_read_left [of rb 1 t rb1] "2.prems" by simp
    from "2.IH" [OF rd [symmetric] Some this] rd Some show ?thesis by simp
  qed
next
  case (3 f ty ck rb)
  show ?case
  proof (cases "ty = TYPE_TABLE")
    case False
    then show ?thesis by (auto split: prod.splits)
  next
    case True
    obtain n rb1 where sz: "rb_array_size rb ck = (n, rb1)" by fastforce
    then have l1: "left rb1 < f" using rb_array_size_le rb_le_left "3.prems" by fastforce
    have a: "rb_table_array f rb1 [] 1 (nat n) \<noteq> Inl OutOfFuel"
      by (rule "3.IH"(1) [OF _ _ _ _ _ _ True refl sz [symmetric] l1]) (use True in simp_all)
    have h: "rb_table_hash f rb2 es \<noteq> Inl OutOfFuel"
      if s: "rb_table_array f rb1 [] 1 (nat n) = Inr (es, rb2)" for es rb2
    proof -
      have "left rb2 < f" using unpack_forward(3) [OF s] rb_le_left l1 by fastforce
      then show ?thesis
        by (intro "3.IH"(2) [OF _ _ _ _ _ _ True refl sz [symmetric] s refl]) (use True in simp_all)
    qed
    show ?thesis using True sz a h by (auto split: sum.splits)
  qed
next
  case (5 f rb es i k)
  have "rb_table_array f rb1 (lua_rawseti es i v) (i + 1) k \<noteq> Inl OutOfFuel"
    if s: "unpack_one f rb = Inr (v, rb1)" for v rb1
    using unpack_forward(1) [OF s] rb_le_left "5.prems" by (intro "5.IH"(2) [OF s refl]) fastforce
  with "5.IH"(1) "5.prems" show ?case by (auto split: sum.splits)
next
  case (7 f rb es)
  obtain r rb1 where rd: "rb_read rb 1 = (r, rb1)" by fastforce
  show ?case
  proof (cases "\<exists>t. r = Some t \<and> unat (hd t AND 7) \<noteq> TYPE_NIL")
    case False
    with rd show ?thesis by (auto split: option.splits)
  next
    case True
    then obtain t where t: "r = Some t" "unat (hd t AND 7) \<noteq> TYPE_NIL" by blast
    then have pr: "(Some t, rb1) = rb_read rb 1" using rd by simp
    have l1: "left rb1 < f" using rb_read_left [of rb 1 t rb1] rd t "7.prems" by simp
    let ?key = "unpack_value f (unat (hd t AND 7)) (unat (drop_bit 3 (hd t))) rb1"
    have k: "?key \<noteq> Inl OutOfFuel" by (rule "7.IH"(1) [OF pr refl t(2) l1])
    have v: "unpack_one f rb2 \<noteq> Inl OutOfFuel \<and> left rb2 < f" if s: "?key = Inr (key, rb2)" for key rb2
    proof -
      have "left rb2 < f" using unpack_forward(2) [OF s] rb_le_left l1 by fastforce
      then show ?thesis using "7.IH"(2) [OF pr refl t(2) s refl] by blast
    qed
    have h: "rb_table_hash f rb3 es1 \<noteq> Inl OutOfFuel"
      if s: "?key = Inr (key, rb2)" "unpack_one f rb2 = Inr (val, rb3)" "lua_rawset es key val = Inr es1"
      for key rb2 val rb3 es1
    proof -
      have "left rb3 < f" using v [OF s(1)] unpack_forward(1) [OF s(2)] rb_le_left by fastforce
      then show ?thesis using "7.IH"(3) [OF pr refl t(2) s(1) refl s(2) refl s(3)] by blast
    qed
    show ?thesis
    proof (cases ?key)
      case (Inl e)
      with rd t k show ?thesis by simp
    next
      case (Inr kp)
      obtain key rb2 where kp: "kp = (key, rb2)" by fastforce
      show ?thesis
      proof (cases "unpack_one f rb2")
        case (Inl e)
        with rd t v [of key rb2] \<open>?key = Inr kp\<close> kp show ?thesis by simp
      next
        case vr: (Inr vp)
        obtain val rb3 where vp: "vp = (val, rb3)" by fastforce
        show ?thesis
          using rd t \<open>?key = Inr kp\<close> kp vr vp h [of key rb2 val rb3]
          by (cases "lua_rawset es key val") simp_all
      qed
    qed
  qed
qed simp_all

lemma unpack_one_progress:
  assumes "unpack_one f rb = Inr (v, rb')" "rptr rb < length (rbuf rb)"
  shows "left rb' < left rb"
proof -
  obtain g where f: "f = Suc g" using assms(1) by (cases f) auto
  obtain r rb1 where rd: "rb_read rb 1 = (r, rb1)" by fastforce
  then obtain t where t: "r = Some t" using assms(2) by (auto simp: rb_read_def)
  then have "left rb1 < left rb" using rb_read_left [of rb 1 t rb1] rd by simp
  moreover have "rb_le rb1 rb'"
    using assms(1) f rd t by (auto intro: unpack_forward(2))
  ultimately show ?thesis using rb_le_left by fastforce
qed

lemma unpack_loop_total:
  "left rb < f \<Longrightarrow> left rb < n \<Longrightarrow> unpack_loop f n rb \<noteq> Inl OutOfFuel"
proof (induction n arbitrary: rb)
  case 0
  then show ?case by simp
next
  case (Suc n)
  have one: "unpack_one f rb \<noteq> Inl OutOfFuel" using Suc.prems by (intro unpack_fuel_enough)
  have rest: "unpack_loop f n rb1 \<noteq> Inl OutOfFuel"
    if s: "unpack_one f rb = Inr (v, rb1)" "rptr rb < length (rbuf rb)" for v rb1
    using unpack_one_progress [OF s] Suc.prems by (intro Suc.IH) auto
  show ?case using one rest by (auto split: sum.splits)
qed

section \<open>When packing succeeds\<close>

text \<open>At most \<open>n\<close> tables nested in each other, and no value of a rejected type.\<close>

fun nests_within :: "nat \<Rightarrow> lua_value \<Rightarrow> bool" where
  "nests_within n (LOther ty) = False"
| "nests_within 0 (LTable es) = False"
| "nests_within (Suc n) (LTable es) = list_all (\<lambda>p. nests_within n (fst p) \<and> nests_within n (snd p)) es"
| "nests_within n v = True"

lemma nests_within_LTable:
  "nests_within n (LTable es) \<longleftrightarrow>
     (\<exists>m. n = Suc m \<and> (\<forall>p \<in> set es. nests_within m (fst p) \<and> nests_within m (snd p)))"
  by (cases n) (auto simp: list_all_iff)

text \<open>Tables nested \<open>n\<close> deep, each the only element of the next.\<close>

fun nested :: "nat \<Rightarrow> lua_value" where
  "nested 0 = LNil"
| "nested (Suc n) = LTable (lua_rawseti [] 1 (nested n))"

lemma nests_within_nested: "nests_within m (nested n) \<longleftrightarrow> n \<le> m"
proof (induction n arbitrary: m)
  case (Suc n)
  then show ?case
    by (cases m; cases n) (simp_all add: lua_rawseti_def)
qed simp

lemma unpack_nested:
  assumes "rb_at rb (replicate n 14)"
  shows "fuel \<le> n \<Longrightarrow> unpack_one fuel rb = Inl OutOfFuel"
    and "n < fuel \<Longrightarrow> unpack_one fuel rb = Inr (nested n, advance rb n)"
  using assms
proof (induction n arbitrary: fuel rb)
  case 0
  { case 1 then show ?case by simp }
  { case 2 then show ?case by (cases fuel) (auto simp: rb_read_def rb_at_def advance_def) }
next
  case (Suc n)
  { case 1
    then have r: "rb_read rb 1 = (Some [14], advance rb 1)" "rb_at (advance rb 1) (replicate n 14)"
      using rb_read_Cons [of rb 14] rb_at_Cons [of rb 14] by (simp_all only: replicate.simps)
    from 1 Suc.IH(1) [OF _ r(2)] show ?case
      by (cases fuel) (simp_all add: r [unfolded One_nat_def] rb_array_size_def) }
  { case 2
    then have r: "rb_read rb 1 = (Some [14], advance rb 1)" "rb_at (advance rb 1) (replicate n 14)"
      using rb_read_Cons [of rb 14] rb_at_Cons [of rb 14] by (simp_all only: replicate.simps)
    obtain f where f: "fuel = Suc (Suc f)" "n \<le> f" using 2 by (cases fuel; cases "fuel - 1") auto
    have e: "rb_read (advance rb (Suc n)) 1 = (None, advance rb (Suc n))"
      using rb_at_length [OF r(2)] by (simp add: rb_read_def advance_def)
    from f Suc.IH(2) [OF _ r(2), of "Suc f"] show ?case
      by (simp add: r [unfolded One_nat_def] e [unfolded One_nat_def] rb_array_size_def) }
qed

lemma in_array_part_atom: "in_array_part n k \<Longrightarrow> nests_within m k"
  by (cases k) auto

lemma rawgeti_of_mem:
  assumes "distinct (filter (\<lambda>k. \<not> is_table k) (map fst es))" "(LInt w, v) \<in> set es"
  shows "rawgeti es (sint w) = v"
proof -
  have "map_of es (LInt w) = Some v"
    using assms
  proof (induction es)
    case (Cons p es)
    obtain k' v' where p: "p = (k', v')" by fastforce
    show ?case
    proof (cases "k' = LInt w")
      case True
      with Cons.prems(1) p have "LInt w \<notin> fst ` set es" by auto
      with Cons.prems(2) p have "v' = v" by force
      with p True show ?thesis by simp
    next
      case False
      with Cons p show ?thesis by (auto split: if_splits)
    qed
  qed simp
  then show ?thesis by (simp add: rawgeti_def)
qed

lemma table_nests:
  assumes "wf_value rl (LTable es)"
  shows "(\<forall>p \<in> set es. nests_within m (fst p) \<and> nests_within m (snd p)) \<longleftrightarrow>
    (\<forall>j. 1 \<le> j \<and> j < 1 + int (rl es) \<longrightarrow> nests_within m (rawgeti es j)) \<and>
    (\<forall>p \<in> set es. \<not> in_array_part (int (rl es)) (fst p) \<longrightarrow>
       nests_within m (fst p) \<and> nests_within m (snd p))"
    (is "?all \<longleftrightarrow> ?arr \<and> ?hash")
proof
  assume ?all
  then show "?arr \<and> ?hash"
    by (auto simp: rawgeti_def dest!: map_of_SomeD split: option.splits)
next
  assume h: "?arr \<and> ?hash"
  show ?all
  proof
    fix p assume p: "p \<in> set es"
    show "nests_within m (fst p) \<and> nests_within m (snd p)"
    proof (cases "in_array_part (int (rl es)) (fst p)")
      case True
      then obtain w where w: "fst p = LInt w" "0 < sint w" "sint w \<le> int (rl es)"
        by (cases "fst p") auto
      then have "(LInt w, snd p) \<in> set es" using p by (metis prod.collapse)
      then have "rawgeti es (sint w) = snd p"
        using assms by (intro rawgeti_of_mem) simp_all
      with h w have "nests_within m (snd p)"
        by (metis zless_imp_add1_zle add_0 add.commute zle_add1_eq_le)
      with w show ?thesis by simp
    next
      case False
      with h p show ?thesis by blast
    qed
  qed
qed

lemma pack_succeeds:
  shows "wf_value rl v \<Longrightarrow> d \<le> 31 \<Longrightarrow>
      (\<exists>wb'. pack_one rl wb v d = Inr wb') \<longleftrightarrow> nests_within (31 - d) v"
    and "wf_value rl (LTable es) \<Longrightarrow>
      (\<exists>wb'. wb_table rl wb es d = Inr wb') \<longleftrightarrow>
      d \<le> 31 \<and> (\<forall>p \<in> set es. nests_within (31 - d) (fst p) \<and> nests_within (31 - d) (snd p))"
    and "\<forall>p \<in> set es. wf_value rl (fst p) \<and> wf_value rl (snd p) \<Longrightarrow> d \<le> 31 \<Longrightarrow>
      (\<exists>wb'. wb_table_array rl wb es d i k = Inr wb') \<longleftrightarrow>
      (\<forall>j. i \<le> j \<and> j < i + int k \<longrightarrow> nests_within (31 - d) (rawgeti es j))"
    and "\<forall>p \<in> set es. wf_value rl (fst p) \<and> wf_value rl (snd p) \<Longrightarrow> d \<le> 31 \<Longrightarrow>
      (\<exists>wb'. wb_table_hash rl wb es d n = Inr wb') \<longleftrightarrow>
      (\<forall>p \<in> set es. \<not> in_array_part n (fst p) \<longrightarrow>
         nests_within (31 - d) (fst p) \<and> nests_within (31 - d) (snd p))"
proof (induction rl wb v d and rl wb es d and rl wb es d i k and rl wb es d n
    rule: pack_one_wb_table_wb_table_array_wb_table_hash.induct)
  case (7 rl wb es d)
  have "31 - d = Suc m \<longleftrightarrow> d + 1 \<le> 31 \<and> m = 31 - (d + 1)" for m by auto
  with 7 show ?case by (auto simp: nests_within_LTable)
next
  case (9 rl wb es d)
  let ?n = "rl es"
  from 9 have n: "table_array_size rl es = int ?n" by (simp add: table_array_size_eq)
  from 9 have es: "\<forall>p \<in> set es. wf_value rl (fst p) \<and> wf_value rl (snd p)" by auto
  show ?case
  proof (cases "d \<le> 31")
    case False
    then show ?thesis by simp
  next
    case True
    then have d: "\<not> MAX_DEPTH \<le> d" by simp
    have a: "(\<exists>wb1. wb_table_array rl (wb_table_header wb (int ?n)) es d 1 ?n = Inr wb1) \<longleftrightarrow>
        (\<forall>j. 1 \<le> j \<and> j < 1 + int ?n \<longrightarrow> nests_within (31 - d) (rawgeti es j))"
      using "9.IH"(1) [OF d n [symmetric] es True] by simp
    have h: "(\<exists>wb'. wb_table_hash rl wb1 es d (int ?n) = Inr wb') \<longleftrightarrow>
        (\<forall>p \<in> set es. \<not> in_array_part (int ?n) (fst p) \<longrightarrow>
           nests_within (31 - d) (fst p) \<and> nests_within (31 - d) (snd p))"
      if "wb_table_array rl (wb_table_header wb (int ?n)) es d 1 ?n = Inr wb1" for wb1
      using "9.IH"(2) [OF d n [symmetric] _ es True] that by simp
    have "(\<exists>wb'. wb_table rl wb es d = Inr wb') \<longleftrightarrow>
        (\<exists>wb1. wb_table_array rl (wb_table_header wb (int ?n)) es d 1 ?n = Inr wb1 \<and>
               (\<exists>wb'. wb_table_hash rl wb1 es d (int ?n) = Inr wb'))"
      using d n by (auto simp: Let_def split: sum.splits)
    also have "\<dots> \<longleftrightarrow> (\<forall>p \<in> set es. nests_within (31 - d) (fst p) \<and> nests_within (31 - d) (snd p))"
      unfolding table_nests [OF "9.prems"] using a h by blast
    finally show ?thesis using True by simp
  qed
next
  case (11 rl wb es d i k)
  have wf: "wf_value rl (rawgeti es i)"
    using "11.prems"(1) by (intro wf_rawgeti) auto
  have one: "(\<exists>wb1. pack_one rl wb (rawgeti es i) d = Inr wb1) \<longleftrightarrow> nests_within (31 - d) (rawgeti es i)"
    by (rule "11.IH"(1) [OF wf "11.prems"(2)])
  have "(\<forall>j. i \<le> j \<and> j < i + int (Suc k) \<longrightarrow> nests_within (31 - d) (rawgeti es j)) \<longleftrightarrow>
      nests_within (31 - d) (rawgeti es i) \<and>
      (\<forall>j. i + 1 \<le> j \<and> j < i + 1 + int k \<longrightarrow> nests_within (31 - d) (rawgeti es j))"
  proof -
    have eq: "(i \<le> j \<and> j < i + int (Suc k)) = (j = i \<or> i + 1 \<le> j \<and> j < i + 1 + int k)" for j
      by linarith
    show ?thesis unfolding eq by blast
  qed
  moreover have "(\<exists>wb'. wb_table_array rl wb es d i (Suc k) = Inr wb') \<longleftrightarrow>
      (\<exists>wb1. pack_one rl wb (rawgeti es i) d = Inr wb1 \<and>
             (\<exists>wb'. wb_table_array rl wb1 es d (i + 1) k = Inr wb'))"
    by (auto split: sum.splits)
  ultimately show ?case using one "11.IH"(2) [OF _ "11.prems"] by blast
next
  case (13 rl wb key val es d n)
  show ?case
  proof (cases "in_array_part n key")
    case True
    with 13 show ?thesis by simp
  next
    case False
    define rest_ok where "rest_ok \<longleftrightarrow> (\<forall>p \<in> set es. \<not> in_array_part n (fst p) \<longrightarrow>
        nests_within (31 - d) (fst p) \<and> nests_within (31 - d) (snd p))"
    have k: "(\<exists>wb1. pack_one rl wb key d = Inr wb1) \<longleftrightarrow> nests_within (31 - d) key"
      using "13.IH"(2) [OF False] "13.prems" by simp
    have v: "(\<exists>wb2. pack_one rl wb1 val d = Inr wb2) \<longleftrightarrow> nests_within (31 - d) val"
      if "pack_one rl wb key d = Inr wb1" for wb1
      using "13.IH"(3) [OF False that] "13.prems" by simp
    have r: "(\<exists>wb'. wb_table_hash rl wb2 es d n = Inr wb') \<longleftrightarrow> rest_ok"
      if "pack_one rl wb key d = Inr wb1" "pack_one rl wb1 val d = Inr wb2" for wb1 wb2
      using "13.IH"(4) [OF False that] "13.prems" by (simp add: rest_ok_def)
    have "(\<exists>wb'. wb_table_hash rl wb ((key, val) # es) d n = Inr wb') \<longleftrightarrow>
        nests_within (31 - d) key \<and> nests_within (31 - d) val \<and> rest_ok"
    proof (cases "pack_one rl wb key d")
      case (Inl e)
      with False k show ?thesis by simp
    next
      case (Inr wb1)
      show ?thesis
      proof (cases "pack_one rl wb1 val d")
        case (Inl e)
        with False v [OF \<open>pack_one rl wb key d = Inr wb1\<close>] Inr show ?thesis by simp
      next
        case vr: (Inr wb2)
        with False k v [OF Inr] r [OF Inr vr] Inr show ?thesis by simp
      qed
    qed
    with False show ?thesis by (simp add: rest_ok_def)
  qed
next
  case (10 rl wb es d i)
  then show ?case by auto
qed simp_all

lemma pack_all_succeeds:
  "list_all (wf_value rl) vs \<Longrightarrow>
   (\<exists>wb'. pack_all rl wb vs = Inr wb') \<longleftrightarrow> list_all (nests_within 31) vs"
proof (induction vs arbitrary: wb)
  case Nil
  then show ?case by simp
next
  case (Cons v vs)
  have "(\<exists>wb'. pack_all rl wb (v # vs) = Inr wb') \<longleftrightarrow>
      (\<exists>wb1. pack_one rl wb v 0 = Inr wb1 \<and> (\<exists>wb'. pack_all rl wb1 vs = Inr wb'))"
    by (auto split: sum.splits)
  with Cons pack_succeeds(1) [of rl v 0 wb] show ?case by auto
qed

lemma unpack_packed:
  assumes "luaseri_pack rawlen malloc_ok vs = Inr buf" and "list_all (wf_value rawlen) vs"
  shows "luaseri_unpack buf = Inr (map (canon rawlen) vs) \<and>
    list_all2 lua_equiv vs (map (canon rawlen) vs)"
proof -
  from assms(1) obtain wb where wb: "pack_all rawlen wb_init vs = Inr wb" "seri malloc_ok wb = Inr buf"
    by (auto simp: luaseri_pack_def split: sum.splits)
  from pack_all_decodes [OF wb(1) _ assms(2)] obtain bss where
    b: "wb_inv wb" "wb_content wb = concat bss" "list_all2 decodes bss (map (canon rawlen) vs)"
    by auto
  have "buf = concat bss"
    using wb(2) b(1,2) seri_content [of wb malloc_ok]
    by (auto simp: seri_def wb_inv_def Let_def split: if_splits)
  then have "luaseri_unpack buf = Inr (map (canon rawlen) vs)"
    unfolding luaseri_unpack_def
    by (intro unpack_loop_decodes [OF b(3)]) (simp_all add: rb_at_init)
  moreover have "list_all2 lua_equiv vs (map (canon rawlen) vs)"
    using assms(2) by (auto simp: list_all2_map2 list_all_iff intro!: list.rel_refl_strong canon_equiv)
  ultimately show ?thesis ..
qed

section \<open>Properties\<close>

text \<open>
  C6.  Message round trip: if packing a sequence of well-formed Lua values succeeds, unpacking the
  buffer gives back the same number of values, each equal to the packed one up to the order in
  which the entries of a table are traversed (the array part comes first).  The border reported
  by \<open>lua_rawlen\<close> is arbitrary.
\<close>

theorem seri_roundtrip:
  assumes "luaseri_pack rawlen malloc_ok vs = Inr buf" and "list_all (wf_value rawlen) vs"
  shows "luaseri_unpack buf = Inr (map (canon rawlen) vs) \<and>
    list_all2 lua_equiv vs (map (canon rawlen) vs)"
  using assms by (rule unpack_packed)

theorem seri_roundtrip_witness:
  "luaseri_unpack [10, 7, 14, 9, 12, 97, 10, 5, 0] =
     Inr (map (canon (\<lambda>es. 1)) [LInt 7, LTable [(LStr [97], LInt 5), (LInt 1, LBool True)]]) \<and>
   list_all2 lua_equiv [LInt 7, LTable [(LStr [97], LInt 5), (LInt 1, LBool True)]]
     (map (canon (\<lambda>es. 1)) [LInt 7, LTable [(LStr [97], LInt 5), (LInt 1, LBool True)]])"
proof (rule seri_roundtrip)
  show "luaseri_pack (\<lambda>es. 1) (\<lambda>n. True) [LInt 7, LTable [(LStr [97], LInt 5), (LInt 1, LBool True)]] =
      Inr [10, 7, 14, 9, 12, 97, 10, 5, 0]"
    by code_simp
qed simp

text \<open>
  C15.  How deep unpacking recurses: on any bytes the recursion ends, at a depth of at most one more than their
  number, so that with enough Lua and C stack \<open>unpack\<close> returns, with values or an error.  This depth is reached
  and there is no other limit: \<open>n\<close> bytes \<open>0x0E\<close>, each a table with one array element, make \<open>unpack_one\<close> call itself
  to the depth \<open>n + 1\<close> (it gets by with \<open>fuel\<close> nested calls only if they are more than \<open>n\<close>), and give
  a value of \<open>n\<close> nested tables, which for more than 31 is none the packer accepts.
\<close>

theorem unpack_recursion_depth:
  "luaseri_unpack buf \<noteq> Inl OutOfFuel \<and>
   (unpack_one fuel (rb_init (replicate n 14)) = Inl OutOfFuel \<longleftrightarrow> fuel \<le> n) \<and>
   (\<exists>v. luaseri_unpack (replicate (Suc n) 14) = Inr [v] \<and> (nests_within m v \<longleftrightarrow> Suc n \<le> m))"
proof (intro conjI)
  show "luaseri_unpack buf \<noteq> Inl OutOfFuel"
    unfolding luaseri_unpack_def by (rule unpack_loop_total) (simp_all add: left_def rb_init_def)
  show "unpack_one fuel (rb_init (replicate n 14)) = Inl OutOfFuel \<longleftrightarrow> fuel \<le> n"
    using unpack_nested [OF rb_at_init] by (cases "fuel \<le> n") simp_all
  have "luaseri_unpack (replicate (Suc n) 14) = Inr [nested (Suc n)]"
    using unpack_nested(2) [OF rb_at_init [of "replicate (Suc n) 14"], of "n + 2"]
    by (simp add: luaseri_unpack_def advance_def rb_init_def)
  then show "\<exists>v. luaseri_unpack (replicate (Suc n) 14) = Inr [v] \<and> (nests_within m v \<longleftrightarrow> Suc n \<le> m)"
    using nests_within_nested by blast
qed

text \<open>
  C16.  Exactly which messages can be packed: with memory and Lua stack available, packing well-formed values
  succeeds if and only if no value nests more than 31 tables and none has a rejected type.  So 32 nested tables
  are one too many, although the documents of the design speak of 32 levels.
\<close>

theorem seri_pack_succeeds_iff:
  assumes "list_all (wf_value rawlen) vs"
  shows "(\<exists>buf. luaseri_pack rawlen (\<lambda>n. True) vs = Inr buf) = list_all (nests_within 31) vs"
  using pack_all_succeeds [OF assms, of wb_init]
  by (auto simp: luaseri_pack_def seri_def Let_def split: sum.splits)

theorem seri_pack_succeeds_iff_witness:
  "(\<exists>buf. luaseri_pack (\<lambda>es. 0) (\<lambda>n. True) [LTable [(LBool True, LTable [])], LOther ''function''] = Inr buf) =
    list_all (nests_within 31) [LTable [(LBool True, LTable [])], LOther ''function''] \<and>
   \<not> list_all (nests_within 31) [LTable [(LBool True, LTable [])], LOther ''function'']"
  by (rule conjI, rule seri_pack_succeeds_iff) simp_all

text \<open>
  C21.  The linked list of 128-byte blocks is a flat byte string: after any sequence of writes,
  \<open>seri\<close> copies out exactly the bytes written, in order.
\<close>

theorem write_buffer_flat:
  "seri (\<lambda>n. True) (foldl push wb_init chunks) = Inr (concat chunks)"
  using ws.put_list [of wb_init chunks] by (simp add: seri_content)

text \<open>
  Integer encoding: every 64-bit Lua integer occupies at most nine bytes and is read back
  exactly, wherever it stands in the buffer.
\<close>

theorem seri_integer_exact:
  assumes "wb_inv wb" and "rb_at rb (int_bytes v @ rest)"
  shows "wb_content (wb_integer wb v) = wb_content wb @ int_bytes v \<and> length (int_bytes v) \<le> 9 \<and>
    unpack_one 9 rb = Inr (LInt v, advance rb (length (int_bytes v)))"
  using wb_integer_content [OF assms(1)] length_int_bytes [of v]
    decodesD [OF decodes_int _ assms(2), of 9] by simp

theorem seri_integer_exact_witness:
  "wb_content (wb_integer wb_init 300) = wb_content wb_init @ int_bytes 300 \<and>
    length (int_bytes 300) \<le> 9 \<and>
    unpack_one 9 (rb_init (int_bytes 300 @ [7])) =
      Inr (LInt 300, advance (rb_init (int_bytes 300 @ [7])) (length (int_bytes 300)))"
  by (rule seri_integer_exact [where rest = "[7]"]) (simp_all add: rb_at_init)

end
