(* ===== verification/Lua_Seri_Types.thy ===== *)
theory Lua_Seri_Types
  imports Lua_Seri_Roundtrip
begin

text \<open>
  Type soundness of the unpacker: whatever bytes arrive, every value it builds is one a Lua state can
  hold.
\<close>

section \<open>Well-typed values\<close>

text \<open>
  No function, thread or full userdata occurs; strings are below 4 GiB; the keys of a table are neither
  \<open>nil\<close> nor NaN nor integral floats and occur once (tables are compared by identity); no value in it is \<open>nil\<close>.
\<close>

inductive well_typed :: "lua_value \<Rightarrow> bool" where
  wt_nil: "well_typed LNil"
| wt_bool: "well_typed (LBool b)"
| wt_int: "well_typed (LInt i)"
| wt_num: "well_typed (LNum f)"
| wt_light: "well_typed (LLight p)"
| wt_str: "length s < 2 ^ 32 \<Longrightarrow> well_typed (LStr s)"
| wt_table:
    "distinct (filter (\<lambda>k. \<not> is_table k) (map fst es)) \<Longrightarrow>
     (\<And>k v. (k, v) \<in> set es \<Longrightarrow> key_ok k \<and> v \<noteq> LNil \<and> well_typed k \<and> well_typed v) \<Longrightarrow>
     well_typed (LTable es)"

inductive_cases well_typed_strE: "well_typed (LStr s)"
inductive_cases well_typed_tableE: "well_typed (LTable es)"
inductive_simps well_typed_other [simp]: "well_typed (LOther ty)"

lemmas well_typed_atoms [simp, intro] = wt_nil wt_bool wt_int wt_num wt_light

section \<open>Building a table\<close>

definition entries_ok :: "entries \<Rightarrow> bool" where
  "entries_ok es \<longleftrightarrow> distinct (filter (\<lambda>k. \<not> is_table k) (map fst es)) \<and>
     (\<forall>(k, v) \<in> set es. key_ok k \<and> v \<noteq> LNil \<and> well_typed k \<and> well_typed v)"

lemma entries_ok_Nil [simp]: "entries_ok []"
  by (simp add: entries_ok_def)

lemma entries_ok_Cons [simp]:
  "entries_ok ((k, v) # es) \<longleftrightarrow>
     (is_table k \<or> k \<notin> fst ` set es) \<and> key_ok k \<and> v \<noteq> LNil \<and> well_typed k \<and> well_typed v \<and> entries_ok es"
  by (auto simp: entries_ok_def)

lemma well_typed_table: "entries_ok es \<Longrightarrow> well_typed (LTable es)"
  by (rule wt_table) (auto simp: entries_ok_def)

lemma set_entry_keys: "p \<in> set (set_entry es k v) \<Longrightarrow> fst p = k \<or> fst p \<in> fst ` set es"
  by (induction es k v rule: set_entry.induct) (auto split: if_splits)

lemma set_entry_ok:
  assumes "entries_ok es" and "key_ok k" and "well_typed k" and "well_typed v"
  shows "entries_ok (set_entry es k v)"
  using assms(1)
proof (induction es)
  case (Cons e es)
  obtain k' v' where e: "e = (k', v')" by fastforce
  have "is_table k' \<or> k' \<notin> fst ` set (set_entry es k v)" if "\<not> same_key k k'"
    using that Cons.prems e set_entry_keys [of _ es k v] by (force simp: same_key_def)
  with Cons assms(4) e show ?case by auto
qed (use assms in simp)

lemma lua_rawset_ok:
  assumes "lua_rawset es k v = Inr es'" and "entries_ok es" and "well_typed k" and "well_typed v"
  shows "entries_ok es'"
proof (cases "key_ok k")
  case True
  with assms show ?thesis by (auto simp: lua_rawset_key_ok intro: set_entry_ok)
next
  case False
  then consider "k = LNil" | f where "k = LNum f" by (cases k) auto
  then show ?thesis
    using assms False by cases (auto intro!: set_entry_ok split: if_splits option.splits)
qed

lemma lua_rawseti_ok: "entries_ok es \<Longrightarrow> well_typed v \<Longrightarrow> entries_ok (lua_rawseti es i v)"
  by (simp add: lua_rawseti_def set_entry_ok)

section \<open>The unpacker\<close>

lemma rb_string_typed: "rb_string rb n = (v, rb') \<Longrightarrow> n < 2 ^ 32 \<Longrightarrow> well_typed v"
  by (auto simp: rb_string_def rb_read_def intro!: wt_str split: if_splits)

lemma rb_string_length_bound: "rb_string_length rb ck = (n, rb') \<Longrightarrow> n < 2 ^ 32"
proof -
  have "unat (w :: 16 word) < 2 ^ 32" for w using unsigned_less [of w, where ?'a = nat] by simp
  moreover have "unat (w :: 32 word) < 2 ^ 32" for w using unsigned_less [of w, where ?'a = nat] by simp
  ultimately show "rb_string_length rb ck = (n, rb') \<Longrightarrow> n < 2 ^ 32"
    by (auto simp: rb_string_length_def split: if_splits prod.splits option.splits)
qed

lemma cookie_bound: "unat (drop_bit 3 (b :: 8 word)) < 32"
proof -
  have "unat (drop_bit 3 b) = unat b div 8" by (simp add: drop_bit_eq_div unat_div_distrib)
  moreover have "unat b < 32 * 8" using unat_byte_less [of b] by simp
  ultimately show ?thesis using less_mult_imp_div_less by metis
qed

lemma unpack_typed:
  shows "unpack_one f rb = Inr (v, rb') \<Longrightarrow> well_typed v"
    and "unpack_value f ty ck rb = Inr (v, rb') \<Longrightarrow> ck < 32 \<Longrightarrow> well_typed v"
    and "rb_table_array f rb es i k = Inr (es', rb') \<Longrightarrow> entries_ok es \<Longrightarrow> entries_ok es'"
    and "rb_table_hash f rb es = Inr (es', rb') \<Longrightarrow> entries_ok es \<Longrightarrow> entries_ok es'"
proof (induction f rb and f ty ck rb and f rb es i k and f rb es
    arbitrary: v rb' and v rb' and es' rb' and es' rb'
    rule: unpack_one_unpack_value_rb_table_array_rb_table_hash.induct)
  case (2 f rb)
  then show ?case using cookie_bound by (auto split: prod.splits option.splits)
next
  case (3 f ty ck rb)
  show ?case
  proof (cases "ty = TYPE_TABLE")
    case True
    with "3.prems"(1) obtain n rb1 es rb2 es' where
      s: "rb_array_size rb ck = (n, rb1)" "rb_table_array f rb1 [] 1 (nat n) = Inr (es, rb2)"
        "rb_table_hash f rb2 es = Inr (es', rb')" "v = LTable es'"
      by (auto split: prod.splits sum.splits)
    have "entries_ok es"
      by (rule "3.IH"(1) [OF _ _ _ _ _ _ True refl s(1) [symmetric] s(2)]) (use True in simp_all)
    then have "entries_ok es'"
      by (rule "3.IH"(2) [OF _ _ _ _ _ _ True refl s(1) [symmetric] s(2) refl s(3), rotated -1])
         (use True in simp_all)
    then show ?thesis using s(4) by (simp add: well_typed_table)
  next
    case False
    with "3.prems" show ?thesis
      by (auto dest: rb_string_typed rb_string_length_bound split: if_splits prod.splits)
  qed
next
  case (5 f rb es i k)
  then show ?case by (auto simp: lua_rawseti_ok split: sum.splits prod.splits)
next
  case (7 f rb es)
  obtain r rb1 where rd: "rb_read rb 1 = (r, rb1)" by fastforce
  show ?case
  proof (cases "\<exists>t. r = Some t \<and> unat (hd t AND 7) \<noteq> TYPE_NIL")
    case False
    with "7.prems" rd show ?thesis by (auto split: option.splits)
  next
    case True
    then obtain t where t: "r = Some t" "unat (hd t AND 7) \<noteq> TYPE_NIL" by blast
    then have pr: "(Some t, rb1) = rb_read rb 1" using rd by simp
    from "7.prems" rd t obtain key rb2 val rb3 es1 where
      s: "unpack_value f (unat (hd t AND 7)) (unat (drop_bit 3 (hd t))) rb1 = Inr (key, rb2)"
        "unpack_one f rb2 = Inr (val, rb3)" "lua_rawset es key val = Inr es1"
        "rb_table_hash f rb3 es1 = Inr (es', rb')"
      by (auto split: sum.splits prod.splits)
    have "well_typed key" by (rule "7.IH"(1) [OF pr refl t(2) s(1) cookie_bound])
    moreover have "well_typed val" by (rule "7.IH"(2) [OF pr refl t(2) s(1) refl s(2)])
    ultimately have "entries_ok es1" using lua_rawset_ok [OF s(3) "7.prems"(2)] by simp
    then show ?thesis by (rule "7.IH"(3) [OF pr refl t(2) s(1) refl s(2) refl s(3,4)])
  qed
qed simp_all

lemma unpack_loop_typed: "unpack_loop fuel n rb = Inr vs \<Longrightarrow> list_all well_typed vs"
  by (induction fuel n rb arbitrary: vs rule: unpack_loop.induct)
    (auto dest: unpack_typed(1) split: if_splits sum.splits prod.splits)

section \<open>Properties\<close>

text \<open>
  C12.  Type soundness: unpacking untrusted bytes gives well-typed values only, at every depth: tables
  whose keys Lua accepts and that hold each key once and no \<open>nil\<close>, and no value of a type that cannot be sent.
\<close>

theorem unpacked_values_well_typed:
  assumes "luaseri_unpack buf = Inr vs"
  shows "list_all well_typed vs"
  using assms unfolding luaseri_unpack_def by (rule unpack_loop_typed)

theorem unpacked_values_well_typed_witness:
  "well_typed (LTable [(LInt 1, LBool True), (LStr [97], LInt 5)])"
proof -
  have "luaseri_unpack [14, 9, 12, 97, 10, 5, 0] = Inr [LTable [(LInt 1, LBool True), (LStr [97], LInt 5)]]"
    by code_simp
  from unpacked_values_well_typed [OF this] show ?thesis by simp
qed

end
