(* ===== verification/Netpack.thy ===== *)
theory Netpack
  imports Skynet_Prelude
begin

text \<open>
  The Lua module \<open>netpack\<close> (\<open>src/lua_netpack.cpp\<close>): two-byte big-endian length framing over
  a TCP byte stream.  \<open>lpack\<close> and \<open>lunpack\<close> handle one frame, \<open>lfilter\<close> is the stream
  decoder that appends newly received bytes to the unconsumed remainder and splits off every
  complete frame.  Lua strings are byte lists; \<open>luaL_error\<close> is the left summand.
\<close>

section \<open>Operations\<close>

datatype netpack_error = DataTooLarge nat | InvalidType

text \<open>\<open>netpack.pack(data)\<close>.\<close>

definition lpack :: "bytes \<Rightarrow> netpack_error + bytes" where
  "lpack data =
     (if length data > 0xFFFF then Inl (DataTooLarge (length data))
      else Inr (hi_byte (length data) # lo_byte (length data) # data))"

text \<open>
  \<open>netpack.unpack(buffer [, offset])\<close>.  The offset is a Lua integer, truncated to a C \<open>int\<close>;
  the result is \<open>None\<close> for \<open>nil\<close> or the one-based offset after the frame and the payload.
\<close>

definition lunpack :: "bytes \<Rightarrow> u64 option \<Rightarrow> (int \<times> bytes) option" where
  "lunpack buf arg =
     (let offset = sint (ucast (case arg of None \<Rightarrow> 1 | Some v \<Rightarrow> v) :: 32 word) - 1
      in if offset < 0 \<or> nat offset \<ge> length buf then None
         else
           (let off = nat offset; remaining = length buf - off
            in if remaining < 2 then None
               else
                 (let payload_len = be_header (buf ! off) (buf ! (off + 1))
                  in if remaining < 2 + payload_len then None
                     else Some (offset + 2 + int payload_len + 1,
                                take payload_len (drop (off + 2) buf)))))"

text \<open>The \<open>while\<close> loop of \<open>lfilter\<close>: the messages found from \<open>pos\<close> on, and the final \<open>pos\<close>.\<close>

function lfilter_loop :: "bytes \<Rightarrow> nat \<Rightarrow> bytes list \<times> nat" where
  "lfilter_loop combined pos =
     (if pos + 2 \<le> length combined then
        (let payload_len = be_header (combined ! pos) (combined ! (pos + 1))
         in if pos + 2 + payload_len > length combined then ([], pos)
            else
              (let (msgs, pos') = lfilter_loop combined (pos + 2 + payload_len)
               in (take payload_len (drop (pos + 2) combined) # msgs, pos')))
      else ([], pos))"
  by pat_completeness auto
termination
  by (relation "measure (\<lambda>(combined, pos). length combined - pos)") auto

declare lfilter_loop.simps [simp del]

text \<open>\<open>netpack.filter(buffer, new_data)\<close>.\<close>

definition lfilter :: "bytes \<Rightarrow> bytes \<Rightarrow> bytes list \<times> bytes" where
  "lfilter buf new_data =
     (let combined = buf @ new_data;
          (msgs, pos) = lfilter_loop combined 0
      in (msgs, if pos < length combined then drop pos combined else []))"

text \<open>
  \<open>netpack.tostring(msg, sz)\<close>: a string is returned as it is, a light userdata is read from
  memory (\<open>mem p n\<close> are the \<open>n\<close> bytes at address \<open>p\<close>), anything else is an error.
\<close>

datatype tostring_arg = TsString bytes | TsLightUserdata u64 u64 | TsOther

fun ltostring :: "(u64 \<Rightarrow> nat \<Rightarrow> bytes) \<Rightarrow> tostring_arg \<Rightarrow> netpack_error + bytes" where
  "ltostring mem (TsString s) = Inr s"
| "ltostring mem (TsLightUserdata p sz) = Inr (mem p (unat sz))"
| "ltostring mem TsOther = Inl InvalidType"

text \<open>
  A receiver that keeps the remainder between calls, as the gate and cluster services do:
  one \<open>lfilter\<close> call per chunk read from the socket.
\<close>

fun feed :: "bytes \<Rightarrow> bytes list \<Rightarrow> bytes list \<times> bytes" where
  "feed buf [] = ([], buf)"
| "feed buf (chunk # chunks) =
     (let (msgs, buf') = lfilter buf chunk; (msgs', buf'') = feed buf' chunks
      in (msgs @ msgs', buf''))"

section \<open>The abstract codec\<close>

definition frame_ok :: "bytes \<Rightarrow> bool" where
  "frame_ok data \<longleftrightarrow> length data \<le> 0xFFFF"

definition frame :: "bytes \<Rightarrow> bytes" where
  "frame data = hi_byte (length data) # lo_byte (length data) # data"

fun unframe :: "bytes \<Rightarrow> (bytes \<times> bytes) option" where
  "unframe (b0 # b1 # bs) =
     (let n = be_header b0 b1 in if n \<le> length bs then Some (take n bs, drop n bs) else None)"
| "unframe _ = None"

lemma lpack_frame: "frame_ok data \<Longrightarrow> lpack data = Inr (frame data)"
  by (simp add: lpack_def frame_def frame_ok_def)

lemma unframe_Some_iff:
  "unframe bs = Some (x, rest) \<longleftrightarrow>
     (\<exists>b0 b1. bs = b0 # b1 # x @ rest \<and> length x = be_header b0 b1)"
proof (cases bs rule: unframe.cases)
  case (1 b0 b1 tl)
  have "(be_header b0 b1 \<le> length tl \<and> x = take (be_header b0 b1) tl
          \<and> rest = drop (be_header b0 b1) tl) \<longleftrightarrow>
        (tl = x @ rest \<and> length x = be_header b0 b1)"
    by auto
  with 1 show ?thesis by (auto simp: Let_def)
qed auto

interpretation np: frame_codec frame_ok frame unframe
proof (unfold_locales, goal_cases)
  case (1 x rest)
  then show ?case by (simp add: frame_ok_def frame_def be_header_hi_lo Let_def)
next
  case (2 bs x rest)
  then show ?case by (auto simp: unframe_Some_iff)
next
  case (3 bs x rest more)
  then show ?case by (auto simp: unframe_Some_iff)
next
  case 4
  then show ?case by simp
qed

section \<open>The loop refines the codec\<close>

lemma unframe_drop:
  assumes "pos + 2 \<le> length bs"
  shows "unframe (drop pos bs) =
    (let n = be_header (bs ! pos) (bs ! (pos + 1))
     in if pos + 2 + n > length bs then None
        else Some (take n (drop (pos + 2) bs), drop (pos + 2 + n) bs))"
proof -
  have "drop pos bs = bs ! pos # bs ! (pos + 1) # drop (pos + 2) bs"
    using assms Cons_nth_drop_Suc [of pos bs] Cons_nth_drop_Suc [of "pos + 1" bs] by simp
  then have "unframe (drop pos bs) =
      (let n = be_header (bs ! pos) (bs ! (pos + 1))
       in if n \<le> length (drop (pos + 2) bs)
          then Some (take n (drop (pos + 2) bs), drop n (drop (pos + 2) bs)) else None)"
    by (simp only: unframe.simps(1))
  moreover have "n \<le> length (drop (pos + 2) bs) \<longleftrightarrow> \<not> pos + 2 + n > length bs" for n
    using assms by auto
  ultimately show ?thesis by (simp add: Let_def add.commute)
qed

lemma unframe_short: "length bs < 2 \<Longrightarrow> unframe bs = None"
  by (cases bs rule: unframe.cases) auto

lemma lfilter_loop_drain:
  "pos \<le> length bs \<Longrightarrow>
   (let (msgs, pos') = lfilter_loop bs pos in (msgs, drop pos' bs)) =
      drain unframe (length (drop pos bs)) (drop pos bs) \<and>
   snd (lfilter_loop bs pos) \<le> length bs"
proof (induction bs pos rule: lfilter_loop.induct)
  case (1 bs pos)
  let ?n = "be_header (bs ! pos) (bs ! (pos + 1))"
  consider (short) "\<not> pos + 2 \<le> length bs"
    | (partial) "pos + 2 \<le> length bs" "pos + 2 + ?n > length bs"
    | (full) "pos + 2 \<le> length bs" "\<not> pos + 2 + ?n > length bs"
    by blast
  then show ?case
  proof cases
    case short
    then have "unframe (drop pos bs) = None" by (intro unframe_short) simp
    then have "drain unframe k (drop pos bs) = ([], drop pos bs)" for k
      by (cases k) simp_all
    with short 1 show ?thesis by (simp add: lfilter_loop.simps [of bs pos])
  next
    case partial
    then have "unframe (drop pos bs) = None" by (simp add: unframe_drop)
    then have "drain unframe k (drop pos bs) = ([], drop pos bs)" for k
      by (cases k) simp_all
    with partial 1 show ?thesis by (simp add: lfilter_loop.simps [of bs pos])
  next
    case full
    let ?rest = "drop (pos + 2 + ?n) bs"
    have d: "unframe (drop pos bs) = Some (take ?n (drop (pos + 2) bs), ?rest)"
      using full by (simp add: unframe_drop Let_def)
    obtain m where m: "length (drop pos bs) = Suc m" "length ?rest \<le> m"
      using full by (cases "length (drop pos bs)") auto
    have fuel: "drain unframe m ?rest = drain unframe (length ?rest) ?rest"
      using m by (intro np.drain_fuel) simp
    obtain msgs pos' where r: "lfilter_loop bs (pos + 2 + ?n) = (msgs, pos')" by fastforce
    have "drain unframe (length ?rest) ?rest = (msgs, drop pos' bs)" "pos' \<le> length bs"
      using "1.IH" full r by simp_all
    then show ?thesis
      using full r d m(1) fuel
      by (simp add: lfilter_loop.simps [of bs pos] del: length_drop)
  qed
qed

lemma lfilter_drain: "lfilter buf new = drain unframe (length (buf @ new)) (buf @ new)"
proof -
  obtain msgs pos where r: "lfilter_loop (buf @ new) 0 = (msgs, pos)" by fastforce
  with lfilter_loop_drain [of 0 "buf @ new"] show ?thesis
    by (auto simp: lfilter_def)
qed

lemma lfilter_append:
  "lfilter buf (c1 @ c2) =
     (let (ms1, b1) = lfilter buf c1; (ms2, b2) = lfilter b1 c2 in (ms1 @ ms2, b2))"
  using np.drain_append [of "buf @ c1" c2] by (simp add: lfilter_drain)

lemma lfilter_stuck: "lfilter buf new = (ms, r) \<Longrightarrow> unframe r = None"
  unfolding lfilter_drain by (rule np.drain_rest_stuck)

lemma lfilter_idle: "unframe buf = None \<Longrightarrow> lfilter buf [] = ([], buf)"
  by (cases buf) (simp_all add: lfilter_drain)

lemma feed_eq_lfilter: "unframe buf = None \<Longrightarrow> feed buf chunks = lfilter buf (concat chunks)"
proof (induction chunks arbitrary: buf)
  case Nil
  then show ?case by (simp add: lfilter_idle)
next
  case (Cons c cs)
  obtain ms b where r: "lfilter buf c = (ms, b)" by fastforce
  then have "unframe b = None" by (rule lfilter_stuck)
  with Cons.IH [of b] r show ?case by (simp add: lfilter_append)
qed

lemma feed_frames:
  assumes "\<And>x. x \<in> set xs \<Longrightarrow> frame_ok x" and "concat chunks = concat (map frame xs)"
  shows "feed [] chunks = (xs, [])"
proof -
  have "feed [] chunks = lfilter [] (concat (map frame xs))"
    using assms(2) by (simp add: feed_eq_lfilter)
  also have "\<dots> = (xs, [])"
    using np.drain_concat_enc [of xs] assms(1) by (simp add: lfilter_drain)
  finally show ?thesis .
qed

section \<open>Properties\<close>

text \<open>
  C5.  Stream round trip: whatever way the TCP stream splits the bytes of a sequence of framed
  payloads into chunks, a receiver that keeps the remainder between \<open>netpack.filter\<close> calls
  sees exactly those payloads, in order, and ends with an empty remainder.
\<close>

theorem netpack_stream_roundtrip:
  assumes "\<And>p. p \<in> set payloads \<Longrightarrow> length p \<le> 0xFFFF"
    and "concat chunks = concat (map (\<lambda>p. projr (lpack p)) payloads)"
  shows "feed [] chunks = (payloads, [])"
proof -
  have ok: "\<And>p. p \<in> set payloads \<Longrightarrow> frame_ok p"
    using assms(1) by (simp add: frame_ok_def)
  have "map (\<lambda>p. projr (lpack p)) payloads = map frame payloads"
    by (simp add: lpack_frame ok)
  with assms(2) show ?thesis by (intro feed_frames ok) simp_all
qed

theorem netpack_stream_roundtrip_witness:
  "feed [] [[0, 2, 7], [9, 0], [0]] = ([[7, 9], []], [])"
  by (rule netpack_stream_roundtrip)
     (auto simp: lpack_def hi_byte_def lo_byte_def and_255 drop_bit_eq_div)

text \<open>
  C20.  Chunk independence: filtering two chunks one after the other finds the same messages and
  leaves the same remainder as filtering their concatenation, for every byte stream, well-formed
  or not.
\<close>

theorem netpack_filter_chunk_independent:
  "lfilter buf (c1 @ c2) =
     (fst (lfilter buf c1) @ fst (lfilter (snd (lfilter buf c1)) c2),
      snd (lfilter (snd (lfilter buf c1)) c2))"
  using lfilter_append [of buf c1 c2] by (simp add: case_prod_beta)

text \<open>
  Bounded buffering: the remainder \<open>netpack.filter\<close> returns never holds a complete frame,
  so it stays below the largest frame, 65537 bytes, however much was received.
\<close>

theorem netpack_filter_remainder_bounded: "length (snd (lfilter buf new)) < 2 + 65535"
proof -
  obtain ms r where r: "lfilter buf new = (ms, r)" by fastforce
  then have "unframe r = None" by (rule lfilter_stuck)
  then have "length r < 2 + 65535"
  proof (cases r rule: unframe.cases)
    case (1 b0 b1 bs)
    with \<open>unframe r = None\<close> have "length bs < be_header b0 b1" by (auto simp: Let_def split: if_splits)
    also have "\<dots> \<le> 65535" by (rule be_header_le)
    finally show ?thesis using 1 by simp
  qed auto
  with r show ?thesis by simp
qed

text \<open>
  Single-frame round trip: \<open>netpack.pack\<close> fails exactly on payloads above 65535 bytes, and
  \<open>netpack.unpack\<close> at any one-based offset reads the frame that starts there and returns the
  offset just after it.
\<close>

theorem netpack_pack_unpack:
  assumes "length before < 2 ^ 31 - 1"
  shows "case lpack data of
      Inl e \<Rightarrow> length data > 65535 \<and> e = DataTooLarge (length data)
    | Inr fr \<Rightarrow> length data \<le> 65535 \<and>
        lunpack (before @ fr @ rest) (Some (word_of_nat (length before + 1))) =
          Some (int (length before) + int (length fr) + 1, data)"
proof -
  have "sint (ucast (word_of_nat (length before + 1) :: u64) :: 32 word) = int (length before) + 1"
    unfolding i32_of_u64_of_nat using assms by (subst sint_of_nat_i32) auto
  then show ?thesis
    by (auto simp: lpack_def lunpack_def Let_def nth_append be_header_hi_lo)
qed

theorem netpack_pack_unpack_witness:
  "case lpack [1, 2, 3] of
      Inl e \<Rightarrow> length [1, 2, 3 :: byte] > 65535 \<and> e = DataTooLarge (length [1, 2, 3 :: byte])
    | Inr fr \<Rightarrow> length [1, 2, 3 :: byte] \<le> 65535 \<and>
        lunpack ([5, 6] @ fr @ [9]) (Some (word_of_nat (length [5, 6 :: byte] + 1))) =
          Some (int (length [5, 6 :: byte]) + int (length fr) + 1, [1, 2, 3])"
  by (rule netpack_pack_unpack) simp

end
