(* ===== verification/Cluster.thy ===== *)
theory Cluster
  imports Netpack Lua_Value
begin

text \<open>
  The cluster wire protocol \<open>src/lua_cluster.cpp\<close>: packing of requests, pushes and responses into
  length-prefixed packets, large messages split into parts of at most \<open>MULTI_PART\<close> bytes, the
  corresponding unpackers, and the two helpers that reassemble the parts of a large message.

  Arguments are the values after the \<open>luaL_check\<dots>\<close> conversion of the C function; the values a
  function returns to Lua are a list of \<open>lua_value\<close>s; \<open>luaL_error\<close> is the left summand.
  Memory behind a light userdata is read through the parameter \<open>mem\<close> (\<open>mem p n\<close> are the \<open>n\<close>
  bytes at address \<open>p\<close>).  The unpackers take a packet without its two-byte header, as
  \<open>netpack.filter\<close> hands it over.
\<close>

section \<open>Constants and byte helpers\<close>

abbreviation (input) TEMP_LENGTH :: nat where "TEMP_LENGTH \<equiv> 0x8200"
abbreviation (input) MULTI_PART :: nat where "MULTI_PART \<equiv> 0x8000"

text \<open>\<open>LUAL_BUFFERSIZE\<close> on a 64-bit host: \<open>16 * sizeof(void*) * sizeof(lua_Number)\<close>.\<close>

abbreviation (input) LUAL_BUFFERSIZE :: nat where "LUAL_BUFFERSIZE \<equiv> 1024"

definition fill_uint32 :: "u32 \<Rightarrow> bytes" where
  "fill_uint32 n =
     [ucast (n AND 0xFF), ucast (drop_bit 8 n AND 0xFF),
      ucast (drop_bit 16 n AND 0xFF), ucast (drop_bit 24 n AND 0xFF)]"

definition unpack_uint32 :: "bytes \<Rightarrow> u32" where
  "unpack_uint32 buf =
     ucast (buf ! 0) OR push_bit 8 (ucast (buf ! 1)) OR
     push_bit 16 (ucast (buf ! 2)) OR push_bit 24 (ucast (buf ! 3))"

definition fill_header :: "nat \<Rightarrow> bytes" where
  "fill_header sz = [hi_byte sz, lo_byte sz]"

definition unpack_header :: "bytes \<Rightarrow> nat" where
  "unpack_header buf = be_header (buf ! 0) (buf ! 1)"

datatype cluster_error =
    NameLength
  | InvalidMessageType
  | InvalidSession int
  | InvalidMessage int
  | InvalidMultiReq int
  | InvalidMultiPart
  | EmptyRequest
  | InvalidRequestType byte
  | HeaderTooShort
  | InvalidAppendType

section \<open>Lua argument conversions\<close>

text \<open>\<open>lua_tointeger\<close> of a value of type number.\<close>

fun lua_tointeger :: "lua_value \<Rightarrow> u64" where
  "lua_tointeger (LInt v) = v"
| "lua_tointeger (LNum f) = (case flt_to_int f of None \<Rightarrow> 0 | Some v \<Rightarrow> v)"
| "lua_tointeger v = 0"

fun is_number :: "lua_value \<Rightarrow> bool" where
  "is_number (LInt v) = True"
| "is_number (LNum f) = True"
| "is_number v = False"

text \<open>\<open>lua_tolstring\<close> of a value that is not a number.\<close>

fun lua_tolstring :: "lua_value \<Rightarrow> bytes option" where
  "lua_tolstring (LStr s) = Some s"
| "lua_tolstring v = None"

section \<open>Packing requests\<close>

text \<open>
  \<open>packreq_number\<close> and \<open>packreq_string\<close> return the packet pushed on the Lua stack and the number
  of parts (0 for a message that travels in the packet itself).  \<open>msg\<close> holds \<open>sz\<close> bytes.
\<close>

definition packreq_number ::
    "lua_value \<Rightarrow> u32 \<Rightarrow> bytes \<Rightarrow> u32 \<Rightarrow> bool \<Rightarrow> bytes \<times> nat" where
  "packreq_number addr_arg session msg sz is_push =
     (let addr = ucast (lua_tointeger addr_arg) :: u32
      in if unat sz < MULTI_PART then
           (fill_header (unat (sz + 9)) @ [0] @ fill_uint32 addr @
              fill_uint32 (if is_push then 0 else session) @ take (unat sz) msg, 0)
         else
           (fill_header 13 @ [if is_push then 0x41 else 1] @ fill_uint32 addr @
              fill_uint32 session @ fill_uint32 sz,
            unat (sz - 1) div MULTI_PART + 1))"

definition packreq_string ::
    "lua_value \<Rightarrow> u32 \<Rightarrow> bytes \<Rightarrow> u32 \<Rightarrow> bool \<Rightarrow> cluster_error + (bytes \<times> nat)" where
  "packreq_string addr_arg session msg sz is_push =
     (case lua_tolstring addr_arg of
        None \<Rightarrow> Inl NameLength
      | Some name \<Rightarrow>
          (let namelen = length name
           in if namelen < 1 \<or> namelen > 255 then Inl NameLength
              else if unat sz < MULTI_PART then
                Inr (fill_header (unat sz + 6 + namelen) @ [0x80, word_of_nat namelen] @ name @
                       fill_uint32 (if is_push then 0 else session) @ take (unat sz) msg, 0)
              else
                Inr (fill_header (10 + namelen) @
                       [if is_push then 0xC1 else 0x81, word_of_nat namelen] @ name @
                       fill_uint32 session @ fill_uint32 sz,
                     unat (sz - 1) div MULTI_PART + 1)))"

text \<open>
  The loop of \<open>packreq_multi\<close>: \<open>part\<close> iterations, with \<open>sz\<close> bytes left at \<open>ptr\<close>.  The tag byte is
  2 while more parts follow and 3 on the last one.
\<close>

fun packreq_multi_loop :: "nat \<Rightarrow> u32 \<Rightarrow> bytes \<Rightarrow> nat \<Rightarrow> bytes list" where
  "packreq_multi_loop 0 session ptr sz = []"
| "packreq_multi_loop (Suc part) session ptr sz =
     (let s = (if sz > MULTI_PART then MULTI_PART else sz);
          tag = (if sz > MULTI_PART then 2 else 3)
      in (fill_header (s + 5) @ [tag] @ fill_uint32 session @ take s ptr)
           # packreq_multi_loop part session (drop s ptr) (sz - s))"

definition packreq_multi :: "u32 \<Rightarrow> bytes \<Rightarrow> u32 \<Rightarrow> bytes list" where
  "packreq_multi session msg sz =
     packreq_multi_loop (unat (sz - 1) div MULTI_PART + 1) session msg (unat sz)"

text \<open>The message argument (index 3, with the size at index 4 for a light userdata).\<close>

datatype msg_arg = MsgLight u64 u64 | MsgString bytes | MsgNil | MsgOther

text \<open>The outcome of a pack call: packet, next session, padding table, and the buffer freed.\<close>

record packed =
  packet :: bytes
  new_session :: u32
  padding :: "bytes list option"
  freed :: "u64 option"

text \<open>The message \<open>packrequest\<close> reads: its bytes, its 32-bit size and the buffer it owns.\<close>

fun request_msg :: "(u64 \<Rightarrow> nat \<Rightarrow> bytes) \<Rightarrow> msg_arg \<Rightarrow> (bytes \<times> u32 \<times> u64 option) option" where
  "request_msg mem (MsgLight p n) = Some (mem p (unat (ucast n :: u32)), ucast n, Some p)"
| "request_msg mem (MsgString s) = Some (s, word_of_nat (length s), None)"
| "request_msg mem MsgNil = Some ([], 0, None)"
| "request_msg mem MsgOther = None"

definition packrequest ::
    "(u64 \<Rightarrow> nat \<Rightarrow> bytes) \<Rightarrow> bool \<Rightarrow> lua_value \<Rightarrow> u64 \<Rightarrow> msg_arg \<Rightarrow> cluster_error + packed" where
  "packrequest mem is_push addr session_arg arg =
     (case request_msg mem arg of
        None \<Rightarrow> Inl InvalidMessageType
      | Some (msg, sz, owned) \<Rightarrow>
          (let session = ucast session_arg :: u32
           in if sint session \<le> 0 then Inl (InvalidSession (sint session))
              else
                (case (if is_number addr then Inr (packreq_number addr session msg sz is_push)
                       else packreq_string addr session msg sz is_push) of
                   Inl e \<Rightarrow> Inl e
                 | Inr (pkt, multipak) \<Rightarrow>
                     (let ns = session + 1;
                          ns' = (if unat ns > 2147483647 then 1 else ns)
                      in Inr \<lparr>packet = pkt, new_session = ns',
                              padding = (if multipak \<noteq> 0 then Some (packreq_multi session msg sz) else None),
                              freed = owned\<rparr>))))"

definition lpackrequest ::
    "(u64 \<Rightarrow> nat \<Rightarrow> bytes) \<Rightarrow> lua_value \<Rightarrow> u64 \<Rightarrow> msg_arg \<Rightarrow> cluster_error + packed" where
  "lpackrequest mem = packrequest mem False"

definition lpackpush ::
    "(u64 \<Rightarrow> nat \<Rightarrow> bytes) \<Rightarrow> lua_value \<Rightarrow> u64 \<Rightarrow> msg_arg \<Rightarrow> cluster_error + packed" where
  "lpackpush mem = packrequest mem True"

section \<open>Unpacking requests\<close>

text \<open>\<open>sz\<close> is the C \<open>int\<close> the entry point computes from the string length.\<close>

definition unpackreq_number :: "bytes \<Rightarrow> int \<Rightarrow> cluster_error + lua_value list" where
  "unpackreq_number buf sz =
     (if sz < 9 then Inl (InvalidMessage sz)
      else
        (let address = unpack_uint32 (drop 1 buf); session = unpack_uint32 (drop 5 buf)
         in Inr ([LInt (ucast address), LInt (ucast session),
                  LStr (take (nat (sz - 9)) (drop 9 buf)), LInt (word_of_int (sz - 9))] @
                 (if session = 0 then [LNil, LBool True] else []))))"

definition unpackmreq_number :: "bytes \<Rightarrow> int \<Rightarrow> bool \<Rightarrow> cluster_error + lua_value list" where
  "unpackmreq_number buf sz is_push =
     (if sz \<noteq> 13 then Inl (InvalidMultiReq sz)
      else
        (let address = unpack_uint32 (drop 1 buf); session = unpack_uint32 (drop 5 buf);
             size = unpack_uint32 (drop 9 buf)
         in Inr [LInt (ucast address), LInt (ucast session), LNil, LInt (ucast size),
                 LBool True, LBool is_push]))"

definition unpackmreq_part :: "bytes \<Rightarrow> int \<Rightarrow> cluster_error + lua_value list" where
  "unpackmreq_part buf sz =
     (if sz < 5 then Inl InvalidMultiPart
      else
        (let padding = (buf ! 0 = 2); session = unpack_uint32 (drop 1 buf)
         in Inr [LBool False, LInt (ucast session), LStr (take (nat (sz - 5)) (drop 5 buf)),
                 LInt (word_of_int (sz - 5)), LBool padding]))"

definition unpackreq_string :: "bytes \<Rightarrow> int \<Rightarrow> cluster_error + lua_value list" where
  "unpackreq_string buf sz =
     (if sz < 2 then Inl (InvalidMessage sz)
      else
        (let namesz = unat (buf ! 1)
         in if sz < int (namesz + 6) then Inl (InvalidMessage sz)
            else
              (let session = unpack_uint32 (drop (namesz + 2) buf); data_offset = int (namesz + 6)
               in Inr ([LStr (take namesz (drop 2 buf)), LInt (ucast session),
                        LStr (take (nat (sz - data_offset)) (drop (nat data_offset) buf)),
                        LInt (word_of_int (sz - data_offset))] @
                       (if session = 0 then [LNil, LBool True] else [])))))"

definition unpackmreq_string :: "bytes \<Rightarrow> int \<Rightarrow> bool \<Rightarrow> cluster_error + lua_value list" where
  "unpackmreq_string buf sz is_push =
     (if sz < 2 then Inl (InvalidMessage sz)
      else
        (let namesz = unat (buf ! 1)
         in if sz < int (namesz + 10) then Inl (InvalidMessage sz)
            else
              (let session = unpack_uint32 (drop (namesz + 2) buf);
                   size = unpack_uint32 (drop (namesz + 6) buf)
               in Inr [LStr (take namesz (drop 2 buf)), LInt (ucast session), LNil,
                       LInt (ucast size), LBool True, LBool is_push])))"

definition lunpackrequest :: "bytes \<Rightarrow> cluster_error + lua_value list" where
  "lunpackrequest msg =
     (let sz = sint (word_of_nat (length msg) :: u32)
      in if sz = 0 then Inl EmptyRequest
         else
           (let t = msg ! 0
            in if t = 0 then unpackreq_number msg sz
               else if t = 1 then unpackmreq_number msg sz False
               else if t = 0x41 then unpackmreq_number msg sz True
               else if t = 2 \<or> t = 3 then unpackmreq_part msg sz
               else if t = 0x80 then unpackreq_string msg sz
               else if t = 0x81 then unpackmreq_string msg sz False
               else if t = 0xC1 then unpackmreq_string msg sz True
               else Inl (InvalidRequestType t)))"

section \<open>Responses\<close>

text \<open>The loop over the parts of a large response: tag 3 while more follow, 4 on the last.\<close>

fun packresponse_loop :: "nat \<Rightarrow> u32 \<Rightarrow> bytes \<Rightarrow> nat \<Rightarrow> bytes list" where
  "packresponse_loop 0 session ptr remaining = []"
| "packresponse_loop (Suc part) session ptr remaining =
     (let s = (if remaining > MULTI_PART then MULTI_PART else remaining);
          tag = (if remaining > MULTI_PART then 3 else 4)
      in (fill_header (s + 5) @ fill_uint32 session @ [tag] @ take s ptr)
           # packresponse_loop part session (drop s ptr) (remaining - s))"

datatype response_result = ResponsePacket bytes | ResponseTable "bytes list"

text \<open>The message \<open>packresponse\<close> reads: its bytes, its \<open>size_t\<close> size and the buffer it owns.\<close>

fun response_msg :: "(u64 \<Rightarrow> nat \<Rightarrow> bytes) \<Rightarrow> msg_arg \<Rightarrow> (bytes \<times> nat \<times> u64 option) option" where
  "response_msg mem (MsgString s) = Some (s, length s, None)"
| "response_msg mem (MsgLight p n) = Some (mem p (unat n), unat n, Some p)"
| "response_msg mem MsgNil = Some ([], 0, None)"
| "response_msg mem MsgOther = None"

definition lpackresponse ::
    "(u64 \<Rightarrow> nat \<Rightarrow> bytes) \<Rightarrow> u64 \<Rightarrow> bool \<Rightarrow> msg_arg \<Rightarrow>
     cluster_error + (response_result \<times> u64 option)" where
  "lpackresponse mem session_arg ok arg =
     (let session = ucast session_arg :: u32
      in case response_msg mem arg of
           None \<Rightarrow> Inl InvalidMessageType
         | Some (msg, sz0, owned) \<Rightarrow>
             (if ok \<and> sz0 > MULTI_PART then
                (let part = sint (word_of_nat ((sz0 - 1) div MULTI_PART + 1) :: u32)
                 in Inr (ResponseTable
                           ((fill_header 9 @ fill_uint32 session @ [2] @ fill_uint32 (word_of_nat sz0))
                              # packresponse_loop (nat part) session msg sz0), owned))
              else
                (let sz = (if \<not> ok \<and> sz0 > MULTI_PART then MULTI_PART else sz0)
                 in Inr (ResponsePacket
                           (fill_header (sz + 5) @ fill_uint32 session @ [if ok then 1 else 0] @ take sz msg),
                         owned))))"

definition lunpackresponse :: "bytes \<Rightarrow> lua_value list" where
  "lunpackresponse buf =
     (if length buf < 5 then []
      else
        (let session = LInt (ucast (unpack_uint32 buf)); t = buf ! 4
         in if t = 0 then [session, LBool False, LStr (drop 5 buf)]
            else if t = 1 \<or> t = 4 then [session, LBool True, LStr (drop 5 buf)]
            else if t = 2 then
              (if length buf \<noteq> 9 then []
               else [session, LBool True, LInt (ucast (unpack_uint32 (drop 5 buf))), LBool True])
            else if t = 3 then [session, LBool True, LStr (drop 5 buf), LBool True]
            else []))"

section \<open>Reassembly\<close>

text \<open>
  The accumulator table holds the total size at index 1 and the parts from index 2 on; it is the
  list of the values at its positive integer keys.  \<open>lua_seti\<close> of \<open>nil\<close> past the end changes
  nothing.  The third argument is the size passed beside the message.
\<close>

fun lappend ::
    "(u64 \<Rightarrow> nat \<Rightarrow> bytes) \<Rightarrow> lua_value list \<Rightarrow> lua_value \<Rightarrow> lua_value \<Rightarrow>
     cluster_error + (lua_value list \<times> u64 option)" where
  "lappend mem t LNil sz = Inr (if sz = LNil then t else t @ [sz], None)"
| "lappend mem t (LStr s) sz = Inr (t @ [LStr s], None)"
| "lappend mem t (LLight p) sz =
     Inr (t @ [LStr (mem p (unat (scast (ucast (lua_tointeger sz) :: u32) :: u64)))], Some p)"
| "lappend mem t v sz = Inl InvalidAppendType"

text \<open>
  \<open>lconcat\<close> adds each part with \<open>luaL_addlstring\<close> while the part itself is on top of the Lua
  stack.  \<open>luaL_addlstring\<close> requires the buffer's slot on top; the requirement matters exactly
  when the buffer has to grow beyond its initial \<open>LUAL_BUFFERSIZE\<close> bytes: the growing call then
  replaces the string's slot by the new box, the following \<open>lua_pop\<close> closes and frees it, and the
  buffer is left dangling.  \<open>None\<close> is that outcome.
\<close>

fun concat_loop :: "bytes \<Rightarrow> lua_value list \<Rightarrow> bytes option" where
  "concat_loop b (LStr s # vs) =
     (if s \<noteq> [] \<and> LUAL_BUFFERSIZE - length b < length s then None else concat_loop (b @ s) vs)"
| "concat_loop b vs = Some b"

datatype concat_result = ConcatNothing | ConcatResult bytes int | ConcatDangling

fun lconcat :: "lua_value list option \<Rightarrow> concat_result" where
  "lconcat (Some (v # vs)) =
     (if is_number v then
        (let sz = sint (ucast (lua_tointeger v) :: u32)
         in case concat_loop [] vs of
              None \<Rightarrow> ConcatDangling
            | Some b \<Rightarrow> if int (length b) \<noteq> sz then ConcatNothing else ConcatResult b sz)
      else ConcatNothing)"
| "lconcat _ = ConcatNothing"

definition lisname :: "bytes option \<Rightarrow> bool" where
  "lisname name = (case name of Some (c # cs) \<Rightarrow> c = 0x40 | _ \<Rightarrow> False)"

definition lheader :: "bytes \<Rightarrow> cluster_error + nat" where
  "lheader buf = (if length buf < 2 then Inl HeaderTooShort else Inr (unpack_header buf))"

end
