(* ===== verification/Cluster_Props.thy ===== *)
theory Cluster_Props
  imports Cluster
begin

text \<open>
  What the cluster protocol promises: every packet is a \<open>netpack\<close> frame, requests, pushes and
  responses are read back as they were packed, the parts of a large message are exactly the
  message cut into pieces, and what becomes of a reassembled message.
\<close>

section \<open>Byte helpers\<close>

lemma length_fill [simp, wire_simps]:
  "length (fill_uint32 n) = 4" "length (fill_header m) = 2"
  by (simp_all add: fill_uint32_def fill_header_def)

lemma bit_255: "bit (255 :: int) i \<longleftrightarrow> i < 8"
proof -
  have "bit (mask 8 :: int) i \<longleftrightarrow> i < 8" unfolding bit_mask_iff by simp
  moreover have "(mask 8 :: int) = 255" by (simp add: mask_eq_exp_minus_1)
  ultimately show ?thesis by simp
qed

lemma unpack_fill_uint32 [simp, wire_simps]: "unpack_uint32 (fill_uint32 n @ rest) = n"
proof (rule bit_word_eqI)
  fix i assume "i < LENGTH(32)"
  then consider "i < 8" | "8 \<le> i" "i < 16" | "16 \<le> i" "i < 24" | "24 \<le> i" "i < 32"
    by fastforce
  then show "bit (unpack_uint32 (fill_uint32 n @ rest)) i = bit n i"
    by cases (auto simp: unpack_uint32_def fill_uint32_def bit_simps bit_255)
qed

lemma unpack_fill_uint32_nil [simp, wire_simps]: "unpack_uint32 (fill_uint32 n) = n"
  using unpack_fill_uint32 [of n "[]"] by simp

lemma fill_header_frame: "n = length body \<Longrightarrow> fill_header n @ body = frame body"
  by (simp add: fill_header_def frame_def)

lemma sz_i32: "length body < 2 ^ 31 \<Longrightarrow> sint (word_of_nat (length body) :: u32) = int (length body)"
  by (rule sint_of_nat_i32)

section \<open>Cutting a large message into parts\<close>

function parts_of :: "bytes \<Rightarrow> bytes list" where
  "parts_of bs =
     (if length bs \<le> MULTI_PART then [bs]
      else take MULTI_PART bs # parts_of (drop MULTI_PART bs))"
  by pat_completeness auto
termination
  by (relation "measure length") auto

declare parts_of.simps [simp del]

fun tagged :: "byte \<Rightarrow> byte \<Rightarrow> bytes list \<Rightarrow> (byte \<times> bytes) list" where
  "tagged mt ft [] = []"
| "tagged mt ft [p] = [(ft, p)]"
| "tagged mt ft (p # q # ps) = (mt, p) # tagged mt ft (q # ps)"

lemma parts_of_not_Nil: "parts_of bs \<noteq> []"
  by (subst parts_of.simps) simp

lemma tagged_Cons: "ps \<noteq> [] \<Longrightarrow> tagged mt ft (p # ps) = (mt, p) # tagged mt ft ps"
  by (cases ps) simp_all

lemma concat_parts_of: "concat (parts_of bs) = bs"
  by (induction bs rule: parts_of.induct) (subst parts_of.simps, simp)

lemma length_parts_of: "p \<in> set (parts_of bs) \<Longrightarrow> length p \<le> MULTI_PART"
  by (induction bs rule: parts_of.induct) (subst (asm) parts_of.simps, auto split: if_splits)

lemma snd_tagged: "map snd (tagged mt ft ps) = ps"
  by (induction mt ft ps rule: tagged.induct) simp_all

lemma part_count_step:
  assumes "MULTI_PART < n"
  shows "(n - 1) div MULTI_PART + 1 = Suc ((n - MULTI_PART - 1) div MULTI_PART + 1)"
proof -
  have "n - 1 = (n - MULTI_PART - 1) + MULTI_PART" using assms by simp
  then show ?thesis by (metis Suc_eq_plus1 div_add_self2 zero_neq_numeral)
qed

text \<open>
  Both senders of large messages run the same loop: a frame per part, a tag for the last one and
  another for those before it, the number of parts computed beforehand.
\<close>

locale part_sender =
  fixes send_loop :: "nat \<Rightarrow> u32 \<Rightarrow> bytes \<Rightarrow> nat \<Rightarrow> bytes list"
    and body :: "u32 \<Rightarrow> byte \<Rightarrow> bytes \<Rightarrow> bytes"
    and mtag ftag :: byte
  assumes loop_0: "send_loop 0 session ptr n = []"
    and loop_last: "length ptr \<le> MULTI_PART \<Longrightarrow>
      send_loop (Suc k) session ptr (length ptr) =
        frame (body session ftag ptr) # send_loop k session [] 0"
    and loop_more: "length ptr > MULTI_PART \<Longrightarrow>
      send_loop (Suc k) session ptr (length ptr) =
        frame (body session mtag (take MULTI_PART ptr)) #
          send_loop k session (drop MULTI_PART ptr) (length ptr - MULTI_PART)"
begin

lemma send_loop_parts:
  "ptr \<noteq> [] \<Longrightarrow>
   send_loop ((length ptr - 1) div MULTI_PART + 1) session ptr (length ptr) =
     map (\<lambda>(tag, p). frame (body session tag p)) (tagged mtag ftag (parts_of ptr))"
proof (induction ptr rule: parts_of.induct)
  case (1 ptr)
  show ?case
  proof (cases "length ptr \<le> MULTI_PART")
    case True
    then have "(length ptr - 1) div MULTI_PART = 0" using 1 by (cases ptr) auto
    with True show ?thesis by (simp add: parts_of.simps [of ptr] loop_last loop_0)
  next
    case False
    let ?rest = "drop MULTI_PART ptr"
    have "(length ptr - 1) div MULTI_PART + 1 = Suc ((length ?rest - 1) div MULTI_PART + 1)"
      using part_count_step [of "length ptr"] False by simp
    moreover have "?rest \<noteq> []" using False by simp
    moreover have "parts_of ptr = take MULTI_PART ptr # parts_of ?rest"
      using False by (subst parts_of.simps) simp
    ultimately show ?thesis
      using False "1.IH" [OF False] loop_more [of ptr]
      by (simp add: tagged_Cons parts_of_not_Nil)
  qed
qed

end

interpretation req: part_sender packreq_multi_loop "\<lambda>session tag p. [tag] @ fill_uint32 session @ p" 2 3
  by unfold_locales (simp_all add: fill_header_frame [symmetric] Let_def add.commute)

interpretation resp: part_sender packresponse_loop "\<lambda>session tag p. fill_uint32 session @ [tag] @ p" 3 4
  by unfold_locales (simp_all add: fill_header_frame [symmetric] Let_def add.commute)

lemma tagged_snoc:
  "ps \<noteq> [] \<Longrightarrow> map f (tagged mt ft ps) = map (\<lambda>p. f (mt, p)) (butlast ps) @ [f (ft, last ps)]"
  by (induction mt ft ps rule: tagged.induct) simp_all

section \<open>Reading packets back\<close>

text \<open>The bytes of a message argument, and the arguments whose size the packers do not truncate.\<close>

fun msg_bytes :: "(u64 \<Rightarrow> nat \<Rightarrow> bytes) \<Rightarrow> msg_arg \<Rightarrow> bytes" where
  "msg_bytes mem (MsgLight p n) = mem p (unat n)"
| "msg_bytes mem (MsgString s) = s"
| "msg_bytes mem _ = []"

fun msg_fits :: "(u64 \<Rightarrow> nat \<Rightarrow> bytes) \<Rightarrow> msg_arg \<Rightarrow> bool" where
  "msg_fits mem (MsgLight p n) = (unat n < 2 ^ 32 \<and> length (mem p (unat n)) = unat n)"
| "msg_fits mem (MsgString s) = (length s < 2 ^ 32)"
| "msg_fits mem _ = True"

lemma u32_of_u64: "unat (n :: u64) < 2 ^ 32 \<Longrightarrow> unat (ucast n :: u32) = unat n"
  by (simp add: unsigned_ucast_eq take_bit_nat_eq_self)

lemma ucast_eq_of_nat: "unat (n :: u64) = k \<Longrightarrow> (ucast n :: u32) = word_of_nat k"
  by (metis i32_of_u64_of_nat word_of_nat_unat_id)

lemma u64_of_u32_of_nat: "n < 2 ^ 32 \<Longrightarrow> (ucast (word_of_nat n :: u32) :: u64) = word_of_nat n"
  by (rule word_unat_eq_iff [THEN iffD2])
     (simp add: unsigned_ucast_eq unsigned_of_nat take_bit_nat_eq_self)

lemma request_msg_eq:
  assumes "request_msg mem arg = Some (msg, sz, owned)" "msg_fits mem arg"
  shows "msg = msg_bytes mem arg \<and> sz = word_of_nat (length msg) \<and> length msg < 2 ^ 32"
proof (cases arg)
  case (MsgLight p n)
  with assms have n: "unat n < 2 ^ 32" "length (mem p (unat n)) = unat n" by simp_all
  have u: "unat (ucast n :: u32) = unat n" using n(1) by (rule u32_of_u64)
  from MsgLight assms(1) have "msg = mem p (unat n)" "sz = ucast n"
    unfolding MsgLight request_msg.simps u by simp_all
  moreover have "(ucast n :: u32) = word_of_nat (unat n)" by (rule ucast_eq_of_nat [OF refl])
  ultimately have "sz = word_of_nat (length msg)" using n(2) by (simp only:)
  with MsgLight n \<open>msg = mem p (unat n)\<close> show ?thesis by (simp only: msg_bytes.simps)
qed (use assms in simp_all)

lemma packrequest_Inr:
  assumes "packrequest mem is_push addr session_arg arg = Inr r"
  obtains msg sz owned session pkt multipak where
    "request_msg mem arg = Some (msg, sz, owned)"
    "session = ucast session_arg" "sint session > 0"
    "(if is_number addr then Inr (packreq_number addr session msg sz is_push)
      else packreq_string addr session msg sz is_push) = Inr (pkt, multipak)"
    "packet r = pkt"
    "padding r = (if multipak \<noteq> 0 then Some (packreq_multi session msg sz) else None)"
    "new_session r = (if unat (session + 1) > 2147483647 then 1 else session + 1)"
proof -
  from assms obtain msg sz owned where m: "request_msg mem arg = Some (msg, sz, owned)"
    unfolding packrequest_def by (cases "request_msg mem arg") auto
  define session :: u32 where "session = ucast session_arg"
  define q where "q = (if is_number addr then Inr (packreq_number addr session msg sz is_push)
      else packreq_string addr session msg sz is_push)"
  have r: "(if sint session \<le> 0 then Inl (InvalidSession (sint session))
      else case q of Inl e \<Rightarrow> Inl e
           | Inr (pkt, multipak) \<Rightarrow>
               Inr \<lparr>packet = pkt, new_session = if unat (session + 1) > 2147483647 then 1 else session + 1,
                    padding = (if multipak \<noteq> 0 then Some (packreq_multi session msg sz) else None),
                    freed = owned\<rparr>) = Inr r"
    using assms m by (simp only: packrequest_def Let_def session_def q_def option.case prod.case)
  then obtain pkt multipak where q: "q = Inr (pkt, multipak)" and pos: "sint session > 0"
    by (cases q) (auto split: if_splits)
  show thesis
    by (rule that [of msg sz owned session pkt multipak])
       (use m r q pos in \<open>auto simp: session_def q_def\<close>)
qed

lemma packrequest_cases:
  assumes "packrequest mem is_push addr session_arg arg = Inr r" "msg_fits mem arg"
  obtains msg session pkt multipak where
    "msg = msg_bytes mem arg" "length msg < 2 ^ 32"
    "session = ucast session_arg" "sint session > 0"
    "(if is_number addr then Inr (packreq_number addr session msg (word_of_nat (length msg)) is_push)
      else packreq_string addr session msg (word_of_nat (length msg)) is_push) = Inr (pkt, multipak)"
    "packet r = pkt"
    "padding r =
      (if multipak \<noteq> 0 then Some (packreq_multi session msg (word_of_nat (length msg))) else None)"
  using packrequest_Inr [OF assms(1)] request_msg_eq [OF _ assms(2)] by metis

lemma u32_positive:
  assumes "0 < sint (s :: u32)"
  shows "unat s < 2 ^ 31" and "sint s = int (unat s)"
proof -
  have "0 \<le> uint s" "uint s < 4294967296" using uint_lt2p [of s] by simp_all
  moreover have "sint s = (uint s + 2147483648) mod 4294967296 - 2147483648"
    using int_word_sint [of "uint s", where ?'a = 32] by simp
  ultimately have "uint s < 2147483648 \<and> sint s = uint s"
    using assms mod_pos_geq [of 4294967296 "uint s + 2147483648"]
    by (cases "uint s < 2147483648") (simp_all add: mod_pos_pos_trivial)
  then show "sint s = int (unat s)" "unat s < 2 ^ 31" by (simp_all add: nat_less_iff flip: nat_uint_eq)
qed

lemma next_session_i32:
  assumes "0 < sint (s :: u32)"
  shows "sint (if unat (s + 1) > 2147483647 then 1 else s + 1) =
    (if sint s = 2 ^ 31 - 1 then 1 else sint s + 1)"
proof -
  have u: "unat (s + 1) = unat s + 1"
    using u32_positive(1) [OF assms] by (simp add: unat_word_ariths)
  show ?thesis
  proof (cases "unat s = 2147483647")
    case True
    with u show ?thesis using u32_positive(2) [OF assms] by simp
  next
    case False
    then have "unat (s + 1) < 2 ^ 31" using u u32_positive(1) [OF assms] by simp
    then have "sint (s + 1) = int (unat (s + 1))"
      using sint_of_nat_i32 [of "unat (s + 1)"] by simp
    moreover have "int (unat s) \<noteq> int 2147483647" using False by (simp only: of_nat_eq_iff not_False_eq_True)
    then have "sint s \<noteq> 2 ^ 31 - 1" using u32_positive(2) [OF assms] by simp
    moreover have "\<not> unat (s + 1) > 2147483647" using \<open>unat (s + 1) < 2 ^ 31\<close> by simp
    ultimately show ?thesis using u u32_positive(2) [OF assms] by simp
  qed
qed

text \<open>What the receiver of a request or push sees: the values \<open>unpackrequest\<close> should return.\<close>

definition request_view :: "bool \<Rightarrow> lua_value \<Rightarrow> u32 \<Rightarrow> bytes \<Rightarrow> lua_value list" where
  "request_view is_push addr session msg =
     (let a = (if is_number addr then LInt (ucast (ucast (lua_tointeger addr) :: u32)) else addr)
      in if length msg < MULTI_PART then
           [a, LInt (ucast (if is_push then 0 else session)), LStr msg, LInt (word_of_nat (length msg))] @
             (if is_push then [LNil, LBool True] else [])
         else [a, LInt (ucast session), LNil, LInt (word_of_nat (length msg)), LBool True, LBool is_push])"

lemma packreq_number_view:
  assumes "packreq_number addr session msg (word_of_nat (length msg)) is_push = (pkt, multipak)"
    and "is_number addr" "length msg < 2 ^ 32" "session \<noteq> 0"
  shows "\<exists>body. pkt = frame body \<and> frame_ok body \<and> length pkt \<le> TEMP_LENGTH \<and>
    lunpackrequest body = Inr (request_view is_push addr session msg) \<and>
    (multipak \<noteq> 0 \<longleftrightarrow> length msg \<ge> MULTI_PART)"
proof -
  let ?addr = "ucast (lua_tointeger addr) :: u32"
  have u: "unat (word_of_nat (length msg) :: u32) = length msg"
    using assms(3) by (simp add: unsigned_of_nat take_bit_nat_eq_self)
  show ?thesis
  proof (cases "length msg < MULTI_PART")
    case True
    let ?body = "[0] @ fill_uint32 ?addr @ fill_uint32 (if is_push then 0 else session) @ msg"
    have "unat (word_of_nat (length msg) + 9 :: u32) = length ?body"
      using True by (simp add: unat_word_ariths u)
    then have "pkt = frame ?body" "multipak = 0"
      using assms(1) True by (auto simp: packreq_number_def u Let_def fill_header_frame [symmetric])
    moreover have "lunpackrequest ?body = Inr (request_view is_push addr session msg)"
      using True assms(2,4) sz_i32 [of ?body]
      by (simp add: lunpackrequest_def unpackreq_number_def request_view_def Let_def add.commute)
    ultimately show ?thesis
      using True by (intro exI [of _ ?body]) (simp add: frame_ok_def frame_def)
  next
    case False
    let ?body = "[if is_push then 0x41 else 1] @ fill_uint32 ?addr @ fill_uint32 session @
      fill_uint32 (word_of_nat (length msg))"
    have "pkt = frame ?body" "multipak \<noteq> 0"
      using assms(1) False by (auto simp: packreq_number_def u Let_def fill_header_frame [symmetric])
    moreover have "lunpackrequest ?body = Inr (request_view is_push addr session msg)"
      using False assms(2,3) sz_i32 [of ?body]
      by (simp add: u64_of_u32_of_nat lunpackrequest_def unpackmreq_number_def request_view_def Let_def)
    ultimately show ?thesis
      using False by (intro exI [of _ ?body]) (simp add: frame_ok_def frame_def)
  qed
qed

lemma drop_name_fields: "drop (length name + 6) (a # b # name @ fill_uint32 s @ msg) = msg"
proof -
  have "length ([a, b] @ name @ fill_uint32 s) = length name + 6" by simp
  then have "drop (length name + 6) (([a, b] @ name @ fill_uint32 s) @ msg) = msg"
    by (metis append_eq_conv_conj)
  then show ?thesis by simp
qed

lemma packreq_string_view:
  assumes "packreq_string addr session msg (word_of_nat (length msg)) is_push = Inr (pkt, multipak)"
    and "\<not> is_number addr" "length msg < 2 ^ 32" "session \<noteq> 0"
  shows "\<exists>body. pkt = frame body \<and> frame_ok body \<and> length pkt \<le> TEMP_LENGTH \<and>
    lunpackrequest body = Inr (request_view is_push addr session msg) \<and>
    (multipak \<noteq> 0 \<longleftrightarrow> length msg \<ge> MULTI_PART)"
proof -
  have u: "unat (word_of_nat (length msg) :: u32) = length msg"
    using assms(3) by (simp add: unsigned_of_nat take_bit_nat_eq_self)
  from assms(1) obtain name where addr: "addr = LStr name" and name: "length name < 256"
    by (cases addr) (auto simp: packreq_string_def Let_def split: if_splits)
  show ?thesis
  proof (cases "length msg < MULTI_PART")
    case True
    let ?body = "[0x80, word_of_nat (length name)] @ name @
      fill_uint32 (if is_push then 0 else session) @ msg"
    have "pkt = frame ?body" "multipak = 0"
      using assms(1) True addr
      by (auto simp: packreq_string_def u Let_def fill_header_frame [symmetric] algebra_simps
               split: if_splits)
    moreover have "lunpackrequest ?body = Inr (request_view is_push addr session msg)"
      using True name assms(2,4) sz_i32 [of ?body] addr
      by (simp add: lunpackrequest_def unpackreq_string_def request_view_def Let_def nat_add_distrib
               drop_name_fields)
    ultimately show ?thesis
      using True name by (intro exI [of _ ?body]) (simp add: frame_ok_def frame_def)
  next
    case False
    let ?body = "[if is_push then 0xC1 else 0x81, word_of_nat (length name)] @ name @
      fill_uint32 session @ fill_uint32 (word_of_nat (length msg))"
    have "pkt = frame ?body" "multipak \<noteq> 0"
      using assms(1) False addr
      by (auto simp: packreq_string_def u Let_def fill_header_frame [symmetric] algebra_simps
               split: if_splits)
    moreover have "lunpackrequest ?body = Inr (request_view is_push addr session msg)"
      using False name assms(2,3) sz_i32 [of ?body] addr
      by (simp add: lunpackrequest_def unpackmreq_string_def request_view_def Let_def u64_of_u32_of_nat
               drop_name_fields)
    ultimately show ?thesis
      using False name by (intro exI [of _ ?body]) (simp add: frame_ok_def frame_def)
  qed
qed

lemma packrequest_view:
  assumes "packrequest mem is_push addr session_arg arg = Inr r" "msg_fits mem arg"
  shows "\<exists>body. packet r = frame body \<and> frame_ok body \<and> length (packet r) \<le> TEMP_LENGTH \<and>
    lunpackrequest body = Inr (request_view is_push addr (ucast session_arg) (msg_bytes mem arg)) \<and>
    padding r = (if length (msg_bytes mem arg) \<ge> MULTI_PART
      then Some (packreq_multi (ucast session_arg) (msg_bytes mem arg)
                   (word_of_nat (length (msg_bytes mem arg)))) else None)"
  using assms
proof (rule packrequest_cases)
  fix msg session pkt multipak
  assume *: "msg = msg_bytes mem arg" "length msg < 2 ^ 32" "session = ucast session_arg"
    "0 < sint session"
    "(if is_number addr then Inr (packreq_number addr session msg (word_of_nat (length msg)) is_push)
      else packreq_string addr session msg (word_of_nat (length msg)) is_push) = Inr (pkt, multipak)"
    "packet r = pkt"
    "padding r =
      (if multipak \<noteq> 0 then Some (packreq_multi session msg (word_of_nat (length msg))) else None)"
  then have "session \<noteq> 0" by auto
  with * packreq_number_view [of addr session msg is_push pkt multipak]
    packreq_string_view [of addr session msg is_push pkt multipak]
  show ?thesis by (cases "is_number addr") auto
qed

section \<open>Reassembly\<close>

lemma concat_loop_small:
  "length (concat ps) + length b \<le> LUAL_BUFFERSIZE \<Longrightarrow> concat_loop b (map LStr ps) = Some (b @ concat ps)"
  by (induction ps arbitrary: b) auto

lemma concat_loop_large:
  "length b \<le> LUAL_BUFFERSIZE \<Longrightarrow> LUAL_BUFFERSIZE < length (concat ps) + length b \<Longrightarrow>
   concat_loop b (map LStr ps) = None"
proof (induction ps arbitrary: b)
  case (Cons p ps)
  then show ?case by (cases "LUAL_BUFFERSIZE - length b < length p") auto
qed simp

text \<open>A receiver's accumulator table: the total size first, then every part in order.\<close>

fun append_parts :: "lua_value list \<Rightarrow> bytes list \<Rightarrow> cluster_error + lua_value list" where
  "append_parts t [] = Inr t"
| "append_parts t (p # ps) =
     (case lappend (\<lambda>q n. []) t (LStr p) (LInt (word_of_nat (length p))) of
        Inl e \<Rightarrow> Inl e
      | Inr (t', own) \<Rightarrow> append_parts t' ps)"

lemma append_parts_eq: "append_parts t ps = Inr (t @ map LStr ps)"
  by (induction ps arbitrary: t) simp_all

lemma part_size_i32: "n < 2 ^ 31 \<Longrightarrow> sint (ucast (word_of_nat n :: u64) :: u32) = int n"
  unfolding i32_of_u64_of_nat by (rule sint_of_nat_i32)

section \<open>Large messages on the stream\<close>

lemma frame_parts:
  assumes "\<And>tag p. length (body tag p) = length p + 5"
  shows "map (\<lambda>(tag, p). frame (body tag p)) (tagged mt ft (parts_of msg)) =
      map frame (map (\<lambda>(tag, p). body tag p) (tagged mt ft (parts_of msg)))"
    and "\<And>b. b \<in> set (map (\<lambda>(tag, p). body tag p) (tagged mt ft (parts_of msg))) \<Longrightarrow> frame_ok b"
proof -
  show "map (\<lambda>(tag, p). frame (body tag p)) (tagged mt ft (parts_of msg)) =
      map frame (map (\<lambda>(tag, p). body tag p) (tagged mt ft (parts_of msg)))"
    by (simp add: split_def)
  fix b assume "b \<in> set (map (\<lambda>(tag, p). body tag p) (tagged mt ft (parts_of msg)))"
  then obtain tag p where b: "b = body tag p" "(tag, p) \<in> set (tagged mt ft (parts_of msg))"
    by auto
  then have "p \<in> set (map snd (tagged mt ft (parts_of msg)))" by force
  then have "length p \<le> MULTI_PART" unfolding snd_tagged by (rule length_parts_of)
  with b(1) assms [of tag p] show "frame_ok b" by (simp add: frame_ok_def)
qed

text \<open>What a receiver of one part sees.\<close>

definition part_view :: "u32 \<Rightarrow> bool \<Rightarrow> bytes \<Rightarrow> lua_value list" where
  "part_view session pad p =
     [LBool False, LInt (ucast session), LStr p, LInt (word_of_nat (length p)), LBool pad]"

lemma part_tags_distinct:
  "(2 :: byte) \<noteq> 0x41" "(3 :: byte) \<noteq> 0x41" "(3 :: byte) \<noteq> 2"
  "(2 :: byte) \<noteq> 0" "(2 :: byte) \<noteq> 1" "(3 :: byte) \<noteq> 0" "(3 :: byte) \<noteq> 1"
  by code_simp+

lemma lunpackrequest_part:
  assumes "tag = 2 \<or> tag = 3" "length p \<le> MULTI_PART"
  shows "lunpackrequest ([tag] @ fill_uint32 session @ p) = Inr (part_view session (tag = 2) p)"
  using assms(1)
proof
  assume "tag = 2"
  with assms(2) sz_i32 [of "[2] @ fill_uint32 session @ p"] show ?thesis
    by (simp add: lunpackrequest_def unpackmreq_part_def part_view_def Let_def add.commute
             part_tags_distinct del: word_eq_numeral_iff_iszero)
next
  assume "tag = 3"
  with assms(2) sz_i32 [of "[3] @ fill_uint32 session @ p"] show ?thesis
    by (simp add: lunpackrequest_def unpackmreq_part_def part_view_def Let_def add.commute
             part_tags_distinct del: word_eq_numeral_iff_iszero)
qed

lemma packreq_multi_parts:
  assumes "msg \<noteq> []" "length msg < 2 ^ 32"
  shows "packreq_multi session msg (word_of_nat (length msg)) =
    map (\<lambda>(tag, p). frame ([tag] @ fill_uint32 session @ p)) (tagged 2 3 (parts_of msg))"
proof -
  have u: "unat (word_of_nat (length msg) :: u32) = length msg"
    using assms(2) by (simp add: unsigned_of_nat take_bit_nat_eq_self)
  moreover have "unat (word_of_nat (length msg) - 1 :: u32) = length msg - 1"
  proof -
    have "1 \<le> length msg" using assms(1) by (cases msg) auto
    then have "(word_of_nat (length msg) - 1 :: u32) = word_of_nat (length msg - 1)" by (simp add: of_nat_diff)
    then show ?thesis using assms(2) by (simp add: unsigned_of_nat take_bit_nat_eq_self)
  qed
  ultimately show ?thesis
    using req.send_loop_parts [OF assms(1), of session] by (simp add: packreq_multi_def)
qed

lemma large_not_Nil: "MULTI_PART \<le> length msg \<Longrightarrow> msg \<noteq> []"
  by auto

lemma request_part_views:
  "map lunpackrequest (map (\<lambda>(tag, p). [tag] @ fill_uint32 session @ p) (tagged 2 3 (parts_of msg))) =
   map Inr (map (part_view session True) (butlast (parts_of msg)) @
            [part_view session False (last (parts_of msg))])"
proof -
  have "p \<in> set (parts_of msg) \<Longrightarrow> tag = 2 \<or> tag = 3 \<Longrightarrow>
      lunpackrequest ([tag] @ fill_uint32 session @ p) = Inr (part_view session (tag = 2) p)" for tag p
    by (rule lunpackrequest_part) (auto dest: length_parts_of)
  then show ?thesis
    using parts_of_not_Nil [of msg] part_tags_distinct(3)
    by (simp add: tagged_snoc split_def comp_def in_set_butlastD)
qed

text \<open>The packets of a response, and what their receiver sees.\<close>

fun response_packets :: "response_result \<Rightarrow> bytes list" where
  "response_packets (ResponsePacket p) = [p]"
| "response_packets (ResponseTable ps) = ps"

definition response_view :: "u32 \<Rightarrow> bool \<Rightarrow> bytes \<Rightarrow> lua_value list list" where
  "response_view session ok msg =
     (let s = LInt (ucast session)
      in if ok \<and> length msg > MULTI_PART then
           [s, LBool True, LInt (word_of_nat (length msg)), LBool True] #
             map (\<lambda>p. [s, LBool True, LStr p, LBool True]) (butlast (parts_of msg)) @
             [[s, LBool True, LStr (last (parts_of msg))]]
         else [[s, LBool ok, LStr (if ok then msg else take MULTI_PART msg)]])"

lemma lunpackresponse_simps:
  "lunpackresponse (fill_uint32 s @ [0] @ p) = [LInt (ucast s), LBool False, LStr p]"
  "lunpackresponse (fill_uint32 s @ [1] @ p) = [LInt (ucast s), LBool True, LStr p]"
  "lunpackresponse (fill_uint32 s @ [3] @ p) = [LInt (ucast s), LBool True, LStr p, LBool True]"
  "lunpackresponse (fill_uint32 s @ [4] @ p) = [LInt (ucast s), LBool True, LStr p]"
  "lunpackresponse (fill_uint32 s @ [2] @ fill_uint32 n) =
     [LInt (ucast s), LBool True, LInt (ucast n), LBool True]"
  by (simp_all add: lunpackresponse_def nth_append Let_def)

lemma response_msg_eq:
  assumes "response_msg mem arg = Some (msg, sz, owned)" "msg_fits mem arg"
  shows "msg = msg_bytes mem arg \<and> sz = length msg \<and> length msg < 2 ^ 32"
  using assms by (cases arg) auto

lemma part_count_i32:
  assumes "n < 2 ^ 32"
  shows "nat (sint (word_of_nat ((n - 1) div MULTI_PART + 1) :: u32)) = (n - 1) div MULTI_PART + 1"
proof -
  have "(n - 1) div MULTI_PART \<le> (2 ^ 32 - 1) div MULTI_PART"
    using assms by (intro div_le_mono) simp
  then have "(n - 1) div MULTI_PART + 1 < 2 ^ 31" by simp
  then show ?thesis by (simp only: sint_of_nat_i32 nat_int)
qed

lemma lpackresponse_frames:
  assumes "lpackresponse mem session_arg ok arg = Inr (res, owned)" "msg_fits mem arg"
  shows "\<exists>bodies. response_packets res = map frame bodies \<and> (\<forall>b \<in> set bodies. frame_ok b) \<and>
    map lunpackresponse bodies = response_view (ucast session_arg) ok (msg_bytes mem arg)"
proof -
  from assms(1) obtain msg sz own where m: "response_msg mem arg = Some (msg, sz, own)"
    unfolding lpackresponse_def by (cases "response_msg mem arg") (auto simp: Let_def)
  have msg: "msg = msg_bytes mem arg" and sz: "sz = length msg" and lim: "length msg < 2 ^ 32"
    using response_msg_eq [OF m assms(2)] by auto
  define session :: u32 where "session = ucast session_arg"
  show ?thesis
  proof (cases "ok \<and> length msg > MULTI_PART")
    case True
    let ?body = "\<lambda>tag p. fill_uint32 session @ [tag] @ p"
    let ?bodies = "(fill_uint32 session @ [2] @ fill_uint32 (word_of_nat (length msg))) #
      map (\<lambda>(tag, p). ?body tag p) (tagged 3 4 (parts_of msg))"
    have ne: "msg \<noteq> []" using True by auto
    have "response_packets res = (fill_header 9 @ fill_uint32 session @ [2] @ fill_uint32 (word_of_nat (length msg))) #
        packresponse_loop ((length msg - 1) div MULTI_PART + 1) session msg (length msg)"
      using assms(1) True unfolding lpackresponse_def m sz session_def Let_def option.case prod.case
      by (auto simp only: part_count_i32 [OF lim] if_True simp_thms sum.inject prod.inject
            response_packets.simps)
    also have "\<dots> = map frame ?bodies"
      unfolding resp.send_loop_parts [OF ne] by (simp add: fill_header_frame [symmetric] split_def)
    finally have "response_packets res = map frame ?bodies" .
    moreover have "\<forall>b \<in> set ?bodies. frame_ok b"
      using frame_parts(2) [where body = ?body and msg = msg and mt = 3 and ft = 4]
      by (auto simp: frame_ok_def)
    moreover have "map lunpackresponse ?bodies = response_view session ok msg"
      using True parts_of_not_Nil [of msg] lim
      by (simp only: list.map lunpackresponse_simps response_view_def Let_def if_True map_map
            comp_def split_def tagged_snoc map_append fst_conv snd_conv u64_of_u32_of_nat simp_thms)
    ultimately show ?thesis unfolding msg session_def by blast
  next
    case False
    let ?sz = "if ok then length msg else min (length msg) MULTI_PART"
    let ?body = "fill_uint32 session @ [if ok then 1 else 0] @ take ?sz msg"
    have "response_packets res = [fill_header (?sz + 5) @ ?body]"
      using assms(1) False unfolding lpackresponse_def m sz session_def Let_def option.case prod.case
      by (auto simp: min_def split: if_splits)
    moreover have "fill_header (?sz + 5) @ ?body = frame ?body"
      by (rule fill_header_frame) auto
    moreover have "frame_ok ?body" using False by (auto simp: frame_ok_def)
    moreover have "lunpackresponse ?body = [LInt (ucast session), LBool ok,
        LStr (if ok then msg else take MULTI_PART msg)]"
      by (cases ok; simp only: lunpackresponse_simps if_True if_False; simp add: min_def)
    ultimately show ?thesis
      using False by (intro exI [of _ "[?body]"]) (simp add: response_view_def msg [symmetric] session_def)
  qed
qed

section \<open>Properties\<close>

text \<open>
  C17.  Request round trip: when \<open>packrequest\<close> or \<open>packpush\<close> succeeds, its packet is one complete
  frame for \<open>netpack.filter\<close>, and \<open>unpackrequest\<close> of the frame's body returns the address, the
  session (0 for a push that fits in one packet), the message and its size, or, for a message of
  at least \<open>MULTI_PART\<close> bytes, the total size and the padding flag.  The packet never exceeds the
  \<open>TEMP_LENGTH\<close> bytes of the C stack buffer it is built in.
\<close>

theorem cluster_request_roundtrip:
  assumes "packrequest mem is_push addr session_arg arg = Inr r" and "msg_fits mem arg"
  shows "length (packet r) \<le> TEMP_LENGTH \<and>
    (\<exists>body. lfilter [] (packet r) = ([body], []) \<and>
       lunpackrequest body = Inr (request_view is_push addr (ucast session_arg) (msg_bytes mem arg)))"
proof -
  from packrequest_view [OF assms] obtain body where b: "packet r = frame body" "frame_ok body"
    "length (packet r) \<le> TEMP_LENGTH"
    "lunpackrequest body = Inr (request_view is_push addr (ucast session_arg) (msg_bytes mem arg))"
    by blast
  moreover have "lfilter [] (frame body) = ([body], [])"
    using np.drain_concat_enc [of "[body]"] b(2) by (simp add: lfilter_drain)
  ultimately show ?thesis by auto
qed

theorem cluster_request_roundtrip_witness:
  "case packrequest (\<lambda>p n. [5, 5, 5]) True (LStr [64, 97]) 7 (MsgLight 4096 3) of
     Inl e \<Rightarrow> False
   | Inr r \<Rightarrow> length (packet r) \<le> TEMP_LENGTH \<and>
       (\<exists>body. lfilter [] (packet r) = ([body], []) \<and>
          lunpackrequest body = Inr [LStr [64, 97], LInt 0, LStr [5, 5, 5], LInt 3, LNil, LBool True])"
proof -
  let ?r = "\<lparr>packet = [0, 11, 0x80, 2, 64, 97, 0, 0, 0, 0, 5, 5, 5], new_session = 8, padding = None,
    freed = Some 4096\<rparr>"
  have p: "packrequest (\<lambda>p n. [5, 5, 5]) True (LStr [64, 97]) 7 (MsgLight 4096 3) = Inr ?r"
    by (simp add: packrequest_def packreq_string_def fill_uint32_def fill_header_def hi_byte_def
          lo_byte_def and_255 drop_bit_eq_div Let_def)
  have f: "msg_fits (\<lambda>p n. [5, 5, 5]) (MsgLight 4096 3)" by simp
  have v: "request_view True (LStr [64, 97]) (ucast (7 :: u64))
      (msg_bytes (\<lambda>p n. [5, 5, 5]) (MsgLight 4096 3)) =
      [LStr [64, 97], LInt 0, LStr [5, 5, 5], LInt 3, LNil, LBool True]"
    by (simp add: request_view_def)
  show ?thesis using cluster_request_roundtrip [OF p f] by (simp only: p v sum.case)
qed

text \<open>
  C18.  A large request on the wire: the packet and its padding frames, sent in order and split
  into chunks in any way, are received as the request header followed by the parts of the message
  in order; every part but the last asks for more, and the parts together are the message.
\<close>

theorem cluster_large_request_stream:
  assumes "packrequest mem is_push addr session_arg arg = Inr r" and "msg_fits mem arg"
    and "MULTI_PART \<le> length (msg_bytes mem arg)"
    and "concat chunks = packet r @ concat (the (padding r))"
  shows "\<exists>bodies parts. feed [] chunks = (bodies, []) \<and>
    map lunpackrequest bodies =
      map Inr (request_view is_push addr (ucast session_arg) (msg_bytes mem arg) #
               map (part_view (ucast session_arg) True) (butlast parts) @
               [part_view (ucast session_arg) False (last parts)]) \<and>
    concat parts = msg_bytes mem arg \<and> (\<forall>p \<in> set parts. length p \<le> MULTI_PART)"
proof -
  let ?msg = "msg_bytes mem arg" and ?session = "ucast session_arg :: u32"
  let ?body = "\<lambda>tag p. [tag] @ fill_uint32 ?session @ p"
  let ?parts = "map (\<lambda>(tag, p). ?body tag p) (tagged 2 3 (parts_of ?msg))"
  from packrequest_view [OF assms(1,2)] assms(3) obtain body where b: "packet r = frame body" "frame_ok body"
    "lunpackrequest body = Inr (request_view is_push addr ?session ?msg)"
    "padding r = Some (packreq_multi ?session ?msg (word_of_nat (length ?msg)))"
    by auto
  have "length ?msg < 2 ^ 32"
    using packrequest_cases [OF assms(1,2)] by metis
  then have "packreq_multi ?session ?msg (word_of_nat (length ?msg)) = map frame ?parts"
    using packreq_multi_parts [of ?msg ?session] large_not_Nil [OF assms(3)]
      frame_parts(1) [of ?body] by simp
  then have "concat chunks = concat (map frame (body # ?parts))"
    using assms(4) b by simp
  then have "feed [] chunks = (body # ?parts, [])"
    using b(2) frame_parts(2) [where body = ?body and mt = 2 and ft = 3]
    by (intro feed_frames) auto
  moreover have "map lunpackrequest (body # ?parts) =
      map Inr (request_view is_push addr ?session ?msg #
        map (part_view ?session True) (butlast (parts_of ?msg)) @ [part_view ?session False (last (parts_of ?msg))])"
    using request_part_views [of ?session ?msg] b(3) by simp
  ultimately show ?thesis using concat_parts_of length_parts_of by blast
qed

theorem cluster_large_request_stream_witness:
  "\<exists>r. packrequest (\<lambda>p n. []) False (LInt 9) 3 (MsgString (replicate 32768 1)) = Inr r \<and>
    (\<exists>bodies parts. feed [] [packet r, concat (the (padding r))] = (bodies, []) \<and>
      map lunpackrequest bodies =
        map Inr ([LInt 9, LInt 3, LNil, LInt 32768, LBool True, LBool False] #
                 map (part_view 3 True) (butlast parts) @ [part_view 3 False (last parts)]) \<and>
      concat parts = replicate 32768 1 \<and> (\<forall>p \<in> set parts. length p \<le> MULTI_PART))"
proof -
  let ?m = "MsgString (replicate 32768 1)"
  obtain r where r: "packrequest (\<lambda>p n. []) False (LInt 9) 3 ?m = Inr r"
    by (simp add: packrequest_def Let_def packreq_number_def)
  have v: "request_view False (LInt 9) (ucast (3 :: u64)) (msg_bytes (\<lambda>p n. []) ?m) =
      [LInt 9, LInt 3, LNil, LInt 32768, LBool True, LBool False]"
    by (simp add: request_view_def)
  have "\<exists>bodies parts. feed [] [packet r, concat (the (padding r))] = (bodies, []) \<and>
    map lunpackrequest bodies =
      map Inr (request_view False (LInt 9) (ucast (3 :: u64)) (msg_bytes (\<lambda>p n. []) ?m) #
               map (part_view (ucast (3 :: u64)) True) (butlast parts) @
               [part_view (ucast (3 :: u64)) False (last parts)]) \<and>
    concat parts = msg_bytes (\<lambda>p n. []) ?m \<and> (\<forall>p \<in> set parts. length p \<le> MULTI_PART)"
    by (rule cluster_large_request_stream [OF r]) simp_all
  with r show ?thesis unfolding v by auto
qed

text \<open>
  C19.  Response round trip: the packets of a response, split into chunks in any way, are received
  as the session, the outcome and the message; an error message longer than \<open>MULTI_PART\<close> is cut
  to its first \<open>MULTI_PART\<close> bytes, a longer result arrives as its size followed by its parts.
\<close>

theorem cluster_response_roundtrip:
  assumes "lpackresponse mem session_arg ok arg = Inr (res, owned)" and "msg_fits mem arg"
    and "concat chunks = concat (response_packets res)"
  shows "\<exists>bodies. feed [] chunks = (bodies, []) \<and>
    map lunpackresponse bodies = response_view (ucast session_arg) ok (msg_bytes mem arg)"
  using lpackresponse_frames [OF assms(1,2)] assms(3) feed_frames by metis

theorem cluster_response_roundtrip_witness:
  "\<exists>res. lpackresponse (\<lambda>p n. []) 5 False (MsgString [7, 8]) = Inr (res, None) \<and>
    (\<exists>bodies. feed [] (response_packets res) = (bodies, []) \<and>
       map lunpackresponse bodies = [[LInt 5, LBool False, LStr [7, 8]]])"
proof -
  obtain res where r: "lpackresponse (\<lambda>p n. []) 5 False (MsgString [7, 8]) = Inr (res, None)"
    by (simp add: lpackresponse_def Let_def)
  have v: "response_view (ucast (5 :: u64)) False (msg_bytes (\<lambda>p n. []) (MsgString [7, 8])) =
      [[LInt 5, LBool False, LStr [7, 8]]]"
    by (simp add: response_view_def)
  have "\<exists>bodies. feed [] (response_packets res) = (bodies, []) \<and>
      map lunpackresponse bodies = [[LInt 5, LBool False, LStr [7, 8]]]"
    unfolding v [symmetric] by (rule cluster_response_roundtrip [OF r]) simp_all
  with r show ?thesis by (intro exI [of _ res] conjI)
qed

text \<open>
  Sessions stay valid: the session \<open>packrequest\<close> returns for the next call is again in
  \<open>1 \<dots> INT32_MAX\<close>, so it can be passed back without ever becoming 0, the mark of a push.
\<close>

theorem cluster_session_next:
  assumes "packrequest mem is_push addr session_arg arg = Inr r"
  shows "1 \<le> sint (new_session r) \<and>
    sint (new_session r) = (if sint (ucast session_arg :: u32) = 2 ^ 31 - 1 then 1
                            else sint (ucast session_arg :: u32) + 1)"
proof -
  from packrequest_Inr [OF assms] have pos: "0 < sint (ucast session_arg :: u32)"
    and n: "new_session r = (if unat (ucast session_arg + 1 :: u32) > 2147483647 then 1
                             else ucast session_arg + 1)"
    by metis+
  show ?thesis unfolding n next_session_i32 [OF pos] using pos by simp
qed

theorem cluster_session_next_witness:
  "\<exists>r. packrequest (\<lambda>p n. []) True (LInt 9) 0x7FFFFFFF MsgNil = Inr r \<and> sint (new_session r) = 1"
proof -
  obtain r where r: "packrequest (\<lambda>p n. []) True (LInt 9) 0x7FFFFFFF MsgNil = Inr r"
    by (simp add: packrequest_def Let_def packreq_number_def)
  with cluster_session_next [OF r] show ?thesis by simp
qed

text \<open>
  C22.  Reassembly: with the total size and the parts appended in order, \<open>concat\<close> returns the
  message as long as it fits the initial \<open>luaL_Buffer\<close>; beyond \<open>LUAL_BUFFERSIZE\<close> bytes the buffer
  grows while the part is on top of the stack and is left dangling.  Every message that is sent in
  parts is at least \<open>MULTI_PART\<close> bytes long, so it always takes the second branch.
\<close>

theorem cluster_concat_outcome:
  assumes "length (concat parts) < 2 ^ 31"
  shows "\<exists>t0 t. lappend mem [] LNil (LInt (word_of_nat (length (concat parts)))) = Inr (t0, None) \<and>
    append_parts t0 parts = Inr t \<and>
    lconcat (Some t) =
      (if length (concat parts) \<le> LUAL_BUFFERSIZE
       then ConcatResult (concat parts) (int (length (concat parts)))
       else ConcatDangling)"
  using concat_loop_small [of parts "[]"] concat_loop_large [of "[]" parts] part_size_i32 [OF assms]
  by (simp add: append_parts_eq)

theorem cluster_concat_outcome_witness:
  "\<exists>t0 t. lappend (\<lambda>p n. []) [] LNil (LInt 3) = Inr (t0, None) \<and>
    append_parts t0 [[1], [2, 3]] = Inr t \<and> lconcat (Some t) = ConcatResult [1, 2, 3] 3"
  using cluster_concat_outcome [of "[[1], [2, 3]]" "\<lambda>p n. []"] by simp

end
