(* ===== verification/Actor_Types.thy ===== *)
theory Actor_Types
  imports Skynet_Prelude "HOL-Library.AList"
begin

text \<open>
  The data of the actor runtime, \<open>src/skynet.h\<close>: message payloads, messages, actors, per-worker
  monitors, mailbox queues and the state of \<open>ActorSystem\<close>.  Queues and actors are heap objects
  shared through \<open>shared_ptr\<close>: they live in stores indexed by object identity, and the registry,
  the global queue and \<open>owner\<close> hold identities.  \<open>std::string\<close> is \<open>string\<close>, a C \<open>int\<close> that wraps
  is a 32-bit word, pointers are 64-bit words.
\<close>

section \<open>Messages\<close>

type_synonym i32 = "32 word"
type_synonym obj = nat

abbreviation (input) PTYPE_TEXT :: int where "PTYPE_TEXT \<equiv> 0"
abbreviation (input) PTYPE_RESPONSE :: int where "PTYPE_RESPONSE \<equiv> 1"
abbreviation (input) PTYPE_MULTICAST :: int where "PTYPE_MULTICAST \<equiv> 2"
abbreviation (input) PTYPE_CLIENT :: int where "PTYPE_CLIENT \<equiv> 3"
abbreviation (input) PTYPE_SYSTEM :: int where "PTYPE_SYSTEM \<equiv> 4"
abbreviation (input) PTYPE_HARBOR :: int where "PTYPE_HARBOR \<equiv> 5"
abbreviation (input) PTYPE_SOCKET :: int where "PTYPE_SOCKET \<equiv> 6"
abbreviation (input) PTYPE_ERROR :: int where "PTYPE_ERROR \<equiv> 7"
abbreviation (input) PTYPE_TIMER :: int where "PTYPE_TIMER \<equiv> 8"
abbreviation (input) PTYPE_DEBUG :: int where "PTYPE_DEBUG \<equiv> 9"
abbreviation (input) PTYPE_LUA :: int where "PTYPE_LUA \<equiv> 10"
abbreviation (input) PTYPE_SNAX :: int where "PTYPE_SNAX \<equiv> 11"
abbreviation (input) PTYPE_TRACE :: int where "PTYPE_TRACE \<equiv> 12"

datatype payload =
    Monostate
  | Text string
  | SeriData u64 u64
  | SocketAccept i32 i32 string u16
  | SocketData i32 i32 string
  | SocketClose i32 i32
  | SocketOpen i32 string u16
  | SocketWarning i32 i32 u64
  | SocketUDP i32 string string u16

record message =
  source :: u32
  session :: i32
  mtype :: int
  mdata :: payload

section \<open>Actors, queues and monitors\<close>

record actor =
  next_session :: i32
  dispatch_depth :: nat
  destroy_requested :: bool
  destroyed :: bool
  init_failed :: bool

definition new_actor :: actor where
  "new_actor = \<lparr>next_session = 1, dispatch_depth = 0, destroy_requested = False,
     destroyed = False, init_failed = False\<rparr>"

abbreviation (input) OVERLOAD_THRESHOLD :: nat where "OVERLOAD_THRESHOLD \<equiv> 1024"
abbreviation (input) SIZE_MAX :: nat where "SIZE_MAX \<equiv> 0xFFFFFFFFFFFFFFFF"
abbreviation (input) ACTOR_SHARD_COUNT :: nat where "ACTOR_SHARD_COUNT \<equiv> 64"

text \<open>
  \<open>ActorQueue\<close>.  The mailbox is a \<open>moodycamel::ConcurrentQueue\<close>: its elements are kept in the
  order of their arrival, each with the thread that enqueued it, since that queue keeps order
  only among the elements of one producer.  \<open>schedule_state\<close> is 0 idle, 1 queued in the global
  queue, 2 currently dispatching.
\<close>

record actor_queue =
  handle :: u32
  mailbox :: "(nat \<times> message) list"
  mailbox_count :: nat
  overload_threshold :: nat
  schedule_state :: nat
  accepting :: bool
  releasing :: bool
  initialized :: bool
  owner :: "obj option"

definition new_queue :: actor_queue where
  "new_queue = \<lparr>handle = 0, mailbox = [], mailbox_count = 0, overload_threshold = OVERLOAD_THRESHOLD,
     schedule_state = 0, accepting = True, releasing = False, initialized = False, owner = None\<rparr>"

record worker_monitor =
  version :: u32
  check_version :: u32
  mon_source :: u32
  mon_destination :: u32
  busy :: bool

definition new_monitor :: worker_monitor where
  "new_monitor = \<lparr>version = 0, check_version = 0, mon_source = 0, mon_destination = 0, busy = False\<rparr>"

definition mon_begin :: "u32 \<Rightarrow> u32 \<Rightarrow> worker_monitor \<Rightarrow> worker_monitor" where
  "mon_begin src dst m =
     m\<lparr>mon_source := src, mon_destination := dst, version := version m + 1, busy := True\<rparr>"

definition mon_end :: "worker_monitor \<Rightarrow> worker_monitor" where
  "mon_end m = m\<lparr>busy := False\<rparr>"

definition mon_check :: "worker_monitor \<Rightarrow> bool \<times> worker_monitor" where
  "mon_check m =
     (if \<not> busy m then (False, m\<lparr>check_version := version m\<rparr>)
      else if version m = check_version m then (True, m)
      else (False, m\<lparr>check_version := version m\<rparr>))"

section \<open>The actor system\<close>

text \<open>
  What the runtime does to its environment is recorded in \<open>trace\<close>: messages entering a mailbox,
  handed to \<open>on_message\<close> or discarded by a drain, \<open>on_destroy\<close> calls, buffers passed to \<open>free\<close>,
  lines written to \<open>stderr\<close>, and wake-ups of sleeping workers.
\<close>

datatype event =
    EvEnqueue obj "nat \<times> message"
  | EvDeliver obj "nat \<times> message"
  | EvDrop obj "nat \<times> message"
  | EvDestroy obj
  | EvFree u64
  | EvStderr u32 string
  | EvNotifyOne
  | EvNotifyAll

text \<open>
  \<open>cur_thread\<close> is the thread executing, the producer of what it enqueues.  \<open>too_deep\<close> is set when
  the nesting of \<open>push_message\<close> and \<open>error\<close> exceeds the bound of the model.
\<close>

record system =
  next_handle :: u32
  queue_of :: "obj \<Rightarrow> actor_queue"
  actor_of :: "obj \<Rightarrow> actor"
  next_obj :: obj
  actor_shards :: "(u32 \<times> obj) list list"
  names :: "(string \<times> u32) list"
  logger_handle :: u32
  global_queue :: "(nat \<times> obj option) list"
  global_queue_count :: int
  global_queue_epoch :: u64
  sleeping_workers :: int
  running :: bool
  worker_count :: int
  monitors :: "nat \<Rightarrow> worker_monitor"
  timers :: "(u32 \<times> i32 \<times> int) list"
  cur_thread :: nat
  trace :: "event list"
  too_deep :: bool

text \<open>The constructor: \<open>worker_count_\<close> falls back to the hardware concurrency.\<close>

definition new_system :: "int \<Rightarrow> int \<Rightarrow> system" where
  "new_system workers hardware =
     \<lparr>next_handle = 1, queue_of = (\<lambda>q. new_queue), actor_of = (\<lambda>a. new_actor), next_obj = 0,
      actor_shards = replicate ACTOR_SHARD_COUNT [], names = [], logger_handle = 0,
      global_queue = [], global_queue_count = 0, global_queue_epoch = 0, sleeping_workers = 0,
      running = False, worker_count = (if workers > 0 then workers else hardware),
      monitors = (\<lambda>i. new_monitor), timers = [], cur_thread = 0, trace = [], too_deep = False\<rparr>"

text \<open>Updates of one object in its store.\<close>

definition upd_queue :: "obj \<Rightarrow> (actor_queue \<Rightarrow> actor_queue) \<Rightarrow> system \<Rightarrow> system" where
  "upd_queue q f s = s\<lparr>queue_of := (queue_of s)(q := f (queue_of s q))\<rparr>"

definition upd_actor :: "obj \<Rightarrow> (actor \<Rightarrow> actor) \<Rightarrow> system \<Rightarrow> system" where
  "upd_actor a f s = s\<lparr>actor_of := (actor_of s)(a := f (actor_of s a))\<rparr>"

definition emit :: "event \<Rightarrow> system \<Rightarrow> system" where
  "emit e s = s\<lparr>trace := trace s @ [e]\<rparr>"

lemma queue_of_upd_queue [simp]:
  "queue_of (upd_queue q f s) = (queue_of s)(q := f (queue_of s q))"
  "queue_of (upd_actor a g s) = queue_of s" "queue_of (emit e s) = queue_of s"
  by (simp_all add: upd_queue_def upd_actor_def emit_def)

lemma actor_of_upd_actor [simp]:
  "actor_of (upd_actor a g s) = (actor_of s)(a := g (actor_of s a))"
  "actor_of (upd_queue q f s) = actor_of s" "actor_of (emit e s) = actor_of s"
  by (simp_all add: upd_queue_def upd_actor_def emit_def)

lemma trace_upd [simp]:
  "trace (emit e s) = trace s @ [e]" "trace (upd_queue q f s) = trace s"
  "trace (upd_actor a g s) = trace s"
  by (simp_all add: upd_queue_def upd_actor_def emit_def)

lemma upd_frame [simp]:
  "actor_shards (upd_queue q f s) = actor_shards s" "actor_shards (upd_actor a g s) = actor_shards s"
  "actor_shards (emit e s) = actor_shards s"
  "global_queue (upd_queue q f s) = global_queue s" "global_queue (upd_actor a g s) = global_queue s"
  "global_queue (emit e s) = global_queue s"
  "global_queue_count (upd_queue q f s) = global_queue_count s"
  "global_queue_count (upd_actor a g s) = global_queue_count s"
  "global_queue_count (emit e s) = global_queue_count s"
  "next_obj (upd_queue q f s) = next_obj s" "next_obj (upd_actor a g s) = next_obj s"
  "next_obj (emit e s) = next_obj s"
  "next_handle (upd_queue q f s) = next_handle s" "next_handle (upd_actor a g s) = next_handle s"
  "next_handle (emit e s) = next_handle s"
  "names (upd_queue q f s) = names s" "names (upd_actor a g s) = names s" "names (emit e s) = names s"
  "logger_handle (upd_queue q f s) = logger_handle s" "logger_handle (upd_actor a g s) = logger_handle s"
  "logger_handle (emit e s) = logger_handle s"
  "too_deep (upd_queue q f s) = too_deep s" "too_deep (upd_actor a g s) = too_deep s"
  "too_deep (emit e s) = too_deep s"
  "cur_thread (upd_queue q f s) = cur_thread s" "cur_thread (upd_actor a g s) = cur_thread s"
  "cur_thread (emit e s) = cur_thread s"
  by (simp_all add: upd_queue_def upd_actor_def emit_def)

section \<open>The concurrent queue\<close>

text \<open>
  \<open>try_dequeue\<close> of a \<open>moodycamel::ConcurrentQueue\<close>: which element comes out is the choice of the
  implementation, the parameter \<open>pick\<close>, which sees the producers of the elements.  The documented
  guarantee is \<open>picks_ok\<close>: a queue that is not empty yields an element, and no element overtakes an
  earlier one of the same producer.
\<close>

definition try_dequeue :: "(nat list \<Rightarrow> nat) \<Rightarrow> (nat \<times> 'a) list \<Rightarrow> ((nat \<times> 'a) \<times> (nat \<times> 'a) list) option" where
  "try_dequeue pick q =
     (let i = pick (map fst q)
      in if i < length q then Some (q ! i, take i q @ drop (Suc i) q) else None)"

definition picks_ok :: "(nat list \<Rightarrow> nat) \<Rightarrow> bool" where
  "picks_ok pick \<longleftrightarrow>
     (\<forall>ps. ps \<noteq> [] \<longrightarrow> pick ps < length ps \<and> (\<forall>j < pick ps. ps ! j \<noteq> ps ! pick ps))"

lemma try_dequeue_SomeD:
  assumes "try_dequeue pick q = Some (x, q')"
  shows "\<exists>pre post. q = pre @ x # post \<and> q' = pre @ post"
proof -
  let ?i = "pick (map fst q)"
  from assms have i: "?i < length q" "x = q ! ?i" "q' = take ?i q @ drop (Suc ?i) q"
    by (auto simp: try_dequeue_def Let_def split: if_splits)
  then have "q = take ?i q @ x # drop (Suc ?i) q" by (simp add: id_take_nth_drop)
  with i(3) show ?thesis by blast
qed

lemma try_dequeue_length: "try_dequeue pick q = Some (x, q') \<Longrightarrow> length q = Suc (length q')"
  by (auto dest: try_dequeue_SomeD)

lemma try_dequeue_None: "picks_ok pick \<Longrightarrow> try_dequeue pick q = None \<longleftrightarrow> q = []"
  using picks_ok_def [THEN iffD1, rule_format, of pick "map fst q"]
  by (cases "q = []") (auto simp: try_dequeue_def Let_def)

lemma try_dequeue_fifo:
  assumes "picks_ok pick" "try_dequeue pick q = Some ((p, m), q')"
  shows "filter (\<lambda>x. fst x = p) q = (p, m) # filter (\<lambda>x. fst x = p) q'"
    and "p' \<noteq> p \<Longrightarrow> filter (\<lambda>x. fst x = p') q = filter (\<lambda>x. fst x = p') q'"
proof -
  let ?i = "pick (map fst q)"
  from assms(2) have i: "?i < length q" "(p, m) = q ! ?i" "q' = take ?i q @ drop (Suc ?i) q"
    by (auto simp: try_dequeue_def Let_def split: if_splits)
  then have q: "q = take ?i q @ (p, m) # drop (Suc ?i) q" by (simp add: id_take_nth_drop)
  have "q \<noteq> []" using i(1) by auto
  then have "\<forall>j < ?i. fst (q ! j) \<noteq> fst (q ! ?i)"
    using assms(1) i(1) by (auto simp: picks_ok_def dest!: spec [of _ "map fst q"])
  then have "\<forall>x \<in> set (take ?i q). fst x \<noteq> p"
    using i(1,2) by (auto simp: in_set_conv_nth) (metis fst_conv)
  then have pre: "filter (\<lambda>x. fst x = p) (take ?i q) = []" by (simp add: filter_empty_conv)
  show "filter (\<lambda>x. fst x = p) q = (p, m) # filter (\<lambda>x. fst x = p) q'"
    by (subst q) (simp add: i(3) pre)
  show "p' \<noteq> p \<Longrightarrow> filter (\<lambda>x. fst x = p') q = filter (\<lambda>x. fst x = p') q'"
    by (subst q) (simp add: i(3))
qed

end
