(* ===== verification/Actor_System.thy ===== *)
theory Actor_System
  imports Actor_Types
begin

text \<open>
  The operations of \<open>ActorSystem\<close> (\<open>src/skynet.cpp\<close>, \<open>src/skynet.h\<close>) and of \<open>Actor\<close>, each as one
  state transformer: registration, messaging, error reporting, spawning, killing, dispatching,
  timers, statistics and shutdown.  Between two operations other threads may run; within one, its
  steps are taken in program order.  \<open>Dispatch_Protocol\<close> refines the steps of scheduling,
  dispatching and killing to interleavings.

  User code is a parameter: what \<open>on_message\<close> does is a list of calls back into the system, given
  by \<open>beh\<close>, and possibly an exception.  The \<open>on_destroy\<close> overrides of the repository make no such
  calls.  Text passed to \<open>error\<close> is the formatted message.
\<close>

section \<open>The sharded registry\<close>

definition shard_index :: "u32 \<Rightarrow> nat" where
  "shard_index h = unat (h AND 63)"

definition shard_find :: "(u32 \<times> obj) list list \<Rightarrow> u32 \<Rightarrow> obj option" where
  "shard_find shards h = map_of (shards ! shard_index h) h"

definition shard_insert :: "u32 \<Rightarrow> obj \<Rightarrow> (u32 \<times> obj) list list \<Rightarrow> (u32 \<times> obj) list list" where
  "shard_insert h q shards = shards[shard_index h := AList.update h q (shards ! shard_index h)]"

definition shard_erase :: "u32 \<Rightarrow> (u32 \<times> obj) list list \<Rightarrow> (u32 \<times> obj) list list" where
  "shard_erase h shards = shards[shard_index h := AList.delete h (shards ! shard_index h)]"

definition grab_queue :: "system \<Rightarrow> u32 \<Rightarrow> obj option" where
  "grab_queue s h = shard_find (actor_shards s) h"

section \<open>Names\<close>

definition register_name :: "string \<Rightarrow> u32 \<Rightarrow> system \<Rightarrow> system" where
  "register_name name h s =
     (let s1 = s\<lparr>names := AList.update name h (names s)\<rparr>
      in if name = ''logger'' then s1\<lparr>logger_handle := h\<rparr> else s1)"

definition find_name :: "system \<Rightarrow> string \<Rightarrow> u32" where
  "find_name s name = (case map_of (names s) name of None \<Rightarrow> 0 | Some h \<Rightarrow> h)"

section \<open>Scheduling a queue\<close>

definition enqueue_global :: "obj \<Rightarrow> system \<Rightarrow> system" where
  "enqueue_global q s =
     (let s1 = s\<lparr>global_queue := global_queue s @ [(cur_thread s, Some q)],
                 global_queue_count := global_queue_count s + 1\<rparr>;
          queued = global_queue_count s1;
          sleeping = sleeping_workers s1
      in if sleeping > 0 \<and> queued \<le> sleeping
         then emit EvNotifyOne (s1\<lparr>global_queue_epoch := global_queue_epoch s1 + 1\<rparr>) else s1)"

definition schedule_queue :: "obj \<Rightarrow> system \<Rightarrow> system" where
  "schedule_queue q s =
     (if \<not> initialized (queue_of s q) then s
      else if schedule_state (queue_of s q) = 0
      then enqueue_global q (upd_queue q (\<lambda>x. x\<lparr>schedule_state := 1\<rparr>) s)
      else s)"

definition push_global :: "u32 \<Rightarrow> system \<Rightarrow> system" where
  "push_global h s = (case grab_queue s h of None \<Rightarrow> s | Some q \<Rightarrow> schedule_queue q s)"

section \<open>Messaging\<close>

text \<open>The requests that get an error reply when they cannot be delivered.\<close>

definition wants_reply :: "message \<Rightarrow> bool" where
  "wants_reply msg \<longleftrightarrow>
     session msg \<noteq> 0 \<and> source msg \<noteq> 0 \<and> mtype msg \<noteq> PTYPE_RESPONSE \<and> mtype msg \<noteq> PTYPE_ERROR"

definition error_reply :: "message \<Rightarrow> message" where
  "error_reply msg = \<lparr>source = 0, session = session msg, mtype = PTYPE_ERROR, mdata = Monostate\<rparr>"

definition free_owned_message_data :: "message \<Rightarrow> system \<Rightarrow> system" where
  "free_owned_message_data msg s =
     (case mdata msg of SeriData p n \<Rightarrow> emit (EvFree p) s | _ \<Rightarrow> s)"

definition next_threshold :: "nat \<Rightarrow> nat" where
  "next_threshold threshold = (if threshold > SIZE_MAX div 2 then SIZE_MAX else threshold * 2)"

definition raise_threshold :: "obj \<Rightarrow> system \<Rightarrow> system" where
  "raise_threshold q s =
     upd_queue q (\<lambda>x. x\<lparr>overload_threshold := next_threshold (overload_threshold x)\<rparr>) s"

text \<open>The queue a message to \<open>dest\<close> is put into, if there is one that accepts messages.\<close>

definition receiver :: "system \<Rightarrow> u32 \<Rightarrow> obj option" where
  "receiver s dest =
     (case grab_queue s dest of
        None \<Rightarrow> None
      | Some q \<Rightarrow> if accepting (queue_of s q) then Some q else None)"

definition enqueue_mail :: "obj \<Rightarrow> message \<Rightarrow> system \<Rightarrow> system" where
  "enqueue_mail q msg s =
     emit (EvEnqueue q (cur_thread s, msg))
       (upd_queue q (\<lambda>x. x\<lparr>mailbox := mailbox x @ [(cur_thread s, msg)],
                           mailbox_count := mailbox_count x + 1\<rparr>) s)"

text \<open>\<open>printf\<close> conversions used in runtime messages: \<open>%zu\<close>, \<open>%d\<close> and \<open>%08x\<close>.\<close>

definition digit_char :: "nat \<Rightarrow> char" where
  "digit_char d = (if d < 10 then char_of (48 + d) else char_of (87 + d))"

fun show_nat :: "nat \<Rightarrow> string" where
  "show_nat n = (if n < 10 then [digit_char n] else show_nat (n div 10) @ [digit_char (n mod 10)])"

declare show_nat.simps [simp del]

definition show_hex8 :: "u32 \<Rightarrow> string" where
  "show_hex8 w = map (\<lambda>i. digit_char (unat (drop_bit (4 * i) w AND 15))) [7, 6, 5, 4, 3, 2, 1, 0]"

definition overload_text :: "nat \<Rightarrow> string" where
  "overload_text qsize = ''mailbox overloaded: ~'' @ show_nat qsize @ '' pending messages''"

text \<open>
  \<open>push_message\<close> and \<open>error\<close> call each other: an undeliverable request pushes an error reply, a
  mailbox that crosses its threshold reports to the logger.  The first argument bounds the
  nesting; \<open>too_deep\<close> records that it was exceeded.  \<open>error\<close> keeps 511 bytes of its text.
\<close>

fun push_message_n :: "nat \<Rightarrow> u32 \<Rightarrow> message \<Rightarrow> system \<Rightarrow> system"
  and error_n :: "nat \<Rightarrow> u32 \<Rightarrow> string \<Rightarrow> system \<Rightarrow> system" where
  "push_message_n 0 dest msg s = s\<lparr>too_deep := True\<rparr>"
| "push_message_n (Suc n) dest msg s =
     (case receiver s dest of
        None \<Rightarrow>
          free_owned_message_data msg
            (if wants_reply msg then push_message_n n (source msg) (error_reply msg) s else s)
      | Some q \<Rightarrow>
          (let s1 = enqueue_mail q msg s;
               qsize = mailbox_count (queue_of s1 q);
               s2 = (if qsize \<ge> overload_threshold (queue_of s1 q)
                     then error_n n dest (overload_text qsize) (raise_threshold q s1)
                     else s1)
           in if \<not> initialized (queue_of s2 q) then s2 else schedule_queue q s2))"
| "error_n 0 src what s = s\<lparr>too_deep := True\<rparr>"
| "error_n (Suc n) src what s =
     (let line = take 511 what;
          lh = (if logger_handle s = 0 then find_name s ''logger'' else logger_handle s);
          s1 = s\<lparr>logger_handle := lh\<rparr>
      in if lh \<noteq> 0
         then push_message_n n lh \<lparr>source = src, session = 0, mtype = PTYPE_ERROR, mdata = Text line\<rparr> s1
         else emit (EvStderr src line) s1)"

declare push_message_n.simps [simp del] error_n.simps [simp del]

abbreviation (input) NESTING :: nat where "NESTING \<equiv> 8"

definition push_message :: "u32 \<Rightarrow> message \<Rightarrow> system \<Rightarrow> system" where
  "push_message dest msg s = push_message_n NESTING dest msg s"

definition error :: "u32 \<Rightarrow> string \<Rightarrow> system \<Rightarrow> system" where
  "error src what s = error_n NESTING src what s"

definition send :: "u32 \<Rightarrow> u32 \<Rightarrow> int \<Rightarrow> i32 \<Rightarrow> payload \<Rightarrow> system \<Rightarrow> system" where
  "send src dest type ses data s =
     push_message dest \<lparr>source = src, session = ses, mtype = type, mdata = data\<rparr> s"

definition timeout :: "u32 \<Rightarrow> i32 \<Rightarrow> int \<Rightarrow> system \<Rightarrow> system" where
  "timeout dest ses delay s =
     (if delay \<le> 0 then send 0 dest PTYPE_RESPONSE ses Monostate s
      else s\<lparr>timers := timers s @ [(dest, ses, delay)]\<rparr>)"

text \<open>The completion handler of the \<open>i\<close>-th pending timer; an error code cancels the message.\<close>

definition timer_fire :: "nat \<Rightarrow> bool \<Rightarrow> system \<Rightarrow> system" where
  "timer_fire i ec s =
     (if i < length (timers s) then
        (let (dest, ses, delay) = timers s ! i;
             s1 = s\<lparr>timers := take i (timers s) @ drop (Suc i) (timers s)\<rparr>
         in if \<not> ec then send 0 dest PTYPE_RESPONSE ses Monostate s1 else s1)
      else s)"

section \<open>Draining a mailbox\<close>

text \<open>
  The loop of \<open>drain_queue\<close> ends although it may itself push messages: what it pushes are error
  messages, and those are dropped without a reply.
\<close>

definition only_errors_added :: "system \<Rightarrow> system \<Rightarrow> bool" where
  "only_errors_added s s' \<longleftrightarrow>
     (\<forall>q. \<exists>xs. mailbox (queue_of s' q) = mailbox (queue_of s q) @ xs \<and>
            list_all (\<lambda>x. \<not> wants_reply (snd x)) xs)"

lemma only_errors_added_refl: "only_errors_added s s"
  by (simp add: only_errors_added_def)

lemma only_errors_added_same:
  "queue_of s' = queue_of s \<Longrightarrow> only_errors_added s s'"
  by (simp add: only_errors_added_def)

lemma only_errors_added_trans [trans]:
  "only_errors_added s s' \<Longrightarrow> only_errors_added s' s'' \<Longrightarrow> only_errors_added s s''"
  unfolding only_errors_added_def
proof
  fix q
  assume a: "\<forall>q. \<exists>xs. mailbox (queue_of s' q) = mailbox (queue_of s q) @ xs \<and>
      list_all (\<lambda>x. \<not> wants_reply (snd x)) xs"
    and b: "\<forall>q. \<exists>xs. mailbox (queue_of s'' q) = mailbox (queue_of s' q) @ xs \<and>
      list_all (\<lambda>x. \<not> wants_reply (snd x)) xs"
  from a obtain xs where "mailbox (queue_of s' q) = mailbox (queue_of s q) @ xs"
    "list_all (\<lambda>x. \<not> wants_reply (snd x)) xs" by blast
  moreover from b obtain ys where "mailbox (queue_of s'' q) = mailbox (queue_of s' q) @ ys"
    "list_all (\<lambda>x. \<not> wants_reply (snd x)) ys" by blast
  ultimately show "\<exists>xs. mailbox (queue_of s'' q) = mailbox (queue_of s q) @ xs \<and>
      list_all (\<lambda>x. \<not> wants_reply (snd x)) xs"
    by (intro exI [of _ "xs @ ys"]) simp
qed

lemma schedule_queue_mailbox [simp]:
  "mailbox (queue_of (schedule_queue q s) q') = mailbox (queue_of s q')"
  by (simp add: schedule_queue_def enqueue_global_def Let_def)

lemma only_errors_added_schedule: "only_errors_added s (schedule_queue q s)"
  by (simp add: only_errors_added_def)

lemma not_wants_reply_error: "mtype msg = PTYPE_ERROR \<Longrightarrow> \<not> wants_reply msg"
  by (simp add: wants_reply_def)

lemma free_owned_queue_of [simp]: "queue_of (free_owned_message_data msg s) = queue_of s"
  by (simp add: free_owned_message_data_def split: payload.splits)

lemma errors_add_only_errors:
  "mtype msg = PTYPE_ERROR \<Longrightarrow> only_errors_added s (push_message_n n dest msg s)"
  "only_errors_added s (error_n n src what s)"
proof (induction n dest msg s and n src what s rule: push_message_n_error_n.induct)
  case (1 dest msg s)
  then show ?case by (simp add: push_message_n.simps only_errors_added_same)
next
  case (2 n dest msg s)
  have nr: "\<not> wants_reply msg" using "2.prems" by (rule not_wants_reply_error)
  show ?case
  proof (cases "receiver s dest")
    case None
    with nr show ?thesis by (simp add: push_message_n.simps only_errors_added_same)
  next
    case (Some q)
    define s1 where "s1 = enqueue_mail q msg s"
    let ?qs = "mailbox_count (queue_of s1 q)" and ?th = "overload_threshold (queue_of s1 q)"
    define s2 where "s2 = (if ?qs \<ge> ?th then error_n n dest (overload_text ?qs) (raise_threshold q s1) else s1)"
    have "only_errors_added s s1"
      using nr by (simp add: s1_def enqueue_mail_def only_errors_added_def)
    also have "only_errors_added s1 s2"
    proof (cases "?qs \<ge> ?th")
      case True
      have "only_errors_added s1 (raise_threshold q s1)"
        by (simp add: only_errors_added_def raise_threshold_def)
      also have "only_errors_added \<dots> s2"
        using "2.IH"(2) [OF Some s1_def refl] True by (simp add: s2_def)
      finally show ?thesis .
    next
      case False
      then show ?thesis by (simp add: s2_def only_errors_added_refl)
    qed
    also have "only_errors_added s2 (if \<not> initialized (queue_of s2 q) then s2 else schedule_queue q s2)"
      by (simp add: only_errors_added_refl only_errors_added_schedule)
    finally show ?thesis
      using Some by (simp only: push_message_n.simps s1_def s2_def Let_def option.case)
  qed
next
  case (3 src what s)
  then show ?case by (simp add: error_n.simps only_errors_added_same)
next
  case (4 n src what s)
  let ?lh = "if logger_handle s = 0 then find_name s ''logger'' else logger_handle s"
  let ?s1 = "s\<lparr>logger_handle := ?lh\<rparr>"
  let ?msg = "\<lparr>source = src, session = 0, mtype = PTYPE_ERROR, mdata = Text (take 511 what)\<rparr>"
  have a: "only_errors_added s ?s1" by (simp add: only_errors_added_same)
  show ?case
  proof (cases "?lh = 0")
    case True
    then show ?thesis by (simp add: error_n.simps Let_def only_errors_added_same)
  next
    case False
    with "4.IH" [OF refl refl refl] have "only_errors_added ?s1 (push_message_n n ?lh ?msg ?s1)" by simp
    with a False show ?thesis
      using only_errors_added_trans by (simp only: error_n.simps Let_def if_True not_False_eq_True)
  qed
qed

text \<open>One iteration of the loop: the message \<open>pm\<close> has left the mailbox.\<close>

definition drop_mail :: "obj \<Rightarrow> nat \<times> message \<Rightarrow> (nat \<times> message) list \<Rightarrow> system \<Rightarrow> system" where
  "drop_mail q pm rest s =
     (let s1 = emit (EvDrop q pm)
            (upd_queue q (\<lambda>x. x\<lparr>mailbox := rest, mailbox_count := mailbox_count x - 1\<rparr>) s);
          msg = snd pm
      in free_owned_message_data msg
           (if wants_reply msg then send 0 (source msg) PTYPE_ERROR (session msg) Monostate s1 else s1))"

lemma drop_mail_mailbox:
  "\<exists>xs. mailbox (queue_of (drop_mail q pm rest s) q) = rest @ xs \<and>
        list_all (\<lambda>x. \<not> wants_reply (snd x)) xs \<and> (\<not> wants_reply (snd pm) \<longrightarrow> xs = [])"
proof (cases "wants_reply (snd pm)")
  case True
  let ?s1 = "emit (EvDrop q pm)
    (upd_queue q (\<lambda>x. x\<lparr>mailbox := rest, mailbox_count := mailbox_count x - 1\<rparr>) s)"
  have "only_errors_added ?s1 (send 0 (source (snd pm)) PTYPE_ERROR (session (snd pm)) Monostate ?s1)"
    unfolding send_def push_message_def by (rule errors_add_only_errors) simp
  then have "\<exists>xs. mailbox (queue_of (send 0 (source (snd pm)) PTYPE_ERROR (session (snd pm)) Monostate ?s1) q) =
      mailbox (queue_of ?s1 q) @ xs \<and> list_all (\<lambda>x. \<not> wants_reply (snd x)) xs"
    unfolding only_errors_added_def by blast
  with True show ?thesis by (simp add: drop_mail_def Let_def)
next
  case False
  then show ?thesis by (simp add: drop_mail_def Let_def)
qed

function drain_loop :: "(nat list \<Rightarrow> nat) \<Rightarrow> obj \<Rightarrow> system \<Rightarrow> system" where
  "drain_loop pick q s =
     (case try_dequeue pick (mailbox (queue_of s q)) of
        None \<Rightarrow> s
      | Some (pm, rest) \<Rightarrow> drain_loop pick q (drop_mail q pm rest s))"
  by pat_completeness auto
termination
proof (relation "measures [\<lambda>(pick, q, s). length (filter (wants_reply \<circ> snd) (mailbox (queue_of s q))),
      \<lambda>(pick, q, s). length (mailbox (queue_of s q))]", goal_cases)
  case (2 pick q s x pm rest)
  then have d: "try_dequeue pick (mailbox (queue_of s q)) = Some (pm, rest)" by simp
  obtain xs where xs: "mailbox (queue_of (drop_mail q pm rest s) q) = rest @ xs"
    "list_all (\<lambda>x. \<not> wants_reply (snd x)) xs" "\<not> wants_reply (snd pm) \<longrightarrow> xs = []"
    using drop_mail_mailbox by blast
  have "filter (wants_reply \<circ> snd) xs = []"
    using xs(2) by (simp add: filter_empty_conv list_all_iff)
  with xs try_dequeue_SomeD [OF d] show ?case by (cases "wants_reply (snd pm)") auto
qed simp

declare drain_loop.simps [simp del]

text \<open>What every iteration does, the loop does.\<close>

lemma drain_loop_rel:
  assumes refl: "\<And>t. R t t" and trans: "\<And>t u v. R t u \<Longrightarrow> R u v \<Longrightarrow> R t v"
    and step: "\<And>t pm rest. R t (drop_mail q pm rest t)"
  shows "R s (drain_loop pick q s)"
  using step
proof (induction pick q s rule: drain_loop.induct)
  case (1 pick q s)
  show ?case
  proof (cases "try_dequeue pick (mailbox (queue_of s q))")
    case None
    then show ?thesis by (subst drain_loop.simps) (simp add: refl)
  next
    case (Some p)
    obtain pm rest where p: "p = (pm, rest)" by fastforce
    have "R (drop_mail q pm rest s) (drain_loop pick q (drop_mail q pm rest s))"
      by (rule "1.IH" [OF Some p [symmetric] "1.prems"])
    with "1.prems" have "R s (drain_loop pick q (drop_mail q pm rest s))" by (rule trans)
    with Some p show ?thesis by (subst drain_loop.simps) simp
  qed
qed

definition drain_queue :: "(nat list \<Rightarrow> nat) \<Rightarrow> obj \<Rightarrow> system \<Rightarrow> system" where
  "drain_queue pick q s = upd_queue q (\<lambda>x. x\<lparr>mailbox_count := 0\<rparr>) (drain_loop pick q s)"

section \<open>Actor lifecycle\<close>

definition queue_owner :: "obj \<Rightarrow> system \<Rightarrow> obj option" where
  "queue_owner q s = owner (queue_of s q)"

definition clear_queue_owner :: "obj \<Rightarrow> obj option \<Rightarrow> system \<Rightarrow> system" where
  "clear_queue_owner q a s =
     (if a = None \<or> owner (queue_of s q) = a then upd_queue q (\<lambda>x. x\<lparr>owner := None\<rparr>) s else s)"

definition destroy_actor :: "obj \<Rightarrow> system \<Rightarrow> system" where
  "destroy_actor a s =
     (if destroyed (actor_of s a) then s
      else emit (EvDestroy a) (upd_actor a (\<lambda>x. x\<lparr>destroyed := True\<rparr>) s))"

definition stop_accepting :: "obj \<Rightarrow> system \<Rightarrow> system" where
  "stop_accepting q s = upd_queue q (\<lambda>x. x\<lparr>accepting := False, releasing := True\<rparr>) s"

definition kill :: "(nat list \<Rightarrow> nat) \<Rightarrow> u32 \<Rightarrow> system \<Rightarrow> system" where
  "kill pick h s =
     (case grab_queue s h of
        None \<Rightarrow> s
      | Some q \<Rightarrow>
          (let s1 = s\<lparr>actor_shards := shard_erase h (actor_shards s)\<rparr>;
               s2 = (if logger_handle s1 = h then s1\<lparr>logger_handle := 0\<rparr> else s1);
               s3 = stop_accepting q s2
           in case queue_owner q s3 of
                None \<Rightarrow> schedule_queue q s3
              | Some a \<Rightarrow>
                  (let s4 = upd_actor a (\<lambda>x. x\<lparr>destroy_requested := True\<rparr>) s3
                   in if dispatch_depth (actor_of s4 a) = 0 then
                        upd_queue q (\<lambda>x. x\<lparr>schedule_state := 0\<rparr>)
                          (clear_queue_owner q (Some a) (destroy_actor a (drain_queue pick q s4)))
                      else schedule_queue q s4)))"

definition alloc_session :: "obj \<Rightarrow> system \<Rightarrow> i32 \<times> system" where
  "alloc_session a s =
     (next_session (actor_of s a), upd_actor a (\<lambda>x. x\<lparr>next_session := next_session x + 1\<rparr>) s)"

definition shutdown :: "system \<Rightarrow> system" where
  "shutdown s =
     (if \<not> running s then s
      else
        emit EvNotifyAll
          (s\<lparr>running := False,
             global_queue := global_queue s @ replicate (nat (worker_count s)) (cur_thread s, None),
             global_queue_count := global_queue_count s + int (nat (worker_count s)),
             global_queue_epoch := global_queue_epoch s + 1\<rparr>))"

text \<open>
  The calls user code makes: \<open>Actor::send\<close>, \<open>Actor::send_request\<close>, \<open>Actor::reply\<close> and
  \<open>Actor::timeout\<close>, \<open>ActorSystem::send\<close>, \<open>kill\<close>, \<open>register_name\<close>, \<open>error\<close>, \<open>spawn\<close> of an actor whose
  \<open>on_init\<close> makes the given calls and then returns, calls \<open>mark_init_failed\<close> or throws, and
  \<open>Actor::gen_session\<close>, \<open>ActorSystem::timeout\<close>, \<open>ActorSystem::shutdown\<close> and \<open>free\<close> of a received buffer.
\<close>

datatype init_outcome = InitOk | InitFailed | InitThrows string

datatype action =
    ASend u32 int payload
  | ARequest u32 int payload
  | AReply message payload
  | ATimeout int
  | ASystemSend u32 u32 int i32 payload
  | AKill u32
  | ARegister string u32
  | AError string
  | ASpawn "action list" init_outcome
  | AGenSession
  | ASystemTimeout u32 i32 int
  | AShutdown
  | AFree u64

text \<open>The first half of \<open>spawn\<close>: the objects and the registration.\<close>

definition spawn_begin :: "system \<Rightarrow> obj \<times> u32 \<times> system" where
  "spawn_begin s =
     (let q = next_obj s; h = next_handle s
      in (q, h,
          s\<lparr>next_obj := q + 1, next_handle := h + 1,
            actor_of := (actor_of s)(q := new_actor),
            queue_of := (queue_of s)(q := new_queue\<lparr>handle := h, owner := Some q\<rparr>),
            actor_shards := shard_insert h q (actor_shards s)\<rparr>))"

text \<open>The second half: what follows \<open>on_init\<close>.\<close>

definition spawn_end :: "(nat list \<Rightarrow> nat) \<Rightarrow> obj \<Rightarrow> u32 \<Rightarrow> system \<Rightarrow> u32 \<times> system" where
  "spawn_end pick q h s =
     (if init_failed (actor_of s q) then
        (let s1 = (if grab_queue s h = Some q
                   then s\<lparr>actor_shards := shard_erase h (actor_shards s)\<rparr> else s);
             s2 = drain_queue pick q (stop_accepting q s1)
         in (0, clear_queue_owner q (Some q) (destroy_actor q s2)))
      else
        (let s1 = upd_queue q (\<lambda>x. x\<lparr>initialized := True\<rparr>) s
         in (h, if mailbox_count (queue_of s1 q) > 0 then schedule_queue q s1 else s1)))"

definition init_result :: "obj \<Rightarrow> u32 \<Rightarrow> init_outcome \<Rightarrow> system \<Rightarrow> system" where
  "init_result q h out s =
     (case out of
        InitOk \<Rightarrow> s
      | InitFailed \<Rightarrow> upd_actor q (\<lambda>x. x\<lparr>init_failed := True\<rparr>) s
      | InitThrows what \<Rightarrow>
          upd_actor q (\<lambda>x. x\<lparr>init_failed := True\<rparr>) (error h (''actor init failed: '' @ what) s))"

fun run_action :: "(nat list \<Rightarrow> nat) \<Rightarrow> obj \<Rightarrow> u32 \<Rightarrow> action \<Rightarrow> system \<Rightarrow> system"
  and run_actions :: "(nat list \<Rightarrow> nat) \<Rightarrow> obj \<Rightarrow> u32 \<Rightarrow> action list \<Rightarrow> system \<Rightarrow> system" where
  "run_action pick a h (ASend dest type data) s = send h dest type 0 data s"
| "run_action pick a h (ARequest dest type data) s =
     (let (ses, s1) = alloc_session a s in send h dest type ses data s1)"
| "run_action pick a h (AReply original data) s =
     send h (source original) PTYPE_RESPONSE (session original) data s"
| "run_action pick a h (ATimeout delay) s =
     (let (ses, s1) = alloc_session a s in timeout h ses delay s1)"
| "run_action pick a h (ASystemSend src dest type ses data) s = send src dest type ses data s"
| "run_action pick a h (AKill dest) s = kill pick dest s"
| "run_action pick a h (ARegister name dest) s = register_name name dest s"
| "run_action pick a h (AError what) s = error h what s"
| "run_action pick a h (ASpawn acts out) s =
     (let (q, h', s1) = spawn_begin s
      in snd (spawn_end pick q h' (init_result q h' out (run_actions pick q h' acts s1))))"
| "run_action pick a h AGenSession s = snd (alloc_session a s)"
| "run_action pick a h (ASystemTimeout dest ses delay) s = timeout dest ses delay s"
| "run_action pick a h AShutdown s = shutdown s"
| "run_action pick a h (AFree p) s = emit (EvFree p) s"
| "run_actions pick a h [] s = s"
| "run_actions pick a h (act # acts) s = run_actions pick a h acts (run_action pick a h act s)"

definition spawn :: "(nat list \<Rightarrow> nat) \<Rightarrow> action list \<Rightarrow> init_outcome \<Rightarrow> system \<Rightarrow> u32 \<times> system" where
  "spawn pick acts out s =
     (let (q, h, s1) = spawn_begin s
      in spawn_end pick q h (init_result q h out (run_actions pick q h acts s1)))"

section \<open>Dispatching\<close>

definition calc_weight :: "int \<Rightarrow> int \<Rightarrow> int" where
  "calc_weight workers worker_id =
     (let quarter = workers div 4
      in if quarter < 1 then 0
         else if worker_id < quarter then -1
         else if worker_id < quarter * 2 then 0
         else if worker_id < quarter * 3 then 1
         else 2)"

definition batch_size :: "int \<Rightarrow> nat \<Rightarrow> nat" where
  "batch_size weight qsize =
     (if weight < 0 then 1
      else if weight = 0 then (if qsize > 0 then qsize else 1)
      else (let b = drop_bit (nat weight) qsize in if b < 1 then 1 else b))"

definition upd_monitor :: "nat \<Rightarrow> (worker_monitor \<Rightarrow> worker_monitor) \<Rightarrow> system \<Rightarrow> system" where
  "upd_monitor w f s = s\<lparr>monitors := (monitors s)(w := f (monitors s w))\<rparr>"

text \<open>What \<open>on_message\<close> does with a message: calls into the system, then perhaps an exception.\<close>

type_synonym behaviour = "system \<Rightarrow> obj \<Rightarrow> message \<Rightarrow> action list \<times> string option"

definition deliver ::
    "(nat list \<Rightarrow> nat) \<Rightarrow> behaviour \<Rightarrow> nat \<Rightarrow> obj \<Rightarrow> obj \<Rightarrow> nat \<times> message \<Rightarrow> (nat \<times> message) list \<Rightarrow> system \<Rightarrow> system" where
  "deliver pick beh w q a pm rest s =
     (let s1 = upd_queue q (\<lambda>x. x\<lparr>mailbox := rest, mailbox_count := mailbox_count x - 1\<rparr>) s;
          h = handle (queue_of s1 q);
          s2 = emit (EvDeliver q pm) (upd_monitor w (mon_begin (source (snd pm)) h) s1);
          (acts, exc) = beh s2 a (snd pm);
          s3 = run_actions pick a h acts s2;
          s4 = (case exc of None \<Rightarrow> s3 | Some what \<Rightarrow> error h (''exception: '' @ what) s3)
      in upd_monitor w mon_end s4)"

text \<open>The message loop, with \<open>batch - count\<close> iterations left.\<close>

fun dispatch_loop ::
    "(nat list \<Rightarrow> nat) \<Rightarrow> behaviour \<Rightarrow> nat \<Rightarrow> obj \<Rightarrow> obj \<Rightarrow> nat \<Rightarrow> system \<Rightarrow> system" where
  "dispatch_loop pick beh w q a 0 s = s"
| "dispatch_loop pick beh w q a (Suc k) s =
     (if destroy_requested (actor_of s a) \<or> releasing (queue_of s q) then s
      else case try_dequeue pick (mailbox (queue_of s q)) of
             None \<Rightarrow> s
           | Some (pm, rest) \<Rightarrow> dispatch_loop pick beh w q a k (deliver pick beh w q a pm rest s))"

definition set_state :: "obj \<Rightarrow> nat \<Rightarrow> system \<Rightarrow> system" where
  "set_state q st s = upd_queue q (\<lambda>x. x\<lparr>schedule_state := st\<rparr>) s"

text \<open>After the loop: retire, requeue or go idle.\<close>

definition dispatch_finish :: "(nat list \<Rightarrow> nat) \<Rightarrow> obj \<Rightarrow> obj \<Rightarrow> system \<Rightarrow> system" where
  "dispatch_finish pick q a s =
     (if releasing (queue_of s q) \<or> destroy_requested (actor_of s a) then
        set_state q 0 (drain_queue pick q s)
      else if mailbox_count (queue_of s q) > 0 then enqueue_global q (set_state q 1 s)
      else
        (let s1 = upd_queue q (\<lambda>x. x\<lparr>overload_threshold := OVERLOAD_THRESHOLD\<rparr>) (set_state q 0 s)
         in if \<not> destroy_requested (actor_of s1 a) \<and> \<not> releasing (queue_of s1 q) \<and>
               mailbox_count (queue_of s1 q) > 0
            then schedule_queue q s1 else s1))"

text \<open>The epilogue: the last dispatcher of a doomed actor destroys it.\<close>

definition dispatch_leave :: "obj \<Rightarrow> obj \<Rightarrow> bool \<Rightarrow> system \<Rightarrow> system" where
  "dispatch_leave q a doomed s =
     (let depth = dispatch_depth (actor_of s a);
          s1 = upd_actor a (\<lambda>x. x\<lparr>dispatch_depth := dispatch_depth x - 1\<rparr>) s
      in if depth = 1 \<and> doomed then clear_queue_owner q (Some a) (destroy_actor a s1) else s1)"

definition dispatch_queue ::
    "(nat list \<Rightarrow> nat) \<Rightarrow> behaviour \<Rightarrow> int \<Rightarrow> nat \<Rightarrow> obj \<Rightarrow> system \<Rightarrow> system" where
  "dispatch_queue pick beh weight w q s =
     (if schedule_state (queue_of s q) \<noteq> 1 \<and> schedule_state (queue_of s q) \<noteq> 2 then s
      else
        (let s1 = set_state q 2 s
         in case queue_owner q s1 of
              None \<Rightarrow> set_state q 0 (drain_queue pick q s1)
            | Some a \<Rightarrow>
                (let s2 = upd_actor a (\<lambda>x. x\<lparr>dispatch_depth := dispatch_depth x + 1\<rparr>) s1
                 in if releasing (queue_of s2 q) \<or> destroy_requested (actor_of s2 a) then
                      dispatch_leave q a True (set_state q 0 (drain_queue pick q s2))
                    else
                      (let batch = batch_size weight (mailbox_count (queue_of s2 q));
                           s3 = dispatch_finish pick q a (dispatch_loop pick beh w q a batch s2)
                       in dispatch_leave q a
                            (destroy_requested (actor_of s3 a) \<or> releasing (queue_of s3 q)) s3))))"

text \<open>
  One turn of \<open>worker_loop\<close> of worker \<open>w\<close>: take a queue off the global queue and dispatch it.
  \<open>None\<close> on the queue is the null pointer \<open>shutdown\<close> posts.
\<close>

definition worker_turn ::
    "(nat list \<Rightarrow> nat) \<Rightarrow> (nat list \<Rightarrow> nat) \<Rightarrow> behaviour \<Rightarrow> nat \<Rightarrow> system \<Rightarrow> system" where
  "worker_turn gpick pick beh w s =
     (if \<not> running s then s
      else case try_dequeue gpick (global_queue s) of
             None \<Rightarrow> s
           | Some ((p, qo), rest) \<Rightarrow>
               (let s1 = s\<lparr>global_queue := rest, global_queue_count := global_queue_count s - 1,
                           cur_thread := w\<rparr>
                in case qo of
                     None \<Rightarrow> s1
                   | Some q \<Rightarrow> dispatch_queue pick beh (calc_weight (worker_count s) (int w)) w q s1))"

section \<open>Queries\<close>

definition actor_count :: "system \<Rightarrow> nat" where
  "actor_count s = fold (\<lambda>shard n. n + length shard) (actor_shards s) 0"

record system_stats =
  st_running :: bool
  st_worker_count :: int
  st_actor_count :: nat
  st_global_queue_count :: int
  st_sleeping_workers :: int
  st_global_queue_epoch :: u64
  st_queued_messages :: nat
  st_active_queues :: nat
  st_releasing_queues :: nat

definition stats_queue :: "system \<Rightarrow> obj \<Rightarrow> system_stats \<Rightarrow> system_stats" where
  "stats_queue s q st =
     st\<lparr>st_queued_messages := st_queued_messages st + mailbox_count (queue_of s q),
        st_active_queues := st_active_queues st + (if schedule_state (queue_of s q) \<noteq> 0 then 1 else 0),
        st_releasing_queues := st_releasing_queues st + (if releasing (queue_of s q) then 1 else 0)\<rparr>"

definition stats :: "system \<Rightarrow> system_stats" where
  "stats s =
     fold (\<lambda>shard st.
        fold (\<lambda>p. stats_queue s (snd p)) shard (st\<lparr>st_actor_count := st_actor_count st + length shard\<rparr>))
       (actor_shards s)
       \<lparr>st_running = running s, st_worker_count = worker_count s, st_actor_count = 0,
        st_global_queue_count = global_queue_count s, st_sleeping_workers = sleeping_workers s,
        st_global_queue_epoch = global_queue_epoch s, st_queued_messages = 0,
        st_active_queues = 0, st_releasing_queues = 0\<rparr>"

section \<open>Run\<close>

definition run_begin :: "system \<Rightarrow> system" where
  "run_begin s = s\<lparr>running := True, monitors := (\<lambda>i. new_monitor)\<rparr>"

text \<open>The cleanup of \<open>run\<close> after all threads have been joined.\<close>

definition cleanup_queue :: "(nat list \<Rightarrow> nat) \<Rightarrow> obj \<Rightarrow> system \<Rightarrow> system" where
  "cleanup_queue pick q s =
     (let s1 = stop_accepting q s
      in drain_queue pick q
           (case queue_owner q s1 of
              None \<Rightarrow> s1
            | Some a \<Rightarrow> clear_queue_owner q (Some a)
                         (destroy_actor a (upd_actor a (\<lambda>x. x\<lparr>destroy_requested := True\<rparr>) s1))))"

definition run_end :: "(nat list \<Rightarrow> nat) \<Rightarrow> system \<Rightarrow> system" where
  "run_end pick s =
     (let remaining = map snd (concat (actor_shards s))
      in fold (cleanup_queue pick) remaining (s\<lparr>actor_shards := map (\<lambda>shard. []) (actor_shards s)\<rparr>))"

section \<open>The monitor thread\<close>

definition stuck_text :: "nat \<Rightarrow> u32 \<Rightarrow> u32 \<Rightarrow> string" where
  "stuck_text i src dst =
     ''worker #'' @ show_nat i @ '' may be stuck: processing msg from '' @ show_hex8 src @
     '' -> '' @ show_hex8 dst"

definition monitor_worker :: "nat \<Rightarrow> system \<Rightarrow> system" where
  "monitor_worker i s =
     (let (stuck, m) = mon_check (monitors s i); s1 = upd_monitor i (\<lambda>x. m) s
      in if stuck \<and> mon_destination m \<noteq> 0
         then error (mon_destination m) (stuck_text i (mon_source m) (mon_destination m)) s1
         else s1)"

text \<open>One round of \<open>monitor_loop\<close>.\<close>

definition monitor_round :: "system \<Rightarrow> system" where
  "monitor_round s =
     (if running s then fold monitor_worker [0..<nat (worker_count s)] s else s)"

end
