(* ===== verification/Actor_Invariants.thy ===== *)
theory Actor_Invariants
  imports Actor_System
begin

text \<open>
  The invariant of the actor system and its preservation by every operation.  The registry laws are
  a locale, interpreted on the 64 shards.  The invariant is stated per queue over a view of the
  state (the queue, its actor, its entries in the global queue, its part of the trace), so that an
  operation only has to account for the queues whose view it changes.
\<close>

section \<open>The registry contract\<close>

locale registry =
  fixes ok :: "'r \<Rightarrow> bool"
    and find :: "'r \<Rightarrow> 'k \<Rightarrow> 'v option"
    and insert :: "'k \<Rightarrow> 'v \<Rightarrow> 'r \<Rightarrow> 'r"
    and erase :: "'k \<Rightarrow> 'r \<Rightarrow> 'r"
  assumes find_insert: "ok r \<Longrightarrow> find (insert k v r) k' = (if k' = k then Some v else find r k')"
    and find_erase: "ok r \<Longrightarrow> find (erase k r) k' = (if k' = k then None else find r k')"
    and ok_insert: "ok r \<Longrightarrow> ok (insert k v r)"
    and ok_erase: "ok r \<Longrightarrow> ok (erase k r)"
begin

lemma erase_insert: "ok r \<Longrightarrow> find r k = None \<Longrightarrow> find (erase k (insert k v r)) = find r"
  by (rule ext) (simp add: find_insert find_erase ok_insert)

lemma insert_commute:
  "ok r \<Longrightarrow> k \<noteq> k' \<Longrightarrow> find (insert k v (insert k' v' r)) = find (insert k' v' (insert k v r))"
  by (rule ext) (simp add: find_insert ok_insert)

lemma abs_insert: "ok r \<Longrightarrow> find (insert k v r) = (find r)(k \<mapsto> v)"
  by (rule ext) (simp add: find_insert)

lemma abs_erase: "ok r \<Longrightarrow> find (erase k r) = (find r)(k := None)"
  by (rule ext) (simp add: find_erase)

lemmas laws = find_insert find_erase ok_insert ok_erase

end

definition shards_ok :: "(u32 \<times> obj) list list \<Rightarrow> bool" where
  "shards_ok shards \<longleftrightarrow>
     length shards = ACTOR_SHARD_COUNT \<and>
     (\<forall>i < ACTOR_SHARD_COUNT. distinct (map fst (shards ! i)) \<and>
        fst ` set (shards ! i) \<subseteq> {h. shard_index h = i})"

lemma shard_index_less: "shard_index h < ACTOR_SHARD_COUNT"
proof -
  have "h AND 63 = h AND mask 6" by (simp add: mask_eq_exp_minus_1)
  then have "unat (h AND 63) = unat h mod 2 ^ 6"
    by (simp only: take_bit_eq_mask [symmetric] unsigned_take_bit_eq) (simp add: take_bit_eq_mod)
  then show ?thesis by (simp add: shard_index_def)
qed

interpretation reg: registry shards_ok shard_find shard_insert shard_erase
proof (unfold_locales, goal_cases)
  case (1 r k v k')
  then show ?case
    using shard_index_less [of k]
    by (cases "shard_index k' = shard_index k")
       (auto simp: shards_ok_def shard_find_def shard_insert_def update_conv' nth_list_update)
next
  case (2 r k k')
  then show ?case
    using shard_index_less [of k]
    by (cases "shard_index k' = shard_index k")
       (auto simp: shards_ok_def shard_find_def shard_erase_def delete_conv' nth_list_update)
next
  case (3 r k v)
  then show ?case
    unfolding shards_ok_def shard_insert_def
    using shard_index_less [of k] by (simp add: nth_list_update distinct_update dom_update)
next
  case (4 r k)
  then show ?case
    unfolding shards_ok_def shard_erase_def
    using shard_index_less [of k] dom_delete_subset [of k "r ! shard_index k"]
    by (simp add: nth_list_update distinct_delete subset_trans)
qed

section \<open>The view of one queue\<close>

fun about :: "obj \<Rightarrow> event \<Rightarrow> bool" where
  "about q (EvEnqueue q' pm) = (q' = q)"
| "about q (EvDeliver q' pm) = (q' = q)"
| "about q (EvDrop q' pm) = (q' = q)"
| "about q (EvDestroy q') = (q' = q)"
| "about q e = False"

text \<open>The events of a queue, in order, and its entries in the global queue.\<close>

definition events_of :: "obj \<Rightarrow> system \<Rightarrow> event list" where
  "events_of q s = filter (about q) (trace s)"

definition refs :: "obj \<Rightarrow> system \<Rightarrow> nat" where
  "refs q s = count_list (map snd (global_queue s)) (Some q)"

fun enqueued :: "event list \<Rightarrow> (nat \<times> message) list" where
  "enqueued [] = []"
| "enqueued (EvEnqueue q pm # es) = pm # enqueued es"
| "enqueued (e # es) = enqueued es"

fun consumed :: "event list \<Rightarrow> (nat \<times> message) list" where
  "consumed [] = []"
| "consumed (EvDeliver q pm # es) = pm # consumed es"
| "consumed (EvDrop q pm # es) = pm # consumed es"
| "consumed (e # es) = consumed es"

fun is_destroy :: "event \<Rightarrow> bool" where
  "is_destroy (EvDestroy q) = True"
| "is_destroy e = False"

fun is_deliver :: "event \<Rightarrow> bool" where
  "is_deliver (EvDeliver q pm) = True"
| "is_deliver e = False"

fun is_drop :: "event \<Rightarrow> bool" where
  "is_drop (EvDrop q pm) = True"
| "is_drop e = False"

text \<open>The messages handed to an actor, and those discarded with it.\<close>

fun handed :: "event list \<Rightarrow> (nat \<times> message) list" where
  "handed [] = []"
| "handed (EvDeliver q pm # es) = pm # handed es"
| "handed (e # es) = handed es"

fun dropped :: "event list \<Rightarrow> (nat \<times> message) list" where
  "dropped [] = []"
| "dropped (EvDrop q pm # es) = pm # dropped es"
| "dropped (e # es) = dropped es"

text \<open>No message is handed to an actor after its \<open>on_destroy\<close>, or after one has been discarded.\<close>

fun no_late_delivery :: "event list \<Rightarrow> bool" where
  "no_late_delivery [] = True"
| "no_late_delivery (e # es) = ((is_destroy e \<longrightarrow> \<not> list_ex is_deliver es) \<and> no_late_delivery es)"

fun drops_last :: "event list \<Rightarrow> bool" where
  "drops_last [] = True"
| "drops_last (e # es) = ((is_drop e \<longrightarrow> \<not> list_ex is_deliver es) \<and> drops_last es)"

lemma drops_last_snoc [simp]:
  "drops_last (es @ [e]) \<longleftrightarrow> drops_last es \<and> (is_deliver e \<longrightarrow> \<not> list_ex is_drop es)"
  by (induction es) auto

lemma handed_none: "\<not> list_ex is_deliver es \<Longrightarrow> handed es = [] \<and> consumed es = dropped es"
  by (induction es rule: consumed.induct) auto

lemma dropped_none: "\<not> list_ex is_drop es \<Longrightarrow> dropped es = []"
  by (induction es rule: dropped.induct) auto

lemma consumed_split: "drops_last es \<Longrightarrow> consumed es = handed es @ dropped es"
  by (induction es rule: consumed.induct) (auto simp: handed_none)

lemma set_handed: "pm \<in> set (handed es) \<longleftrightarrow> (\<exists>q. EvDeliver q pm \<in> set es)"
  by (induction es rule: handed.induct) auto

lemma enqueued_append [simp]: "enqueued (es @ es') = enqueued es @ enqueued es'"
  by (induction es rule: enqueued.induct) simp_all

lemma consumed_append [simp]: "consumed (es @ es') = consumed es @ consumed es'"
  by (induction es rule: consumed.induct) simp_all

lemma no_late_delivery_snoc [simp]:
  "no_late_delivery (es @ [e]) \<longleftrightarrow> no_late_delivery es \<and> (is_deliver e \<longrightarrow> \<not> list_ex is_destroy es)"
  by (induction es) auto

lemma no_destroy_iff: "length (filter is_destroy es) = 0 \<longleftrightarrow> \<not> list_ex is_destroy es"
  by (induction es) auto

text \<open>Every accepted message is consumed or pending, in the order of its producer.\<close>

definition conserved :: "(nat \<times> message) list \<Rightarrow> event list \<Rightarrow> bool" where
  "conserved mb es \<longleftrightarrow>
     (\<forall>p. filter (\<lambda>x. fst x = p) (enqueued es) =
          filter (\<lambda>x. fst x = p) (consumed es) @ filter (\<lambda>x. fst x = p) mb)"

lemma conserved_enqueue: "conserved mb es \<Longrightarrow> conserved (mb @ [pm]) (es @ [EvEnqueue q pm])"
  by (auto simp: conserved_def)

lemma conserved_destroy [simp]: "conserved mb (es @ [EvDestroy q]) = conserved mb es"
  by (simp add: conserved_def)

lemma conserved_consume:
  assumes "conserved mb es" "picks_ok pick" "try_dequeue pick mb = Some (pm, rest)"
    and "e = EvDeliver q pm \<or> e = EvDrop q pm"
  shows "conserved rest (es @ [e])"
proof -
  obtain p m where pm: "pm = (p, m)" by fastforce
  have "enqueued [e] = []" "consumed [e] = [pm]" using assms(4) by auto
  with assms(1) try_dequeue_fifo [OF assms(2) assms(3) [unfolded pm]] show ?thesis
    unfolding conserved_def by (auto simp: pm)
qed

text \<open>
  What holds of one queue.  The flags relax it inside an operation: \<open>x\<close> while the queue is being
  retired, \<open>y\<close> while a message has been put into it and it has not been scheduled yet; \<open>z\<close> says
  that it is being dispatched.
\<close>

definition queue_ok :: "bool \<Rightarrow> bool \<Rightarrow> bool \<Rightarrow> obj \<Rightarrow> actor_queue \<Rightarrow> actor \<Rightarrow> nat \<Rightarrow> event list \<Rightarrow> bool" where
  "queue_ok x y z q Q A n es \<longleftrightarrow>
     mailbox_count Q = length (mailbox Q) \<and>
     OVERLOAD_THRESHOLD \<le> overload_threshold Q \<and>
     min (mailbox_count Q) (2 ^ 63 - 1) < overload_threshold Q \<and>
     accepting Q = (\<not> releasing Q) \<and>
     schedule_state Q \<le> 2 \<and> (schedule_state Q = 2) = z \<and>
     (\<not> initialized Q \<longrightarrow> schedule_state Q = 0) \<and>
     dispatch_depth A = (if z then 1 else 0) \<and>
     (if releasing Q then
        (x \<or> z \<or> schedule_state Q = 0 \<and> destroyed A \<and> mailbox Q = [] \<and> owner Q = None) \<and>
        (owner Q = Some q \<or> owner Q = None \<and> destroyed A)
      else
        \<not> destroyed A \<and> \<not> destroy_requested A \<and> owner Q = Some q \<and>
        n = (if schedule_state Q = 1 then 1 else 0) \<and>
        (y \<or> \<not> initialized Q \<or> mailbox Q = [] \<or> schedule_state Q \<noteq> 0)) \<and>
     length (filter is_destroy es) = (if destroyed A then 1 else 0) \<and>
     no_late_delivery es \<and> drops_last es \<and> (list_ex is_drop es \<longrightarrow> releasing Q) \<and>
     conserved (mailbox Q) es"

definition sys_inv :: "obj set \<Rightarrow> obj set \<Rightarrow> obj set \<Rightarrow> system \<Rightarrow> bool" where
  "sys_inv X Y Z s \<longleftrightarrow>
     shards_ok (actor_shards s) \<and>
     (\<forall>h q. grab_queue s h = Some q \<longrightarrow>
        q < next_obj s \<and> handle (queue_of s q) = h \<and> accepting (queue_of s q)) \<and>
     (\<forall>q < next_obj s.
        queue_ok (q \<in> X) (q \<in> Y) (q \<in> Z) q (queue_of s q) (actor_of s q) (refs q s) (events_of q s)) \<and>
     (\<forall>q \<ge> next_obj s. events_of q s = [] \<and> refs q s = 0) \<and>
     global_queue_count s = int (length (global_queue s))"

lemma sys_invI:
  assumes "shards_ok (actor_shards s)"
    and "\<And>h q. grab_queue s h = Some q \<Longrightarrow>
      q < next_obj s \<and> handle (queue_of s q) = h \<and> accepting (queue_of s q)"
    and "\<And>q. q < next_obj s \<Longrightarrow>
      queue_ok (q \<in> X) (q \<in> Y) (q \<in> Z) q (queue_of s q) (actor_of s q) (refs q s) (events_of q s)"
    and "\<And>q. next_obj s \<le> q \<Longrightarrow> events_of q s = [] \<and> refs q s = 0"
    and "global_queue_count s = int (length (global_queue s))"
  shows "sys_inv X Y Z s"
  using assms by (simp add: sys_inv_def)

lemma sys_invD:
  assumes "sys_inv X Y Z s"
  shows "shards_ok (actor_shards s)"
    and "grab_queue s h = Some q \<Longrightarrow>
      q < next_obj s \<and> handle (queue_of s q) = h \<and> accepting (queue_of s q)"
    and "q < next_obj s \<Longrightarrow>
      queue_ok (q \<in> X) (q \<in> Y) (q \<in> Z) q (queue_of s q) (actor_of s q) (refs q s) (events_of q s)"
    and "next_obj s \<le> q \<Longrightarrow> events_of q s = [] \<and> refs q s = 0"
    and "global_queue_count s = int (length (global_queue s))"
  using assms by (simp_all add: sys_inv_def)

text \<open>
  The frame rule: an operation that leaves the registry alone and changes the view of the queue
  \<open>q\<close> only has to be checked on \<open>q\<close>.
\<close>

lemma sys_inv_local:
  assumes inv: "sys_inv X Y Z s"
    and shards: "actor_shards s' = actor_shards s" and nobj: "next_obj s' = next_obj s"
    and other: "\<And>q'. q' \<noteq> q \<Longrightarrow> queue_of s' q' = queue_of s q' \<and> actor_of s' q' = actor_of s q' \<and>
      refs q' s' = refs q' s \<and> events_of q' s' = events_of q' s"
    and flags: "\<And>q'. q' \<noteq> q \<Longrightarrow> (q' \<in> X') = (q' \<in> X) \<and> (q' \<in> Y') = (q' \<in> Y) \<and> (q' \<in> Z') = (q' \<in> Z)"
    and hdl: "q < next_obj s" "handle (queue_of s' q) = handle (queue_of s q)"
      "grab_queue s (handle (queue_of s q)) = Some q \<Longrightarrow> accepting (queue_of s' q)"
    and ok: "queue_ok (q \<in> X') (q \<in> Y') (q \<in> Z') q (queue_of s' q) (actor_of s' q) (refs q s') (events_of q s')"
    and gq: "global_queue_count s' = int (length (global_queue s'))"
  shows "sys_inv X' Y' Z' s'"
proof (rule sys_invI)
  show "shards_ok (actor_shards s')" using sys_invD(1) [OF inv] shards by simp
next
  fix h r assume "grab_queue s' h = Some r"
  then have g: "grab_queue s h = Some r" by (simp add: grab_queue_def shards)
  then have r: "r < next_obj s" "handle (queue_of s r) = h" "accepting (queue_of s r)"
    using sys_invD(2) [OF inv] by blast+
  show "r < next_obj s' \<and> handle (queue_of s' r) = h \<and> accepting (queue_of s' r)"
  proof (cases "r = q")
    case True
    with g r hdl nobj show ?thesis by auto
  next
    case False
    with r other nobj show ?thesis by auto
  qed
next
  fix r assume "r < next_obj s'"
  then have r: "r < next_obj s" by (simp add: nobj)
  show "queue_ok (r \<in> X') (r \<in> Y') (r \<in> Z') r (queue_of s' r) (actor_of s' r) (refs r s') (events_of r s')"
    using sys_invD(3) [OF inv r] ok other [of r] flags [of r] by (cases "r = q") auto
next
  fix r assume "next_obj s' \<le> r"
  then have "next_obj s \<le> r" "r \<noteq> q" using hdl(1) nobj by auto
  then show "events_of r s' = [] \<and> refs r s' = 0"
    using sys_invD(4) [OF inv] other by auto
qed (rule gq)

text \<open>An operation that changes no queue, no actor, no registry entry and no view.\<close>

lemma sys_inv_same:
  assumes "sys_inv X Y Z s" "actor_shards s' = actor_shards s" "next_obj s' = next_obj s"
    "queue_of s' = queue_of s" "actor_of s' = actor_of s"
    "\<And>q. refs q s' = refs q s" "\<And>q. events_of q s' = events_of q s"
    "global_queue_count s' = int (length (global_queue s'))"
  shows "sys_inv X Y Z s'"
  using assms by (simp add: sys_inv_def grab_queue_def)

lemma queue_ok_mono:
  "queue_ok x y z q Q A n es \<Longrightarrow> (x \<longrightarrow> x') \<Longrightarrow> (y \<longrightarrow> y') \<Longrightarrow> queue_ok x' y' z q Q A n es"
  by (cases "releasing Q") (auto simp: queue_ok_def)

lemma sys_inv_mono:
  assumes "sys_inv X Y Z s" "X \<subseteq> X'" "Y \<subseteq> Y'"
  shows "sys_inv X' Y' Z s"
proof (rule sys_invI)
  fix q assume "q < next_obj s"
  from sys_invD(3) [OF assms(1) this]
  show "queue_ok (q \<in> X') (q \<in> Y') (q \<in> Z) q (queue_of s q) (actor_of s q) (refs q s) (events_of q s)"
    by (rule queue_ok_mono) (use assms(2,3) in auto)
qed (use sys_invD [OF assms(1)] in auto)

lemma events_of_simps [simp]:
  "events_of q (emit e s) = events_of q s @ (if about q e then [e] else [])"
  "events_of q (upd_queue r f s) = events_of q s" "events_of q (upd_actor a g s) = events_of q s"
  by (simp_all add: events_of_def)

lemma refs_simps [simp]:
  "refs q (emit e s) = refs q s" "refs q (upd_queue r f s) = refs q s" "refs q (upd_actor a g s) = refs q s"
  by (simp_all add: refs_def)

section \<open>Scheduling\<close>

lemma enqueue_global_simps [simp]:
  "queue_of (enqueue_global q s) = queue_of s" "actor_of (enqueue_global q s) = actor_of s"
  "actor_shards (enqueue_global q s) = actor_shards s" "next_obj (enqueue_global q s) = next_obj s"
  "events_of r (enqueue_global q s) = events_of r s"
  "refs r (enqueue_global q s) = refs r s + (if r = q then 1 else 0)"
  "global_queue (enqueue_global q s) = global_queue s @ [(cur_thread s, Some q)]"
  "global_queue_count (enqueue_global q s) = global_queue_count s + 1"
  by (simp_all add: enqueue_global_def Let_def events_of_def refs_def emit_def)

lemma queue_ok_accepting: "queue_ok x y z q Q A n es \<Longrightarrow> accepting Q = (\<not> releasing Q)"
  by (simp add: queue_ok_def)

lemma schedule_queue_inv:
  assumes inv: "sys_inv X Y Z s" and q: "q < next_obj s" "\<not> releasing (queue_of s q)"
  shows "sys_inv X (Y - {q}) Z (schedule_queue q s)"
proof (cases "initialized (queue_of s q) \<and> schedule_state (queue_of s q) = 0")
  case True
  note ok = sys_invD(3) [OF inv q(1)] and gq = sys_invD(5) [OF inv]
  show ?thesis
    by (rule sys_inv_local [OF inv, of _ q])
       (use True q ok gq in \<open>auto simp: schedule_queue_def queue_ok_def\<close>)
next
  case False
  note ok = sys_invD(3) [OF inv q(1)] and gq = sys_invD(5) [OF inv]
  have "schedule_queue q s = s" using False by (auto simp: schedule_queue_def)
  then show ?thesis
    by (intro sys_inv_local [OF inv, of _ q])
       (use False q ok gq in \<open>auto simp: queue_ok_def\<close>)
qed

section \<open>Messaging\<close>

text \<open>What messaging leaves alone.\<close>

definition static_same :: "system \<Rightarrow> system \<Rightarrow> bool" where
  "static_same s s' \<longleftrightarrow>
     next_obj s' = next_obj s \<and> actor_shards s' = actor_shards s \<and> actor_of s' = actor_of s \<and>
     (\<forall>q. handle (queue_of s' q) = handle (queue_of s q) \<and>
          accepting (queue_of s' q) = accepting (queue_of s q) \<and>
          releasing (queue_of s' q) = releasing (queue_of s q) \<and>
          initialized (queue_of s' q) = initialized (queue_of s q) \<and>
          owner (queue_of s' q) = owner (queue_of s q))"

lemma static_same_refl: "static_same s s"
  by (simp add: static_same_def)

lemma static_same_trans [trans]: "static_same s s' \<Longrightarrow> static_same s' s'' \<Longrightarrow> static_same s s''"
  by (simp add: static_same_def)

lemma static_same_schedule: "static_same s (schedule_queue q s)"
  by (simp add: static_same_def schedule_queue_def)

lemma static_same_enqueue: "static_same s (enqueue_mail q msg s)"
  by (simp add: static_same_def enqueue_mail_def)

lemma static_same_raise: "static_same s (raise_threshold q s)"
  by (simp add: static_same_def raise_threshold_def)

lemma free_owned_simps [simp]:
  "actor_of (free_owned_message_data msg s) = actor_of s"
  "actor_shards (free_owned_message_data msg s) = actor_shards s"
  "next_obj (free_owned_message_data msg s) = next_obj s"
  "global_queue (free_owned_message_data msg s) = global_queue s"
  "global_queue_count (free_owned_message_data msg s) = global_queue_count s"
  "refs r (free_owned_message_data msg s) = refs r s"
  "events_of r (free_owned_message_data msg s) = events_of r s"
  "too_deep (free_owned_message_data msg s) = too_deep s"
  by (simp_all add: free_owned_message_data_def split: payload.splits)

lemma static_same_free: "static_same s (free_owned_message_data msg s)"
  by (simp add: static_same_def)

text \<open>The message has entered the mailbox and the threshold has been adjusted.\<close>

definition posted :: "obj \<Rightarrow> message \<Rightarrow> system \<Rightarrow> system" where
  "posted q msg s =
     (let s1 = enqueue_mail q msg s
      in if mailbox_count (queue_of s1 q) \<ge> overload_threshold (queue_of s1 q)
         then raise_threshold q s1 else s1)"

lemma static_same_posted: "static_same s (posted q msg s)"
  using static_same_trans [OF static_same_enqueue static_same_raise] static_same_enqueue
  by (simp add: posted_def Let_def)

lemma push_message_n_accept:
  assumes "receiver s dest = Some q"
  shows "push_message_n (Suc n) dest msg s =
    (let s1 = enqueue_mail q msg s; qsize = mailbox_count (queue_of s1 q);
         s2 = (if qsize \<ge> overload_threshold (queue_of s1 q)
               then error_n n dest (overload_text qsize) (posted q msg s) else posted q msg s)
     in if \<not> initialized (queue_of s2 q) then s2 else schedule_queue q s2)"
  using assms by (simp add: push_message_n.simps posted_def Let_def)

lemma push_message_n_reject:
  assumes "receiver s dest = None"
  shows "push_message_n (Suc n) dest msg s =
    free_owned_message_data msg
      (if wants_reply msg then push_message_n n (source msg) (error_reply msg) s else s)"
  using assms by (simp add: push_message_n.simps)

lemma receiverD:
  "receiver s dest = Some q \<Longrightarrow> grab_queue s dest = Some q \<and> accepting (queue_of s q)"
  by (auto simp: receiver_def split: option.splits if_splits)

lemma threshold_step:
  assumes "1024 \<le> t" "min c (2 ^ 63 - 1) < t" "Suc c \<ge> t"
  shows "1024 \<le> next_threshold t \<and> min (Suc c) (2 ^ 63 - 1) < next_threshold t"
  using assms by (auto simp: next_threshold_def min_def split: if_splits)

lemma posted_inv:
  assumes inv: "sys_inv X Y Z s" and r: "receiver s dest = Some q"
  shows "sys_inv X (insert q Y) Z (posted q msg s)"
proof -
  from receiverD [OF r] have g: "grab_queue s dest = Some q" "accepting (queue_of s q)" by auto
  with sys_invD(2) [OF inv] have q: "q < next_obj s" by blast
  note ok = sys_invD(3) [OF inv q] and gq = sys_invD(5) [OF inv]
  let ?Q = "queue_of s q" and ?s' = "posted q msg s"
  have Q': "queue_of ?s' q = ?Q\<lparr>mailbox := mailbox ?Q @ [(cur_thread s, msg)],
      mailbox_count := Suc (mailbox_count ?Q),
      overload_threshold := (if Suc (mailbox_count ?Q) \<ge> overload_threshold ?Q
        then next_threshold (overload_threshold ?Q) else overload_threshold ?Q)\<rparr>"
    and frame: "actor_shards ?s' = actor_shards s" "next_obj ?s' = next_obj s" "actor_of ?s' = actor_of s"
      "global_queue ?s' = global_queue s" "global_queue_count ?s' = global_queue_count s"
      "\<And>r. refs r ?s' = refs r s"
      "\<And>r. events_of r ?s' = events_of r s @ (if r = q then [EvEnqueue q (cur_thread s, msg)] else [])"
      "\<And>r. r \<noteq> q \<Longrightarrow> queue_of ?s' r = queue_of s r"
    by (auto simp: posted_def enqueue_mail_def raise_threshold_def Let_def)
  have th: "1024 \<le> overload_threshold (queue_of ?s' q) \<and>
      min (Suc (mailbox_count ?Q)) (2 ^ 63 - 1) < overload_threshold (queue_of ?s' q)"
  proof (cases "Suc (mailbox_count ?Q) \<ge> overload_threshold ?Q")
    case True
    have "1024 \<le> overload_threshold ?Q" "min (mailbox_count ?Q) (2 ^ 63 - 1) < overload_threshold ?Q"
      using ok unfolding queue_ok_def by blast+
    from threshold_step [OF this True] True show ?thesis by (simp add: Q')
  next
    case False
    moreover have "1024 \<le> overload_threshold ?Q" using ok by (simp add: queue_ok_def)
    ultimately show ?thesis by (simp add: Q')
  qed
  have "conserved (mailbox (queue_of ?s' q)) (events_of q ?s')"
    using ok by (simp add: Q' frame queue_ok_def conserved_enqueue)
  then show ?thesis
    by (intro sys_inv_local [OF inv, of _ q])
       (use th g(2) q ok gq Q' in \<open>auto simp: frame queue_ok_def\<close>)
qed

definition keeps_inv :: "system \<Rightarrow> system \<Rightarrow> bool" where
  "keeps_inv s s' \<longleftrightarrow> static_same s s' \<and> (\<forall>X Y Z. sys_inv X Y Z s \<longrightarrow> sys_inv X Y Z s')"

lemma keeps_inv_refl: "keeps_inv s s"
  by (simp add: keeps_inv_def static_same_refl)

lemma keeps_inv_trans [trans]: "keeps_inv s s' \<Longrightarrow> keeps_inv s' s'' \<Longrightarrow> keeps_inv s s''"
  unfolding keeps_inv_def using static_same_trans by blast

lemma keeps_inv_same:
  assumes "next_obj s' = next_obj s" "actor_shards s' = actor_shards s" "actor_of s' = actor_of s"
    "queue_of s' = queue_of s" "global_queue s' = global_queue s"
    "global_queue_count s' = global_queue_count s" "\<And>q. events_of q s' = events_of q s"
  shows "keeps_inv s s'"
  unfolding keeps_inv_def
proof (intro conjI allI impI)
  show "static_same s s'" using assms by (simp add: static_same_def)
  fix X Y Z assume i: "sys_inv X Y Z s"
  show "sys_inv X Y Z s'"
    by (rule sys_inv_same [OF i]) (use assms sys_invD(5) [OF i] in \<open>simp_all add: refs_def\<close>)
qed

lemma keeps_inv_accept:
  assumes r: "receiver s dest = Some q" and e: "keeps_inv (posted q msg s) s2"
  shows "keeps_inv s (if \<not> initialized (queue_of s2 q) then s2 else schedule_queue q s2)"
proof -
  have st: "static_same s s2"
    using static_same_posted e static_same_trans unfolding keeps_inv_def by blast
  have rel: "\<not> releasing (queue_of s2 q)" "q < next_obj s2" if "sys_inv X Y Z s" for X Y Z
    using that receiverD [OF r] sys_invD(2) [OF that] queue_ok_accepting [OF sys_invD(3) [OF that, of q]] st
    by (auto simp: static_same_def)
  have two: "sys_inv X (insert q Y) Z s2" if "sys_inv X Y Z s" for X Y Z
    using posted_inv [OF that r] e unfolding keeps_inv_def by blast
  show ?thesis
  proof (cases "initialized (queue_of s2 q)")
    case True
    have "sys_inv X Y Z (schedule_queue q s2)" if i: "sys_inv X Y Z s" for X Y Z
      by (rule sys_inv_mono [OF schedule_queue_inv [OF two [OF i] rel(2,1) [OF i]]]) auto
    moreover have "static_same s (schedule_queue q s2)"
      using st static_same_schedule static_same_trans by blast
    ultimately show ?thesis using True by (simp add: keeps_inv_def)
  next
    case False
    have "sys_inv X Y Z s2" if i: "sys_inv X Y Z s" for X Y Z
      by (rule sys_inv_local [OF two [OF i], of _ q])
         (use False rel [OF i] sys_invD(3) [OF two [OF i], of q] sys_invD(5) [OF two [OF i]]
          in \<open>auto simp: queue_ok_def\<close>)
    with st False show ?thesis by (simp add: keeps_inv_def)
  qed
qed

lemma push_error_keeps_inv:
  "keeps_inv s (push_message_n n dest msg s)"
  "keeps_inv s (error_n n src what s)"
proof (induction n dest msg s and n src what s rule: push_message_n_error_n.induct)
  case (1 dest msg s)
  show ?case by (rule keeps_inv_same) (simp_all add: push_message_n.simps events_of_def)
next
  case (2 n dest msg s)
  show ?case
  proof (cases "receiver s dest")
    case None
    let ?s1 = "if wants_reply msg then push_message_n n (source msg) (error_reply msg) s else s"
    have "keeps_inv s ?s1" using "2.IH"(1) [OF None] by (simp add: keeps_inv_refl)
    also have "keeps_inv ?s1 (free_owned_message_data msg ?s1)" by (rule keeps_inv_same) simp_all
    finally show ?thesis by (simp only: push_message_n_reject [OF None])
  next
    case (Some q)
    define s1 where "s1 = enqueue_mail q msg s"
    let ?qs = "mailbox_count (queue_of s1 q)" and ?th = "overload_threshold (queue_of s1 q)"
    have "keeps_inv (posted q msg s) (if ?qs \<ge> ?th then error_n n dest (overload_text ?qs) (posted q msg s)
        else posted q msg s)"
      using "2.IH"(2) [OF Some s1_def refl] by (simp add: posted_def s1_def keeps_inv_refl)
    from keeps_inv_accept [OF Some this] show ?thesis
      unfolding push_message_n_accept [OF Some] Let_def s1_def .
  qed
next
  case (3 src what s)
  show ?case by (rule keeps_inv_same) (simp_all add: error_n.simps events_of_def)
next
  case (4 n src what s)
  let ?lh = "if logger_handle s = 0 then find_name s ''logger'' else logger_handle s"
  let ?s1 = "s\<lparr>logger_handle := ?lh\<rparr>"
  let ?msg = "\<lparr>source = src, session = 0, mtype = PTYPE_ERROR, mdata = Text (take 511 what)\<rparr>"
  have a: "keeps_inv s ?s1" by (rule keeps_inv_same) (simp_all add: events_of_def)
  show ?case
  proof (cases "?lh = 0")
    case True
    have "keeps_inv ?s1 (emit (EvStderr src (take 511 what)) ?s1)" by (rule keeps_inv_same) simp_all
    with a True show ?thesis
      using keeps_inv_trans by (simp only: error_n.simps Let_def if_False simp_thms)
  next
    case False
    with "4.IH" [OF refl refl refl] have "keeps_inv ?s1 (push_message_n n ?lh ?msg ?s1)" by simp
    with a False show ?thesis
      using keeps_inv_trans by (simp only: error_n.simps Let_def if_True not_False_eq_True)
  qed
qed

lemma messaging_keeps_inv:
  "keeps_inv s (push_message dest msg s)" "keeps_inv s (error src what s)"
  "keeps_inv s (send src dest type ses data s)" "keeps_inv s (timeout dest ses delay s)"
  "keeps_inv s (register_name name h s)"
  by (simp_all add: push_message_def error_def send_def timeout_def register_name_def
        push_error_keeps_inv keeps_inv_same events_of_def Let_def)

end
