(* ===== verification/Actor_Lifecycle.thy ===== *)
theory Actor_Lifecycle
  imports Actor_Invariants
begin

text \<open>
  The invariant is kept by draining, killing, spawning, user code, dispatching, the monitor and
  shutdown; hence it holds in every reachable state of the system.
\<close>

section \<open>Draining\<close>

lemma drop_mail_inv:
  assumes inv: "sys_inv X Y Z s" and q: "q < next_obj s" and ok: "picks_ok pick"
    and rel: "releasing (queue_of s q)"
    and d: "try_dequeue pick (mailbox (queue_of s q)) = Some (pm, rest)"
  shows "sys_inv X Y Z (drop_mail q pm rest s)"
proof -
  let ?s1 = "emit (EvDrop q pm)
    (upd_queue q (\<lambda>x. x\<lparr>mailbox := rest, mailbox_count := mailbox_count x - 1\<rparr>) s)"
  note qok = sys_invD(3) [OF inv q] and gq = sys_invD(5) [OF inv] and len = try_dequeue_length [OF d]
  have c: "conserved rest (events_of q s @ [EvDrop q pm])"
    by (rule conserved_consume [OF _ ok d]) (use qok in \<open>simp_all add: queue_ok_def\<close>)
  have one: "sys_inv X Y Z ?s1"
    by (rule sys_inv_local [OF inv, of _ q])
       (use qok gq q rel len c sys_invD(2) [OF inv, of "handle (queue_of s q)" q]
        in \<open>auto simp: queue_ok_def min_def split: if_splits\<close>)
  moreover have "keeps_inv ?s1 (send 0 (source (snd pm)) PTYPE_ERROR (session (snd pm)) Monostate ?s1)"
    by (rule messaging_keeps_inv)
  moreover have "keeps_inv t (free_owned_message_data (snd pm) t)" for t
    by (rule keeps_inv_same) simp_all
  ultimately show ?thesis
    unfolding drop_mail_def Let_def keeps_inv_def by (auto split: if_splits)
qed

lemma drop_mail_static: "static_same s (drop_mail q pm rest s)"
proof -
  let ?s1 = "emit (EvDrop q pm)
    (upd_queue q (\<lambda>x. x\<lparr>mailbox := rest, mailbox_count := mailbox_count x - 1\<rparr>) s)"
  have "static_same s ?s1" by (simp add: static_same_def)
  moreover have "static_same ?s1 (send 0 (source (snd pm)) PTYPE_ERROR (session (snd pm)) Monostate ?s1)"
    using messaging_keeps_inv(3) by (simp add: keeps_inv_def)
  ultimately show ?thesis
    unfolding drop_mail_def Let_def by (auto intro: static_same_trans static_same_free)
qed

lemma drain_loop_static: "static_same s (drain_loop pick q s)"
  by (rule drain_loop_rel [where R = static_same])
     (auto intro: static_same_refl static_same_trans drop_mail_static)

lemma drain_loop_inv:
  "picks_ok pick \<Longrightarrow> sys_inv X Y Z s \<Longrightarrow> q < next_obj s \<Longrightarrow> releasing (queue_of s q) \<Longrightarrow>
   sys_inv X Y Z (drain_loop pick q s)"
proof (induction pick q s rule: drain_loop.induct)
  case (1 pick q s)
  show ?case
  proof (cases "try_dequeue pick (mailbox (queue_of s q))")
    case None
    with 1 show ?thesis by (subst drain_loop.simps) simp
  next
    case (Some p)
    obtain pm rest where p: "p = (pm, rest)" by fastforce
    have "q < next_obj (drop_mail q pm rest s)" "releasing (queue_of (drop_mail q pm rest s) q)"
      using "1.prems"(3,4) drop_mail_static [of s q pm rest] by (simp_all add: static_same_def)
    then have "sys_inv X Y Z (drain_loop pick q (drop_mail q pm rest s))"
      using Some p drop_mail_inv [OF "1.prems"(2,3,1,4)] "1.prems"(1) by (intro "1.IH") auto
    with Some p show ?thesis by (subst drain_loop.simps) simp
  qed
qed

lemma drain_loop_empty: "picks_ok pick \<Longrightarrow> mailbox (queue_of (drain_loop pick q s) q) = []"
proof (induction pick q s rule: drain_loop.induct)
  case (1 pick q s)
  then show ?case
    by (subst drain_loop.simps) (auto simp: try_dequeue_None split: option.splits)
qed

lemma drain_queue_mailbox [simp]: "picks_ok pick \<Longrightarrow> mailbox (queue_of (drain_queue pick q s) q) = []"
  by (simp add: drain_queue_def drain_loop_empty)

lemma drain_queue_static: "static_same s (drain_queue pick q s)"
  using drain_loop_static [of s pick q] by (simp add: drain_queue_def static_same_def)

lemma drain_queue_inv:
  assumes "picks_ok pick" "sys_inv X Y Z s" "q < next_obj s" "releasing (queue_of s q)"
  shows "sys_inv X Y Z (drain_queue pick q s)"
proof -
  let ?t = "drain_loop pick q s"
  have t: "sys_inv X Y Z ?t" "q < next_obj ?t" "mailbox (queue_of ?t q) = []"
    using drain_loop_inv [OF assms] drain_loop_empty [OF assms(1)] drain_loop_static [of s pick q] assms(3)
    by (simp_all add: static_same_def)
  have "mailbox_count (queue_of ?t q) = 0"
    using sys_invD(3) [OF t(1,2)] t(3) by (simp add: queue_ok_def)
  then have "(queue_of ?t q)\<lparr>mailbox_count := 0\<rparr> = queue_of ?t q" by simp
  then have "drain_queue pick q s = ?t"
    unfolding drain_queue_def upd_queue_def by simp
  with t(1) show ?thesis by simp
qed

section \<open>Retiring a queue\<close>

lemma sys_inv_erase:
  assumes inv: "sys_inv X Y Z s"
  shows "sys_inv X Y Z (s\<lparr>actor_shards := shard_erase h (actor_shards s)\<rparr>)"
proof (rule sys_invI)
  fix h' q assume "grab_queue (s\<lparr>actor_shards := shard_erase h (actor_shards s)\<rparr>) h' = Some q"
  then have "grab_queue s h' = Some q"
    using sys_invD(1) [OF inv] by (auto simp: grab_queue_def reg.find_erase split: if_splits)
  then show "q < next_obj (s\<lparr>actor_shards := shard_erase h (actor_shards s)\<rparr>) \<and>
      handle (queue_of (s\<lparr>actor_shards := shard_erase h (actor_shards s)\<rparr>) q) = h' \<and>
      accepting (queue_of (s\<lparr>actor_shards := shard_erase h (actor_shards s)\<rparr>) q)"
    using sys_invD(2) [OF inv] by auto
next
  show "shards_ok (actor_shards (s\<lparr>actor_shards := shard_erase h (actor_shards s)\<rparr>))"
    using sys_invD(1) [OF inv] by (simp add: reg.ok_erase)
qed (use sys_invD(3,4,5) [OF inv] in \<open>auto simp: refs_def events_of_def\<close>)

lemma stop_accepting_inv:
  assumes inv: "sys_inv X Y Z s" and q: "q < next_obj s"
    and g: "grab_queue s (handle (queue_of s q)) \<noteq> Some q"
  shows "sys_inv (insert q X) Y Z (stop_accepting q s)"
  by (rule sys_inv_local [OF inv, of _ q])
     (use sys_invD(3) [OF inv q] sys_invD(5) [OF inv] q g
      in \<open>auto simp: queue_ok_def stop_accepting_def\<close>)

lemma destroy_requested_inv:
  assumes inv: "sys_inv X Y Z s" and q: "q < next_obj s" and r: "releasing (queue_of s q)"
  shows "sys_inv X Y Z (upd_actor q (\<lambda>x. x\<lparr>destroy_requested := True\<rparr>) s)"
  by (rule sys_inv_local [OF inv, of _ q])
     (use sys_invD(2) [OF inv, of "handle (queue_of s q)" q] sys_invD(3) [OF inv q] sys_invD(5) [OF inv] q r
      in \<open>auto simp: queue_ok_def\<close>)

lemma retire_inv:
  assumes inv: "sys_inv (insert q X) Y Z s" and q: "q < next_obj s" "q \<notin> Z"
    and r: "releasing (queue_of s q)" "mailbox (queue_of s q) = []"
  shows "sys_inv X Y Z
    (upd_queue q (\<lambda>x. x\<lparr>schedule_state := 0\<rparr>) (clear_queue_owner q (Some q) (destroy_actor q s)))"
  by (rule sys_inv_local [OF inv, of _ q])
     (use sys_invD(2) [OF inv, of "handle (queue_of s q)" q] sys_invD(3) [OF inv q(1)] sys_invD(5) [OF inv] q r
      in \<open>auto simp: queue_ok_def clear_queue_owner_def destroy_actor_def\<close>)

lemma sys_inv_dispatching_X:
  assumes inv: "sys_inv (insert q X) Y Z s" and q: "q < next_obj s" "q \<in> Z"
  shows "sys_inv X Y Z s"
  by (rule sys_inv_local [OF inv, of _ q])
     (use sys_invD(2) [OF inv, of "handle (queue_of s q)" q] sys_invD(3) [OF inv q(1)] sys_invD(5) [OF inv] q
      in \<open>auto simp: queue_ok_def\<close>)

lemma stop_accepting_simps [simp]:
  "next_obj (stop_accepting q s) = next_obj s" "actor_of (stop_accepting q s) = actor_of s"
  "handle (queue_of (stop_accepting q s) r) = handle (queue_of s r)"
  "owner (queue_of (stop_accepting q s) r) = owner (queue_of s r)"
  "schedule_state (queue_of (stop_accepting q s) r) = schedule_state (queue_of s r)"
  "initialized (queue_of (stop_accepting q s) r) = initialized (queue_of s r)"
  "releasing (queue_of (stop_accepting q s) r) = (r = q \<or> releasing (queue_of s r))"
  by (auto simp: stop_accepting_def)

text \<open>The state of \<open>kill\<close> after the queue has been unregistered and marked.\<close>

definition condemned :: "u32 \<Rightarrow> obj \<Rightarrow> system \<Rightarrow> system" where
  "condemned h q s =
     (let s1 = s\<lparr>actor_shards := shard_erase h (actor_shards s)\<rparr>;
          s2 = (if logger_handle s1 = h then s1\<lparr>logger_handle := 0\<rparr> else s1)
      in upd_actor q (\<lambda>x. x\<lparr>destroy_requested := True\<rparr>) (stop_accepting q s2))"

lemma condemned_inv:
  assumes inv: "sys_inv X Y Z s" and g: "grab_queue s h = Some q"
  shows "sys_inv (insert q X) Y Z (condemned h q s)"
proof -
  from sys_invD(2) [OF inv g] have q: "q < next_obj s" "handle (queue_of s q) = h" by auto
  define s2 where "s2 = (let s1 = s\<lparr>actor_shards := shard_erase h (actor_shards s)\<rparr>
      in if logger_handle s1 = h then s1\<lparr>logger_handle := 0\<rparr> else s1)"
  have f: "actor_shards s2 = shard_erase h (actor_shards s)" "next_obj s2 = next_obj s"
    "queue_of s2 = queue_of s"
    by (simp_all add: s2_def Let_def)
  have "sys_inv X Y Z s2"
    by (rule sys_inv_same [OF sys_inv_erase [OF inv, of h]])
       (use sys_invD(5) [OF inv] in \<open>simp_all add: s2_def Let_def refs_def events_of_def\<close>)
  moreover have "grab_queue s2 (handle (queue_of s2 q)) \<noteq> Some q"
    using f q reg.find_erase [OF sys_invD(1) [OF inv]] by (simp add: grab_queue_def)
  ultimately have "sys_inv (insert q X) Y Z (stop_accepting q s2)"
    using q f by (intro stop_accepting_inv) simp_all
  then have "sys_inv (insert q X) Y Z (upd_actor q (\<lambda>x. x\<lparr>destroy_requested := True\<rparr>) (stop_accepting q s2))"
    using q f by (intro destroy_requested_inv) simp_all
  then show ?thesis by (simp add: condemned_def s2_def Let_def)
qed

lemma condemned_simps [simp]:
  "next_obj (condemned h q s) = next_obj s"
  "handle (queue_of (condemned h q s) r) = handle (queue_of s r)"
  "schedule_state (queue_of (condemned h q s) r) = schedule_state (queue_of s r)"
  "owner (queue_of (condemned h q s) r) = owner (queue_of s r)"
  "releasing (queue_of (condemned h q s) q)"
  "dispatch_depth (actor_of (condemned h q s) r) = dispatch_depth (actor_of s r)"
  by (simp_all add: condemned_def Let_def)

lemma kill_unfold:
  assumes inv: "sys_inv X Y Z s" and g: "grab_queue s h = Some q"
  shows "kill pick h s =
    (if q \<in> Z then condemned h q s
     else upd_queue q (\<lambda>x. x\<lparr>schedule_state := 0\<rparr>)
            (clear_queue_owner q (Some q) (destroy_actor q (drain_queue pick q (condemned h q s)))))"
proof -
  from sys_invD(2) [OF inv g] have q: "q < next_obj s" "accepting (queue_of s q)" by auto
  note ok = sys_invD(3) [OF inv q(1)]
  have "owner (queue_of s q) = Some q" "dispatch_depth (actor_of s q) = (if q \<in> Z then 1 else 0)"
    "(schedule_state (queue_of s q) = 2) = (q \<in> Z)"
    using ok q by (auto simp: queue_ok_def)
  then show ?thesis
    using g by (auto simp: kill_def queue_owner_def schedule_queue_def condemned_def Let_def)
qed

lemma next_obj_retire [simp]:
  "next_obj (clear_queue_owner q a s) = next_obj s" "next_obj (destroy_actor a' s) = next_obj s"
  by (simp_all add: clear_queue_owner_def destroy_actor_def)

lemma kill_next_obj [simp]: "next_obj (kill pick h s) = next_obj s"
proof -
  have d: "next_obj (drain_queue pick q t) = next_obj t" for q t
    using drain_queue_static [of t pick q] by (simp add: static_same_def)
  show ?thesis
    by (auto simp: kill_def d Let_def schedule_queue_def split: option.splits)
qed

lemma kill_inv:
  assumes ok: "picks_ok pick" and inv: "sys_inv X Y Z s"
  shows "sys_inv X Y Z (kill pick h s)"
proof (cases "grab_queue s h")
  case None
  with inv show ?thesis by (simp add: kill_def)
next
  case (Some q)
  then have q: "q < next_obj s" using sys_invD(2) [OF inv] by blast
  let ?c = "condemned h q s" and ?d = "drain_queue pick q (condemned h q s)"
  have c: "sys_inv (insert q X) Y Z ?c" by (rule condemned_inv [OF inv Some])
  show ?thesis
  proof (cases "q \<in> Z")
    case True
    with sys_inv_dispatching_X [OF c] q show ?thesis by (simp add: kill_unfold [OF inv Some])
  next
    case False
    have "sys_inv (insert q X) Y Z ?d" using q by (intro drain_queue_inv ok c) simp_all
    moreover have "releasing (queue_of ?d q)" "next_obj ?d = next_obj s"
      using drain_queue_static [of ?c pick q] by (simp_all add: static_same_def)
    ultimately show ?thesis
      using False q ok by (simp add: kill_unfold [OF inv Some] retire_inv)
  qed
qed

section \<open>Spawning and user code\<close>

lemma spawn_begin_inv:
  assumes inv: "sys_inv X Y Z s" and Z: "Z \<subseteq> {..<next_obj s}" and sb: "spawn_begin s = (q, h, s1)"
  shows "sys_inv X Y Z s1" and "q = next_obj s" and "next_obj s1 = Suc q"
    and "handle (queue_of s1 q) = h"
proof -
  have s1: "q = next_obj s" "h = next_handle s"
    "s1 = s\<lparr>next_obj := q + 1, next_handle := h + 1, actor_of := (actor_of s)(q := new_actor),
        queue_of := (queue_of s)(q := new_queue\<lparr>handle := h, owner := Some q\<rparr>),
        actor_shards := shard_insert h q (actor_shards s)\<rparr>"
    using sb by (auto simp: spawn_begin_def Let_def)
  show "q = next_obj s" "next_obj s1 = Suc q" "handle (queue_of s1 q) = h"
    using s1 by simp_all
  have view: "refs r s1 = refs r s" "events_of r s1 = events_of r s" for r
    by (simp_all add: s1 refs_def events_of_def)
  show "sys_inv X Y Z s1"
  proof (rule sys_invI)
    show "shards_ok (actor_shards s1)" using sys_invD(1) [OF inv] by (simp add: s1 reg.ok_insert)
  next
    fix h' r assume "grab_queue s1 h' = Some r"
    then have "if h' = h then r = q else grab_queue s h' = Some r"
      using reg.find_insert [OF sys_invD(1) [OF inv]] by (auto simp: s1 grab_queue_def split: if_splits)
    then show "r < next_obj s1 \<and> handle (queue_of s1 r) = h' \<and> accepting (queue_of s1 r)"
      using sys_invD(2) [OF inv, of h' r] by (auto simp: s1 new_queue_def split: if_splits)
  next
    fix r assume "r < next_obj s1"
    then consider "r = q" | "r < next_obj s" "r \<noteq> q" by (auto simp: s1 less_Suc_eq)
    then show "queue_ok (r \<in> X) (r \<in> Y) (r \<in> Z) r (queue_of s1 r) (actor_of s1 r) (refs r s1) (events_of r s1)"
    proof cases
      case 1
      moreover have "events_of q s = []" "refs q s = 0" using sys_invD(4) [OF inv] s1(1) by auto
      moreover have "q \<notin> Z" using Z s1(1) by auto
      ultimately show ?thesis
        unfolding view by (simp add: s1 queue_ok_def new_queue_def new_actor_def conserved_def)
    next
      case 2
      then show ?thesis using sys_invD(3) [OF inv] unfolding view by (simp add: s1)
    qed
  next
    fix r assume "next_obj s1 \<le> r"
    then show "events_of r s1 = [] \<and> refs r s1 = 0"
      using sys_invD(4) [OF inv] unfolding view by (simp add: s1)
  qed (use sys_invD(5) [OF inv] in \<open>simp add: s1\<close>)
qed

lemma init_failed_inv:
  assumes inv: "sys_inv X Y Z s" and q: "q < next_obj s"
  shows "sys_inv X Y Z (upd_actor q (\<lambda>x. x\<lparr>init_failed := True\<rparr>) s)"
  by (rule sys_inv_local [OF inv, of _ q])
     (use sys_invD(2) [OF inv, of "handle (queue_of s q)" q] sys_invD(3) [OF inv q] sys_invD(5) [OF inv] q
      in \<open>auto simp: queue_ok_def\<close>)

lemma init_result_inv:
  assumes inv: "sys_inv X Y Z s" and q: "q < next_obj s"
  shows "sys_inv X Y Z (init_result q h out s) \<and> next_obj (init_result q h out s) = next_obj s"
proof (cases out)
  case (InitThrows what)
  have "keeps_inv s (error h (''actor init failed: '' @ what) s)" by (rule messaging_keeps_inv)
  then have "sys_inv X Y Z (error h (''actor init failed: '' @ what) s)"
    "next_obj (error h (''actor init failed: '' @ what) s) = next_obj s"
    using inv by (auto simp: keeps_inv_def static_same_def)
  with q InitThrows show ?thesis by (simp add: init_result_def init_failed_inv)
qed (use inv q init_failed_inv in \<open>simp_all add: init_result_def\<close>)

lemma spawn_end_inv:
  assumes ok: "picks_ok pick" and inv: "sys_inv X Y Z s" and q: "q < next_obj s" "q \<notin> Z" "q \<notin> X"
    and h: "handle (queue_of s q) = h" "\<not> initialized (queue_of s q)"
  shows "sys_inv X Y Z (snd (spawn_end pick q h s)) \<and> next_obj (snd (spawn_end pick q h s)) = next_obj s"
proof (cases "init_failed (actor_of s q)")
  case True
  define s1 where "s1 = (if grab_queue s h = Some q
      then s\<lparr>actor_shards := shard_erase h (actor_shards s)\<rparr> else s)"
  have s1: "sys_inv X Y Z s1" "next_obj s1 = next_obj s" "queue_of s1 = queue_of s"
    using inv sys_inv_erase by (auto simp: s1_def)
  have "grab_queue s1 (handle (queue_of s1 q)) \<noteq> Some q"
    using reg.find_erase [OF sys_invD(1) [OF inv]] h by (auto simp: s1_def grab_queue_def)
  then have "sys_inv (insert q X) Y Z (stop_accepting q s1)"
    using s1 q by (intro stop_accepting_inv) simp_all
  then have d: "sys_inv (insert q X) Y Z (drain_queue pick q (stop_accepting q s1))" (is "sys_inv _ _ _ ?d")
    using s1 q by (intro drain_queue_inv ok) simp_all
  have st: "releasing (queue_of ?d q)" "next_obj ?d = next_obj s" "\<not> initialized (queue_of ?d q)"
    using drain_queue_static [of "stop_accepting q s1" pick q] s1 h(2) by (simp_all add: static_same_def)
  let ?c = "clear_queue_owner q (Some q) (destroy_actor q ?d)"
  have "sys_inv X Y Z ?c"
    by (rule sys_inv_local [OF d, of _ q])
       (use sys_invD(2) [OF d, of "handle (queue_of ?d q)" q] sys_invD(3) [OF d, of q] sys_invD(5) [OF d] st q ok
        in \<open>auto simp: queue_ok_def clear_queue_owner_def destroy_actor_def\<close>)
  with True st show ?thesis by (simp add: spawn_end_def s1_def Let_def)
next
  case False
  let ?s1 = "upd_queue q (\<lambda>x. x\<lparr>initialized := True\<rparr>) s"
  note qok = sys_invD(3) [OF inv q(1)]
  have one: "sys_inv X (insert q Y) Z ?s1"
    by (rule sys_inv_local [OF inv, of _ q])
       (use sys_invD(2) [OF inv, of "handle (queue_of s q)" q] qok sys_invD(5) [OF inv] q
        in \<open>auto simp: queue_ok_def\<close>)
  show ?thesis
  proof (cases "mailbox_count (queue_of s q) > 0 \<and> \<not> releasing (queue_of s q)")
    case True
    have "sys_inv X (insert q Y - {q}) Z (schedule_queue q ?s1)"
      using True q by (intro schedule_queue_inv [OF one]) simp_all
    then have "sys_inv X Y Z (schedule_queue q ?s1)" by (rule sys_inv_mono) auto
    moreover have "next_obj (schedule_queue q ?s1) = next_obj s" by (simp add: schedule_queue_def)
    ultimately show ?thesis using True False by (simp add: spawn_end_def Let_def)
  next
    case idle: False
    then have e: "mailbox (queue_of s q) = []" "mailbox_count (queue_of s q) = 0"
      using qok q by (auto simp: queue_ok_def split: if_splits)
    have "sys_inv X Y Z ?s1"
      by (rule sys_inv_local [OF one, of _ q])
         (use sys_invD(2) [OF one, of "handle (queue_of s q)" q] sys_invD(3) [OF one, of q]
            sys_invD(5) [OF one] q e in \<open>auto simp: queue_ok_def\<close>)
    with False e show ?thesis by (simp add: spawn_end_def Let_def)
  qed
qed

text \<open>User code keeps the identity of the objects it finds.\<close>

definition keeps_objs :: "system \<Rightarrow> system \<Rightarrow> bool" where
  "keeps_objs s s' \<longleftrightarrow>
     next_obj s \<le> next_obj s' \<and>
     (\<forall>q < next_obj s. handle (queue_of s' q) = handle (queue_of s q) \<and>
        initialized (queue_of s' q) = initialized (queue_of s q))"

lemma keeps_objs_refl: "keeps_objs s s"
  by (simp add: keeps_objs_def)

lemma keeps_objs_trans [trans]: "keeps_objs s s' \<Longrightarrow> keeps_objs s' s'' \<Longrightarrow> keeps_objs s s''"
  by (auto simp: keeps_objs_def)

lemma static_keeps_objs: "static_same s s' \<Longrightarrow> keeps_objs s s'"
  by (simp add: static_same_def keeps_objs_def)

lemma messaging_keeps_objs:
  "keeps_objs s (error src what s)" "keeps_objs s (send src dest type ses data s)"
  "keeps_objs s (timeout dest ses delay s)" "keeps_objs s (register_name name h s)"
  using messaging_keeps_inv static_keeps_objs by (auto simp: keeps_inv_def)

lemma alloc_session_keeps:
  assumes "alloc_session a s = (ses, s1)" "sys_inv X Y Z s"
  shows "sys_inv X Y Z s1" "keeps_objs s s1"
proof -
  have s1: "s1 = upd_actor a (\<lambda>x. x\<lparr>next_session := next_session x + 1\<rparr>) s"
    using assms(1) by (auto simp: alloc_session_def)
  have "queue_ok x y z q (queue_of s1 q) (actor_of s1 q) (refs q s1) (events_of q s1) =
      queue_ok x y z q (queue_of s q) (actor_of s q) (refs q s) (events_of q s)" for x y z q
    by (simp add: s1 queue_ok_def)
  with assms(2) show "sys_inv X Y Z s1" by (simp add: sys_inv_def s1 grab_queue_def)
  show "keeps_objs s s1" by (simp add: s1 keeps_objs_def)
qed

lemma drain_queue_keeps_objs: "keeps_objs s (drain_queue pick q s)"
  by (rule static_keeps_objs [OF drain_queue_static])

lemma kill_keeps_objs: "keeps_objs s (kill pick h s)"
proof -
  have d: "handle (queue_of (drain_queue pick q t) r) = handle (queue_of t r)"
    "initialized (queue_of (drain_queue pick q t) r) = initialized (queue_of t r)" for q r t
    using drain_queue_static [of t pick q] by (simp_all add: static_same_def)
  show ?thesis unfolding keeps_objs_def kill_next_obj
    by (auto simp: kill_def d Let_def schedule_queue_def clear_queue_owner_def
          destroy_actor_def split: option.splits)
qed

lemma spawn_end_keeps_objs: "q \<ge> n \<Longrightarrow> n \<le> next_obj s \<Longrightarrow> r < n \<Longrightarrow>
    handle (queue_of (snd (spawn_end pick q h s)) r) = handle (queue_of s r) \<and>
    initialized (queue_of (snd (spawn_end pick q h s)) r) = initialized (queue_of s r)"
proof -
  assume "q \<ge> n" "n \<le> next_obj s" "r < n"
  have d: "handle (queue_of (drain_queue pick q t) r) = handle (queue_of t r)"
    "initialized (queue_of (drain_queue pick q t) r) = initialized (queue_of t r)" for t
    using drain_queue_static [of t pick q] by (simp_all add: static_same_def)
  show ?thesis using \<open>q \<ge> n\<close> \<open>r < n\<close>
    by (auto simp: spawn_end_def d Let_def schedule_queue_def clear_queue_owner_def destroy_actor_def)
qed

lemma init_result_keeps_objs: "keeps_objs s (init_result q h out s)"
proof (cases out)
  case (InitThrows what)
  have "keeps_objs s (error h (''actor init failed: '' @ what) s)" by (rule messaging_keeps_objs)
  then show ?thesis by (simp add: InitThrows init_result_def keeps_objs_def)
qed (simp_all add: init_result_def keeps_objs_def)

text \<open>\<open>spawn\<close> around an \<open>on_init\<close> that keeps the invariant.\<close>

lemma spawn_around:
  assumes ok: "picks_ok pick" and inv: "sys_inv {} {} Z s" and Z: "Z \<subseteq> {..<next_obj s}"
    and sb: "spawn_begin s = (q, h, s1)"
    and body: "sys_inv {} {} Z s1 \<Longrightarrow> Z \<subseteq> {..<next_obj s1} \<Longrightarrow> sys_inv {} {} Z s2 \<and> keeps_objs s1 s2"
  shows "sys_inv {} {} Z (snd (spawn_end pick q h (init_result q h out s2)))"
    and "keeps_objs s (snd (spawn_end pick q h (init_result q h out s2)))"
proof -
  note b = spawn_begin_inv [OF inv Z sb]
  have init1: "\<not> initialized (queue_of s1 q)"
    using sb by (auto simp: spawn_begin_def Let_def new_queue_def)
  have s2: "sys_inv {} {} Z s2" "keeps_objs s1 s2"
    using body b Z by fastforce+
  let ?t = "init_result q h out s2"
  have q2: "q < next_obj s2" using s2(2) b(3) by (simp add: keeps_objs_def)
  have t: "sys_inv {} {} Z ?t" "next_obj ?t = next_obj s2"
    using init_result_inv [OF s2(1) q2, of h out] by auto
  have k: "keeps_objs s1 ?t" using s2(2) init_result_keeps_objs by (rule keeps_objs_trans)
  have qt: "handle (queue_of ?t q) = h" "\<not> initialized (queue_of ?t q)" "q < next_obj ?t" "q \<notin> Z"
    using k b init1 q2 t(2) Z by (auto simp: keeps_objs_def)
  with spawn_end_inv [OF ok t(1)] have e: "sys_inv {} {} Z (snd (spawn_end pick q h ?t))"
    "next_obj (snd (spawn_end pick q h ?t)) = next_obj ?t"
    by auto
  then show "sys_inv {} {} Z (snd (spawn_end pick q h ?t))" by simp
  have "handle (queue_of (snd (spawn_end pick q h ?t)) r) = handle (queue_of s r) \<and>
      initialized (queue_of (snd (spawn_end pick q h ?t)) r) = initialized (queue_of s r)"
    if "r < next_obj s" for r
  proof -
    have "handle (queue_of ?t r) = handle (queue_of s1 r)" "initialized (queue_of ?t r) = initialized (queue_of s1 r)"
      using k that b by (auto simp: keeps_objs_def)
    moreover have "queue_of s1 r = queue_of s r"
      using sb that by (auto simp: spawn_begin_def Let_def)
    ultimately show ?thesis
      using spawn_end_keeps_objs [of "next_obj s" q ?t r pick h] that b k by (simp add: keeps_objs_def)
  qed
  then show "keeps_objs s (snd (spawn_end pick q h ?t))"
    using e(2) k b by (simp add: keeps_objs_def)
qed

lemma shutdown_inv:
  assumes inv: "sys_inv X Y Z s"
  shows "sys_inv X Y Z (shutdown s)"
proof (cases "running s")
  case True
  have "count_list (map snd (replicate n (t, None))) (Some q) = 0" for n and t :: nat and q :: obj
    by (induction n) simp_all
  then show ?thesis
    by (intro sys_inv_same [OF inv])
       (use True sys_invD(5) [OF inv] in \<open>simp_all add: shutdown_def refs_def events_of_def\<close>)
qed (simp add: shutdown_def inv)

lemma shutdown_keeps_objs: "keeps_objs s (shutdown s)"
  by (simp add: shutdown_def keeps_objs_def)

lemma free_inv:
  assumes inv: "sys_inv X Y Z s"
  shows "sys_inv X Y Z (emit (EvFree p) s)"
  by (rule sys_inv_same [OF inv]) (use sys_invD(5) [OF inv] in \<open>simp_all add: refs_def events_of_def\<close>)

lemma free_keeps_objs: "keeps_objs s (emit (EvFree p) s)"
  by (simp add: keeps_objs_def)

lemma run_actions_inv:
  "picks_ok pick \<Longrightarrow> sys_inv {} {} Z s \<Longrightarrow> Z \<subseteq> {..<next_obj s} \<Longrightarrow>
     sys_inv {} {} Z (run_action pick a h act s) \<and> keeps_objs s (run_action pick a h act s)"
  "picks_ok pick \<Longrightarrow> sys_inv {} {} Z s \<Longrightarrow> Z \<subseteq> {..<next_obj s} \<Longrightarrow>
     sys_inv {} {} Z (run_actions pick a h acts s) \<and> keeps_objs s (run_actions pick a h acts s)"
proof (induction pick a h act s and pick a h acts s rule: run_action_run_actions.induct)
  case (2 pick a h dest type data s)
  obtain ses s1 where a: "alloc_session a s = (ses, s1)" by fastforce
  from alloc_session_keeps [OF a 2(2)] show ?case
    using messaging_keeps_inv(3) messaging_keeps_objs(2) keeps_objs_trans
    by (auto simp: a keeps_inv_def)
next
  case (4 pick a h delay s)
  obtain ses s1 where a: "alloc_session a s = (ses, s1)" by fastforce
  from alloc_session_keeps [OF a 4(2)] show ?case
    using messaging_keeps_inv(4) messaging_keeps_objs(3) keeps_objs_trans
    by (auto simp: a keeps_inv_def)
next
  case (6 pick a h dest s)
  then show ?case by (simp add: kill_inv kill_keeps_objs)
next
  case (9 pick a h acts out s)
  obtain q h' s1 where sb: "spawn_begin s = (q, h', s1)" by (metis prod_cases3)
  have body: "sys_inv {} {} Z s1 \<Longrightarrow> Z \<subseteq> {..<next_obj s1} \<Longrightarrow>
      sys_inv {} {} Z (run_actions pick q h' acts s1) \<and> keeps_objs s1 (run_actions pick q h' acts s1)"
    using "9.IH" [OF sb [symmetric] refl] "9.prems"(1) by blast
  from spawn_around [OF "9.prems" sb body] show ?case by (simp add: sb)
next
  case (10 pick a h s)
  obtain ses s1 where a: "alloc_session a s = (ses, s1)" by fastforce
  from alloc_session_keeps [OF a 10(2)] a show ?case by simp
next
  case (12 pick a h s)
  then show ?case by (simp add: shutdown_inv shutdown_keeps_objs)
next
  case (13 pick a h p s)
  then show ?case by (simp add: free_inv free_keeps_objs)
next
  case (15 pick a h act acts s)
  let ?s1 = "run_action pick a h act s"
  have 1: "sys_inv {} {} Z ?s1" "keeps_objs s ?s1" using 15 by blast+
  then have "Z \<subseteq> {..<next_obj ?s1}" using 15(5) by (auto simp: keeps_objs_def)
  with 1 15 show ?case using keeps_objs_trans by auto
qed (auto simp: messaging_keeps_objs keeps_objs_refl
      dest: messaging_keeps_inv [unfolded keeps_inv_def, THEN conjunct2, rule_format])

lemma spawn_inv:
  assumes ok: "picks_ok pick" and inv: "sys_inv {} {} {} s"
  shows "sys_inv {} {} {} (snd (spawn pick acts out s))"
proof -
  obtain q h s1 where sb: "spawn_begin s = (q, h, s1)" by (metis prod_cases3)
  have "sys_inv {} {} {} s1 \<Longrightarrow> {} \<subseteq> {..<next_obj s1} \<Longrightarrow>
      sys_inv {} {} {} (run_actions pick q h acts s1) \<and> keeps_objs s1 (run_actions pick q h acts s1)"
    by (rule run_actions_inv(2) [OF ok])
  from spawn_around(1) [OF ok inv _ sb this] show ?thesis by (simp add: spawn_def sb)
qed

section \<open>Dispatching\<close>

lemma monitor_keeps_inv: "keeps_inv s (upd_monitor w f s)"
  by (rule keeps_inv_same) (simp_all add: upd_monitor_def events_of_def)

lemma deliver_inv:
  assumes ok: "picks_ok pick" and inv: "sys_inv {} {} {q} s" and q: "q < next_obj s"
    and live: "\<not> releasing (queue_of s q)"
    and d: "try_dequeue pick (mailbox (queue_of s q)) = Some (pm, rest)"
  shows "sys_inv {} {} {q} (deliver pick beh w q a pm rest s) \<and> keeps_objs s (deliver pick beh w q a pm rest s)"
proof -
  let ?h = "handle (queue_of s q)"
  define s2 where "s2 = emit (EvDeliver q pm) (upd_monitor w (mon_begin (source (snd pm)) ?h)
    (upd_queue q (\<lambda>x. x\<lparr>mailbox := rest, mailbox_count := mailbox_count x - 1\<rparr>) s))"
  note qok = sys_invD(3) [OF inv q] and gq = sys_invD(5) [OF inv] and len = try_dequeue_length [OF d]
  have f: "actor_shards s2 = actor_shards s" "next_obj s2 = next_obj s" "actor_of s2 = actor_of s"
    "global_queue s2 = global_queue s" "global_queue_count s2 = global_queue_count s"
    "\<And>r. refs r s2 = refs r s" "\<And>r. events_of r s2 = events_of r s @ (if r = q then [EvDeliver q pm] else [])"
    "queue_of s2 = (queue_of s)(q := (queue_of s q)\<lparr>mailbox := rest, mailbox_count := mailbox_count (queue_of s q) - 1\<rparr>)"
    by (auto simp: s2_def upd_monitor_def emit_def refs_def events_of_def upd_queue_def)
  have c: "conserved rest (events_of q s @ [EvDeliver q pm])"
    by (rule conserved_consume [OF _ ok d]) (use qok in \<open>simp_all add: queue_ok_def\<close>)
  have nd: "\<not> list_ex is_destroy (events_of q s)"
    using qok live by (simp add: queue_ok_def flip: no_destroy_iff)
  have two: "sys_inv {} {} {q} s2"
    by (rule sys_inv_local [OF inv, of _ q])
       (use qok gq q len c nd live sys_invD(2) [OF inv, of "handle (queue_of s q)" q]
        in \<open>auto simp: queue_ok_def min_def f split: if_splits\<close>)
  have k2: "keeps_objs s s2" by (simp add: keeps_objs_def f)
  obtain acts exc where b: "beh s2 a (snd pm) = (acts, exc)" by fastforce
  let ?s3 = "run_actions pick a ?h acts s2"
  have three: "sys_inv {} {} {q} ?s3" "keeps_objs s2 ?s3"
    using run_actions_inv(2) [OF ok two] q f(2) by auto
  let ?s4 = "case exc of None \<Rightarrow> ?s3 | Some what \<Rightarrow> error ?h (''exception: '' @ what) ?s3"
  have "keeps_inv ?s3 ?s4"
    using messaging_keeps_inv(2) by (simp add: keeps_inv_refl split: option.split)
  also have "keeps_inv ?s4 (upd_monitor w mon_end ?s4)" by (rule monitor_keeps_inv)
  finally have "keeps_inv ?s3 (upd_monitor w mon_end ?s4)" .
  moreover have "handle (queue_of (upd_queue q (\<lambda>x. x\<lparr>mailbox := rest,
      mailbox_count := mailbox_count x - 1\<rparr>) s) q) = ?h"
    by simp
  then have "deliver pick beh w q a pm rest s = upd_monitor w mon_end ?s4"
    unfolding deliver_def Let_def by (simp only: s2_def [symmetric] b prod.case)
  ultimately show ?thesis
    using three k2 static_keeps_objs keeps_objs_trans unfolding keeps_inv_def by metis
qed

lemma dispatch_loop_inv:
  "picks_ok pick \<Longrightarrow> sys_inv {} {} {q} s \<Longrightarrow> q < next_obj s \<Longrightarrow>
   sys_inv {} {} {q} (dispatch_loop pick beh w q q k s) \<and> keeps_objs s (dispatch_loop pick beh w q q k s)"
proof (induction k arbitrary: s)
  case 0
  then show ?case by (simp add: keeps_objs_refl)
next
  case (Suc k)
  show ?case
  proof (cases "destroy_requested (actor_of s q) \<or> releasing (queue_of s q) \<or>
      try_dequeue pick (mailbox (queue_of s q)) = None")
    case True
    with Suc.prems show ?thesis by (auto simp: keeps_objs_refl)
  next
    case False
    then obtain pm rest where d: "try_dequeue pick (mailbox (queue_of s q)) = Some (pm, rest)"
      and nr: "\<not> releasing (queue_of s q)" by auto
    let ?s1 = "deliver pick beh w q q pm rest s"
    have 1: "sys_inv {} {} {q} ?s1" "keeps_objs s ?s1"
      using deliver_inv [OF Suc.prems nr d] by auto
    then have "q < next_obj ?s1" using Suc.prems(3) by (simp add: keeps_objs_def)
    from Suc.IH [OF Suc.prems(1) 1(1) this] 1(2) False d show ?thesis
      using keeps_objs_trans by auto
  qed
qed

lemma dispatch_retire_inv:
  assumes inv: "sys_inv {} {} {q} s" and q: "q < next_obj s"
    and r: "releasing (queue_of s q)" "mailbox (queue_of s q) = []"
  shows "sys_inv {} {} {} (dispatch_leave q q True (set_state q 0 s))"
  by (rule sys_inv_local [OF inv, of _ q])
     (use sys_invD(2) [OF inv, of "handle (queue_of s q)" q] sys_invD(3) [OF inv q] sys_invD(5) [OF inv] q r
      in \<open>auto simp: queue_ok_def dispatch_leave_def set_state_def Let_def clear_queue_owner_def destroy_actor_def\<close>)

lemma dispatch_requeue_inv:
  assumes inv: "sys_inv {} {} {q} s" and q: "q < next_obj s" and r: "\<not> releasing (queue_of s q)"
  shows "sys_inv {} {} {} (dispatch_leave q q False (enqueue_global q (set_state q 1 s)))"
  by (rule sys_inv_local [OF inv, of _ q])
     (use sys_invD(2) [OF inv, of "handle (queue_of s q)" q] sys_invD(3) [OF inv q] sys_invD(5) [OF inv] q r
      in \<open>auto simp: queue_ok_def dispatch_leave_def set_state_def Let_def\<close>)

lemma dispatch_idle_inv:
  assumes inv: "sys_inv {} {} {q} s" and q: "q < next_obj s" and r: "\<not> releasing (queue_of s q)"
    and e: "mailbox (queue_of s q) = []"
  shows "sys_inv {} {} {} (dispatch_leave q q False
    (upd_queue q (\<lambda>x. x\<lparr>overload_threshold := OVERLOAD_THRESHOLD\<rparr>) (set_state q 0 s)))"
  by (rule sys_inv_local [OF inv, of _ q])
     (use sys_invD(2) [OF inv, of "handle (queue_of s q)" q] sys_invD(3) [OF inv q] sys_invD(5) [OF inv] q r e
      in \<open>auto simp: queue_ok_def dispatch_leave_def set_state_def Let_def\<close>)

text \<open>After the message loop: the queue is retired, put back or idle.\<close>

lemma dispatch_tail_inv:
  assumes ok: "picks_ok pick" and inv: "sys_inv {} {} {q} s" and q: "q < next_obj s"
    and t: "t = dispatch_finish pick q q s"
  shows "sys_inv {} {} {} (dispatch_leave q q (destroy_requested (actor_of t q) \<or> releasing (queue_of t q)) t)"
proof -
  note qok = sys_invD(3) [OF inv q]
  have same: "destroy_requested (actor_of s q) \<Longrightarrow> releasing (queue_of s q)"
    and cnt: "mailbox_count (queue_of s q) = length (mailbox (queue_of s q))"
    using qok by (auto simp: queue_ok_def split: if_splits)
  show ?thesis
  proof (cases "releasing (queue_of s q)")
    case True
    let ?d = "drain_queue pick q s"
    have st: "releasing (queue_of ?d q)" "next_obj ?d = next_obj s"
      using drain_queue_static [of s pick q] True by (simp_all add: static_same_def)
    have "t = set_state q 0 ?d" using True t by (simp add: dispatch_finish_def)
    with dispatch_retire_inv [OF drain_queue_inv [OF ok inv q True]] q st ok show ?thesis
      by (simp add: set_state_def)
  next
    case live: False
    then have nd: "\<not> destroy_requested (actor_of s q)" using same by blast
    show ?thesis
    proof (cases "mailbox (queue_of s q) = []")
      case True
      then have "t = upd_queue q (\<lambda>x. x\<lparr>overload_threshold := OVERLOAD_THRESHOLD\<rparr>) (set_state q 0 s)"
        using live nd cnt t by (simp add: dispatch_finish_def Let_def set_state_def)
      with dispatch_idle_inv [OF inv q live True] live nd show ?thesis by (simp add: set_state_def)
    next
      case False
      then have "t = enqueue_global q (set_state q 1 s)"
        using live nd cnt t by (simp add: dispatch_finish_def)
      with dispatch_requeue_inv [OF inv q live] live nd show ?thesis by (simp add: set_state_def)
    qed
  qed
qed

text \<open>A queue has been taken off the global queue.\<close>

definition taken :: "(nat \<times> obj option) list \<Rightarrow> nat \<Rightarrow> system \<Rightarrow> system" where
  "taken rest w s =
     s\<lparr>global_queue := rest, global_queue_count := global_queue_count s - 1, cur_thread := w\<rparr>"

lemma taken_refs:
  assumes "try_dequeue gpick (global_queue s) = Some ((p, qo), rest)"
  shows "refs r s = refs r (taken rest w s) + (if qo = Some r then 1 else 0)"
  using try_dequeue_SomeD [OF assms] by (auto simp: refs_def taken_def)

lemma taken_frame:
  "queue_of (taken rest w s) = queue_of s" "actor_of (taken rest w s) = actor_of s"
  "actor_shards (taken rest w s) = actor_shards s" "next_obj (taken rest w s) = next_obj s"
  "events_of r (taken rest w s) = events_of r s"
  by (simp_all add: taken_def events_of_def)

lemma taken_count:
  assumes "try_dequeue gpick (global_queue s) = Some ((p, qo), rest)" "sys_inv X Y Z s"
  shows "global_queue_count (taken rest w s) = int (length (global_queue (taken rest w s)))"
  using try_dequeue_length [OF assms(1)] sys_invD(5) [OF assms(2)] by (simp add: taken_def)

lemma dispatch_queue_taken_inv:
  assumes ok: "picks_ok pick" and inv: "sys_inv {} {} {} s"
    and d: "try_dequeue gpick (global_queue s) = Some ((p, Some q), rest)"
  shows "sys_inv {} {} {} (dispatch_queue pick beh weight w q (taken rest w s))"
proof -
  have r: "refs q s = Suc (refs q (taken rest w s))" "\<And>r. r \<noteq> q \<Longrightarrow> refs r (taken rest w s) = refs r s"
    using taken_refs [OF d, where w = w] by auto
  then have q: "q < next_obj s" using sys_invD(4) [OF inv, of q] r(1) by (metis Zero_not_Suc linorder_not_le)
  note qok = sys_invD(3) [OF inv q] and cnt = taken_count [OF d inv, of w]
  let ?s1 = "taken rest w s"
  show ?thesis
  proof (cases "releasing (queue_of s q)")
    case True
    then have st: "schedule_state (queue_of s q) = 0" using qok by (auto simp: queue_ok_def)
    have "sys_inv {} {} {} ?s1"
      by (rule sys_inv_local [OF inv, of _ q])
         (use sys_invD(2) [OF inv, of "handle (queue_of s q)" q] qok q r cnt True
          in \<open>auto simp: queue_ok_def taken_frame\<close>)
    with st show ?thesis by (simp add: dispatch_queue_def taken_frame)
  next
    case False
    then have st: "schedule_state (queue_of s q) = 1" "owner (queue_of s q) = Some q"
        "\<not> destroy_requested (actor_of s q)" "refs q s = 1"
      using qok r by (auto simp: queue_ok_def split: if_splits)
    define s2 where "s2 = upd_actor q (\<lambda>x. x\<lparr>dispatch_depth := dispatch_depth x + 1\<rparr>) (set_state q 2 ?s1)"
    have two: "sys_inv {} {} {q} s2"
      by (rule sys_inv_local [OF inv, of _ q])
         (use sys_invD(2) [OF inv, of "handle (queue_of s q)" q] qok q r cnt False st
          in \<open>auto simp: queue_ok_def taken_frame s2_def set_state_def\<close>)
    have q2: "q < next_obj s2" using q by (simp add: s2_def set_state_def taken_frame)
    let ?batch = "batch_size weight (mailbox_count (queue_of s2 q))"
    let ?s3 = "dispatch_loop pick beh w q q ?batch s2"
    have 3: "sys_inv {} {} {q} ?s3" "q < next_obj ?s3"
      using dispatch_loop_inv [OF ok two q2, of beh w ?batch] q2 by (simp_all add: keeps_objs_def)
    have "dispatch_queue pick beh weight w q ?s1 =
        (let t = dispatch_finish pick q q ?s3
         in dispatch_leave q q (destroy_requested (actor_of t q) \<or> releasing (queue_of t q)) t)"
      using st False
      by (simp add: dispatch_queue_def s2_def set_state_def taken_frame queue_owner_def Let_def)
    with dispatch_tail_inv [OF ok 3 refl] show ?thesis by (simp add: Let_def)
  qed
qed

lemma worker_turn_inv:
  assumes ok: "picks_ok pick" and inv: "sys_inv {} {} {} s"
  shows "sys_inv {} {} {} (worker_turn gpick pick beh w s)"
proof (cases "running s \<and> try_dequeue gpick (global_queue s) \<noteq> None")
  case False
  then have "worker_turn gpick pick beh w s = s" by (simp add: worker_turn_def split: option.split)
  with inv show ?thesis by simp
next
  case True
  then obtain p qo rest where d: "try_dequeue gpick (global_queue s) = Some ((p, qo), rest)"
    by (metis option.exhaust surj_pair)
  have u: "worker_turn gpick pick beh w s =
      (case qo of None \<Rightarrow> taken rest w s
       | Some q \<Rightarrow> dispatch_queue pick beh (calc_weight (worker_count s) (int w)) w q (taken rest w s))"
    using True d by (simp add: worker_turn_def taken_def Let_def split: option.split)
  show ?thesis
  proof (cases qo)
    case None
    have "sys_inv {} {} {} (taken rest w s)"
      by (rule sys_inv_same [OF inv])
         (use taken_refs [OF d, where w = w] taken_count [OF d inv] None in \<open>simp_all add: taken_frame\<close>)
    with None show ?thesis by (simp add: u)
  next
    case (Some q)
    with dispatch_queue_taken_inv [OF ok inv d [unfolded Some]] show ?thesis by (simp add: u)
  qed
qed

section \<open>The other operations\<close>

lemma timer_fire_inv: "sys_inv X Y Z s \<Longrightarrow> sys_inv X Y Z (timer_fire i ec s)"
proof -
  assume inv: "sys_inv X Y Z s"
  have "keeps_inv s (s\<lparr>timers := ts\<rparr>)" for ts
    by (rule keeps_inv_same) (simp_all add: events_of_def)
  then have "keeps_inv s (s\<lparr>timers := ts\<rparr>)" "keeps_inv s (send 0 dest PTYPE_RESPONSE ses Monostate (s\<lparr>timers := ts\<rparr>))"
    for ts dest ses
    using keeps_inv_trans messaging_keeps_inv(3) by blast+
  then have "keeps_inv s (timer_fire i ec s)"
    by (simp add: timer_fire_def keeps_inv_refl Let_def split: prod.split)
  with inv show ?thesis by (simp add: keeps_inv_def)
qed

lemma push_global_inv:
  assumes inv: "sys_inv {} {} {} s"
  shows "sys_inv {} {} {} (push_global h s)"
proof (cases "grab_queue s h")
  case (Some q)
  then have q: "q < next_obj s" "\<not> releasing (queue_of s q)"
    using sys_invD(2) [OF inv] queue_ok_accepting [OF sys_invD(3) [OF inv]] by blast+
  from schedule_queue_inv [OF inv q] Some show ?thesis by (simp add: push_global_def)
qed (simp add: push_global_def inv)

lemma monitor_worker_keeps_inv: "keeps_inv s (monitor_worker i s)"
proof -
  obtain b m where c: "mon_check (monitors s i) = (b, m)" by fastforce
  have "keeps_inv s (upd_monitor i (\<lambda>x. m) s)" by (rule monitor_keeps_inv)
  then show ?thesis
    using keeps_inv_trans messaging_keeps_inv(2) by (auto simp: monitor_worker_def c Let_def)
qed

lemma monitor_round_inv: "sys_inv X Y Z s \<Longrightarrow> sys_inv X Y Z (monitor_round s)"
proof -
  have "keeps_inv s (fold monitor_worker ws s)" for ws
    by (induction ws arbitrary: s)
       (auto simp: keeps_inv_refl intro: keeps_inv_trans monitor_worker_keeps_inv)
  then show "sys_inv X Y Z s \<Longrightarrow> sys_inv X Y Z (monitor_round s)"
    by (simp add: monitor_round_def keeps_inv_def)
qed

lemma run_begin_inv: "sys_inv X Y Z s \<Longrightarrow> sys_inv X Y Z (run_begin s)"
  by (rule sys_inv_same) (simp_all add: run_begin_def refs_def events_of_def sys_invD(5))

lemma thread_inv: "sys_inv X Y Z s \<Longrightarrow> sys_inv X Y Z (s\<lparr>cur_thread := t\<rparr>)"
  by (rule sys_inv_same) (simp_all add: refs_def events_of_def sys_invD(5))

lemma new_system_inv: "sys_inv {} {} {} (new_system w h)"
proof -
  have "shard_find (replicate 64 []) h = None" for h
    using shard_index_less [of h] by (simp add: shard_find_def)
  then show ?thesis
    by (simp add: sys_inv_def new_system_def grab_queue_def shards_ok_def events_of_def refs_def)
qed

section \<open>Reachable states\<close>

text \<open>
  The transition system of the runtime at the granularity of operations: any thread may run
  next, the concurrent queues and user code make any choice they may make.
\<close>

definition is_new_system :: "system \<Rightarrow> bool" where
  "is_new_system s \<longleftrightarrow> (\<exists>w h. s = new_system w h)"

inductive sys_step :: "system \<Rightarrow> system \<Rightarrow> bool" where
  step_thread: "sys_step s (s\<lparr>cur_thread := t\<rparr>)"
| step_spawn: "picks_ok pick \<Longrightarrow> sys_step s (snd (spawn pick acts out s))"
| step_kill: "picks_ok pick \<Longrightarrow> sys_step s (kill pick h s)"
| step_send: "sys_step s (send src dest type ses data s)"
| step_error: "sys_step s (error src what s)"
| step_register: "sys_step s (register_name name h s)"
| step_timeout: "sys_step s (timeout dest ses delay s)"
| step_timer: "sys_step s (timer_fire i ec s)"
| step_push_global: "sys_step s (push_global h s)"
| step_worker: "picks_ok gpick \<Longrightarrow> picks_ok pick \<Longrightarrow> sys_step s (worker_turn gpick pick beh w s)"
| step_monitor: "sys_step s (monitor_round s)"
| step_run: "sys_step s (run_begin s)"
| step_shutdown: "sys_step s (shutdown s)"

interpretation runtime: invariant_system is_new_system sys_step "sys_inv {} {} {}"
proof (unfold_locales, goal_cases)
  case (1 s)
  then show ?case by (auto simp: is_new_system_def new_system_inv)
next
  case (2 s t)
  from 2(2,1) show ?case
    by (cases rule: sys_step.cases)
       (auto simp: thread_inv spawn_inv kill_inv timer_fire_inv push_global_inv worker_turn_inv
          monitor_round_inv run_begin_inv shutdown_inv
        dest: messaging_keeps_inv [unfolded keeps_inv_def, THEN conjunct2, rule_format])
qed

end
