(* ===== verification/Actor_Props.thy ===== *)
theory Actor_Props
  imports Actor_Lifecycle
begin

text \<open>
  What the actor runtime guarantees: no accepted message is lost or stuck, actors are destroyed
  once and not used afterwards, undeliverable requests are answered, one turn of a worker is
  bounded and makes progress, the registry behaves as a map, and where error reports go.
\<close>

section \<open>Consequences of the invariant\<close>

lemma reach_queue_ok:
  assumes "reach is_new_system sys_step s" "q < next_obj s"
  shows "queue_ok False False False q (queue_of s q) (actor_of s q) (refs q s) (events_of q s)"
  using sys_invD(3) [OF runtime.reach_inv [OF assms(1)] assms(2)] by simp

lemma reach_registered:
  assumes "reach is_new_system sys_step s" "grab_queue s h = Some q"
  shows "q < next_obj s" "handle (queue_of s q) = h" "\<not> releasing (queue_of s q)"
  using sys_invD(2) [OF runtime.reach_inv [OF assms(1)] assms(2)]
    queue_ok_accepting [OF reach_queue_ok [OF assms(1)]] by blast+

section \<open>Nesting of error reports\<close>

lemma posted_count:
  "mailbox_count (queue_of (posted q msg s) r) = mailbox_count (queue_of s r) + (if r = q then 1 else 0)"
  by (simp add: posted_def enqueue_mail_def raise_threshold_def Let_def)

lemma too_deep_schedule [simp]: "too_deep (schedule_queue q s) = too_deep s"
  by (simp add: schedule_queue_def enqueue_global_def Let_def)

lemma too_deep_posted [simp]: "too_deep (posted q msg s) = too_deep s"
  by (simp add: posted_def enqueue_mail_def raise_threshold_def Let_def)

lemma receiver_posted [simp]: "receiver (posted q msg s) dest = receiver s dest"
  using static_same_posted [of s q msg]
  by (simp add: receiver_def grab_queue_def static_same_def split: option.split)

text \<open>A queue has room when one more message does not reach its threshold.\<close>

definition has_room :: "system \<Rightarrow> obj \<Rightarrow> bool" where
  "has_room s q \<longleftrightarrow> mailbox_count (queue_of s q) + 1 < overload_threshold (queue_of s q)"

lemma push_shallow:
  assumes "\<not> wants_reply msg" "\<And>q. receiver s dest = Some q \<Longrightarrow> has_room s q"
  shows "too_deep (push_message_n (Suc n) dest msg s) = too_deep s"
proof (cases "receiver s dest")
  case None
  then show ?thesis using assms(1) by (simp add: push_message_n_reject)
next
  case (Some q)
  then have "\<not> mailbox_count (queue_of (enqueue_mail q msg s) q) \<ge> overload_threshold (queue_of (enqueue_mail q msg s) q)"
    using assms(2) by (simp add: has_room_def enqueue_mail_def)
  then show ?thesis by (simp add: push_message_n_accept [OF Some] Let_def)
qed

lemma error_pushes:
  obtains lh msg where "\<not> wants_reply msg"
    "too_deep (error_n (Suc (Suc n)) src what s) = too_deep s \<or>
     error_n (Suc (Suc n)) src what s = push_message_n (Suc n) lh msg (s\<lparr>logger_handle := lh\<rparr>)"
proof (cases "(if logger_handle s = 0 then find_name s ''logger'' else logger_handle s) = 0")
  case True
  show thesis
    by (rule that [of "\<lparr>source = 0, session = 0, mtype = PTYPE_ERROR, mdata = Monostate\<rparr>"])
       (use True in \<open>simp_all add: error_n.simps wants_reply_def Let_def\<close>)
next
  case False
  show thesis
    by (rule that [of "\<lparr>source = src, session = 0, mtype = PTYPE_ERROR, mdata = Text (take 511 what)\<rparr>"
          "if logger_handle s = 0 then find_name s ''logger'' else logger_handle s"])
       (use False in \<open>simp_all add: error_n.simps wants_reply_def Let_def\<close>)
qed

text \<open>Every queue may be at its threshold, but not beyond it, and no mailbox is astronomically long.\<close>

definition thresholds_ok :: "nat \<Rightarrow> system \<Rightarrow> bool" where
  "thresholds_ok bound s \<longleftrightarrow>
     (\<forall>h q. grab_queue s h = Some q \<longrightarrow>
        1024 \<le> overload_threshold (queue_of s q) \<and>
        mailbox_count (queue_of s q) < overload_threshold (queue_of s q) \<and>
        mailbox_count (queue_of s q) < bound)"

lemma posted_room:
  assumes "1024 \<le> overload_threshold (queue_of s q)"
    "mailbox_count (queue_of s q) < overload_threshold (queue_of s q)" "mailbox_count (queue_of s q) < 2 ^ 62"
    "overload_threshold (queue_of s q) \<le> mailbox_count (queue_of s q) + 1"
  shows "has_room (posted q msg s) q"
  using assms
  by (auto simp: has_room_def posted_def enqueue_mail_def raise_threshold_def next_threshold_def Let_def)

lemma posted_other: "r \<noteq> q \<Longrightarrow> queue_of (posted q msg s) r = queue_of s r"
  by (simp add: posted_def enqueue_mail_def raise_threshold_def Let_def)

lemma grab_queue_posted: "grab_queue (posted q msg s) h = grab_queue s h"
  using static_same_posted [of s q msg] by (simp add: grab_queue_def static_same_def)

lemma logger_handle_posted [simp]: "logger_handle (posted q msg s) = logger_handle s"
  by (simp add: posted_def enqueue_mail_def raise_threshold_def Let_def)

lemma overloaded_iff:
  "mailbox_count (queue_of (enqueue_mail q msg s) q) \<ge> overload_threshold (queue_of (enqueue_mail q msg s) q) \<longleftrightarrow>
   overload_threshold (queue_of s q) \<le> mailbox_count (queue_of s q) + 1"
  by (simp add: enqueue_mail_def)

lemma error_shallow:
  assumes "logger_handle s \<noteq> 0" "\<And>q. receiver s (logger_handle s) = Some q \<Longrightarrow> has_room s q"
  shows "too_deep (error_n (Suc (Suc n)) src what s) = too_deep s"
proof -
  let ?msg = "\<lparr>source = src, session = 0, mtype = PTYPE_ERROR, mdata = Text (take 511 what)\<rparr>"
  have "error_n (Suc (Suc n)) src what s = push_message_n (Suc n) (logger_handle s) ?msg s"
    using assms(1) by (simp add: error_n.simps)
  moreover have "\<not> wants_reply ?msg" by (simp add: wants_reply_def)
  ultimately show ?thesis using push_shallow [OF _ assms(2)] by simp
qed

text \<open>Reporting an error nests at most four calls: the report may itself overload the logger.\<close>

lemma error_not_too_deep:
  assumes ok: "thresholds_ok bound s" and bound: "bound \<le> 2 ^ 62"
  shows "too_deep (error_n (4 + n) src what s) = too_deep s"
proof -
  define lh where "lh = (if logger_handle s = 0 then find_name s ''logger'' else logger_handle s)"
  define msg where "msg = \<lparr>source = src, session = 0, mtype = PTYPE_ERROR, mdata = Text (take 511 what)\<rparr>"
  define s1 where "s1 = s\<lparr>logger_handle := lh\<rparr>"
  have e: "error_n (4 + n) src what s =
      (if lh \<noteq> 0 then push_message_n (3 + n) lh msg s1 else emit (EvStderr src (take 511 what)) s1)"
    by (simp add: error_n.simps lh_def msg_def s1_def Let_def eval_nat_numeral)
  have nr: "\<not> wants_reply msg" by (simp add: msg_def wants_reply_def)
  have s1: "too_deep s1 = too_deep s" "logger_handle s1 = lh" "queue_of s1 = queue_of s"
    "receiver s1 = receiver s" "grab_queue s1 = grab_queue s"
    by (auto simp: s1_def receiver_def grab_queue_def split: option.split)
  show ?thesis
  proof (cases "lh = 0 \<or> receiver s1 lh = None")
    case True
    then show ?thesis using nr e s1 by (auto simp: eval_nat_numeral push_message_n_reject)
  next
    case False
    then obtain q where r: "receiver s1 lh = Some q" and lh: "lh \<noteq> 0" by auto
    then have g: "grab_queue s lh = Some q" using receiverD s1 by metis
    have "3 + n = Suc (2 + n)" by simp
    then have p: "push_message_n (3 + n) lh msg s1 =
        (let s2 = (if overload_threshold (queue_of s1 q) \<le> mailbox_count (queue_of s1 q) + 1
                   then error_n (2 + n) lh (overload_text (mailbox_count (queue_of (enqueue_mail q msg s1) q))) (posted q msg s1)
                   else posted q msg s1)
         in if \<not> initialized (queue_of s2 q) then s2 else schedule_queue q s2)"
      using push_message_n_accept [OF r, of "2 + n" msg] overloaded_iff [of q msg s1]
      by (simp only: Let_def)
    have "too_deep (error_n (2 + n) lh t (posted q msg s1)) = too_deep s"
      if "overload_threshold (queue_of s1 q) \<le> mailbox_count (queue_of s1 q) + 1" for t
    proof -
      have b: "1024 \<le> overload_threshold (queue_of s1 q)" "mailbox_count (queue_of s1 q) < bound"
        "mailbox_count (queue_of s1 q) < overload_threshold (queue_of s1 q)"
        using ok g s1 by (auto simp: thresholds_ok_def)
      have "mailbox_count (queue_of s1 q) < 2 ^ 62" using b(2) bound by (rule less_le_trans)
      from posted_room [OF b(1,3) this that] have "has_room (posted q msg s1) q" .
      then have "too_deep (error_n (Suc (Suc n)) lh t (posted q msg s1)) = too_deep (posted q msg s1)"
        using lh r s1 by (intro error_shallow) auto
      then show ?thesis using s1 by simp
    qed
    then show ?thesis using e lh p s1 by (auto simp: Let_def)
  qed
qed

lemma push_not_too_deep:
  assumes ok: "thresholds_ok bound s" and bound: "bound < 2 ^ 62"
    and nr: "receiver s dest = None \<Longrightarrow> \<not> wants_reply msg"
  shows "too_deep (push_message_n (5 + n) dest msg s) = too_deep s"
proof (cases "receiver s dest")
  case None
  then show ?thesis using nr by (simp add: eval_nat_numeral push_message_n_reject)
next
  case (Some q)
  have "5 + n = Suc (4 + n)" by simp
  then have p: "push_message_n (5 + n) dest msg s =
      (let s2 = (if overload_threshold (queue_of s q) \<le> mailbox_count (queue_of s q) + 1
                 then error_n (4 + n) dest (overload_text (mailbox_count (queue_of (enqueue_mail q msg s) q))) (posted q msg s)
                 else posted q msg s)
       in if \<not> initialized (queue_of s2 q) then s2 else schedule_queue q s2)"
    using push_message_n_accept [OF Some, of "4 + n" msg] overloaded_iff [of q msg s] by (simp only: Let_def)
  have "too_deep (error_n (4 + n) dest t (posted q msg s)) = too_deep s"
    if o: "overload_threshold (queue_of s q) \<le> mailbox_count (queue_of s q) + 1" for t
  proof -
    have g: "grab_queue s dest = Some q" using Some receiverD by blast
    have b: "1024 \<le> overload_threshold (queue_of s q)" "mailbox_count (queue_of s q) < bound"
      "mailbox_count (queue_of s q) < overload_threshold (queue_of s q)"
      using ok g by (auto simp: thresholds_ok_def)
    have "mailbox_count (queue_of s q) < 2 ^ 62" using b(2) bound by (rule less_trans)
    from posted_room [OF b(1,3) this o] have "has_room (posted q msg s) q" .
    moreover have "1024 \<le> overload_threshold (queue_of (posted q msg s) q)"
      using b(1) by (auto simp: posted_def enqueue_mail_def raise_threshold_def next_threshold_def Let_def)
    ultimately have "thresholds_ok (bound + 1) (posted q msg s)"
      using ok posted_other [of _ q msg s]
      unfolding thresholds_ok_def grab_queue_posted has_room_def posted_count
      by (auto split: if_splits intro: less_SucI)
    from error_not_too_deep [OF this, of n dest t] bound show ?thesis by simp
  qed
  then show ?thesis using p by (auto simp: Let_def)
qed

lemma reach_thresholds_ok:
  assumes "reach is_new_system sys_step s" "\<And>q. mailbox_count (queue_of s q) < bound" "bound < 2 ^ 62"
  shows "thresholds_ok bound s"
  unfolding thresholds_ok_def
proof (intro allI impI)
  fix h q assume "grab_queue s h = Some q"
  from reach_queue_ok [OF assms(1) reach_registered(1) [OF assms(1) this]]
  have "1024 \<le> overload_threshold (queue_of s q)"
    "min (mailbox_count (queue_of s q)) (2 ^ 63 - 1) < overload_threshold (queue_of s q)"
    unfolding queue_ok_def by blast+
  moreover have "mailbox_count (queue_of s q) < 2 ^ 63 - 1"
    using assms(2) [of q] assms(3) by simp
  ultimately show "1024 \<le> overload_threshold (queue_of s q) \<and>
      mailbox_count (queue_of s q) < overload_threshold (queue_of s q) \<and> mailbox_count (queue_of s q) < bound"
    using assms(2) [of q] by simp
qed

section \<open>Undeliverable messages\<close>

lemma accept_mailbox:
  assumes "receiver s dest = Some q"
  shows "\<exists>xs. mailbox (queue_of (push_message_n (Suc n) dest msg s) q) =
      mailbox (queue_of s q) @ (cur_thread s, msg) # xs \<and> list_all (\<lambda>x. \<not> wants_reply (snd x)) xs"
proof -
  let ?s1 = "enqueue_mail q msg s"
  let ?s2 = "if mailbox_count (queue_of ?s1 q) \<ge> overload_threshold (queue_of ?s1 q)
    then error_n n dest (overload_text (mailbox_count (queue_of ?s1 q))) (posted q msg s) else posted q msg s"
  have one: "mailbox (queue_of (posted q msg s) q) = mailbox (queue_of s q) @ [(cur_thread s, msg)]"
    by (simp add: posted_def enqueue_mail_def raise_threshold_def Let_def)
  have "only_errors_added (posted q msg s) ?s2"
    using errors_add_only_errors(2) only_errors_added_refl by simp
  then obtain xs where "mailbox (queue_of ?s2 q) = mailbox (queue_of (posted q msg s) q) @ xs"
    "list_all (\<lambda>x. \<not> wants_reply (snd x)) xs"
    unfolding only_errors_added_def by blast
  with one show ?thesis by (simp add: push_message_n_accept [OF assms] Let_def)
qed

text \<open>The queue error reports go to; nothing but the report and what it brings about changes.\<close>

definition logger_queue :: "system \<Rightarrow> obj option" where
  "logger_queue s =
     (let lh = (if logger_handle s = 0 then find_name s ''logger'' else logger_handle s)
      in if lh = 0 then None else receiver s lh)"

lemma logger_queue_posted [simp]: "logger_queue (posted q msg s) = logger_queue s"
proof -
  have "names (posted q msg s) = names s"
    by (simp add: posted_def enqueue_mail_def raise_threshold_def Let_def)
  then show ?thesis by (simp add: logger_queue_def find_name_def Let_def cong: option.case_cong)
qed

lemma logger_queue_set:
  "lh = (if logger_handle s = 0 then find_name s ''logger'' else logger_handle s) \<Longrightarrow> lh \<noteq> 0 \<Longrightarrow>
   logger_queue (s\<lparr>logger_handle := lh\<rparr>) = logger_queue s \<and> logger_queue s = receiver s lh \<and>
   receiver (s\<lparr>logger_handle := lh\<rparr>) = receiver s"
  by (auto simp: logger_queue_def receiver_def grab_queue_def fun_eq_iff split: option.split)

lemma schedule_queue_other: "r \<noteq> q \<Longrightarrow> queue_of (schedule_queue q s) r = queue_of s r"
  by (simp add: schedule_queue_def)

lemma push_error_other:
  "(receiver s dest = None \<longrightarrow> \<not> wants_reply msg) \<Longrightarrow> receiver s dest \<noteq> Some r \<Longrightarrow> logger_queue s \<noteq> Some r \<Longrightarrow>
     queue_of (push_message_n n dest msg s) r = queue_of s r"
  "logger_queue s \<noteq> Some r \<Longrightarrow> queue_of (error_n n src what s) r = queue_of s r"
proof (induction n dest msg s and n src what s rule: push_message_n_error_n.induct)
  case (2 n dest msg s)
  show ?case
  proof (cases "receiver s dest")
    case None
    with "2.prems" show ?thesis by (simp add: push_message_n_reject free_owned_message_data_def split: payload.split)
  next
    case (Some q)
    have e: "queue_of (error_n n dest (overload_text x) (posted q msg s)) r = queue_of (posted q msg s) r"
      if "x = mailbox_count (queue_of (enqueue_mail q msg s) q)"
        "x \<ge> overload_threshold (queue_of (enqueue_mail q msg s) q)" for x
    proof -
      have "raise_threshold q (enqueue_mail q msg s) = posted q msg s" using that by (simp add: posted_def)
      with "2.IH"(2) [OF Some refl that(1)] that "2.prems"(3) show ?thesis by simp
    qed
    from Some "2.prems"(2) have "r \<noteq> q" by simp
    with e show ?thesis
      by (simp add: push_message_n_accept [OF Some] Let_def schedule_queue_other posted_other)
  qed
next
  case (4 n src what s)
  let ?lh = "if logger_handle s = 0 then find_name s ''logger'' else logger_handle s"
  show ?case
  proof (cases "?lh = 0")
    case True
    then show ?thesis by (simp add: error_n.simps Let_def)
  next
    case False
    let ?s1 = "s\<lparr>logger_handle := ?lh\<rparr>"
    let ?msg = "\<lparr>source = src, session = 0, mtype = PTYPE_ERROR, mdata = Text (take 511 what)\<rparr>"
    note lq = logger_queue_set [OF refl False]
    have "\<not> wants_reply ?msg" by (simp add: wants_reply_def)
    with "4.IH" [OF refl refl refl False] lq "4.prems"
    have "queue_of (push_message_n n ?lh ?msg ?s1) r = queue_of ?s1 r" by metis
    with False show ?thesis by (simp only: error_n.simps Let_def if_True not_False_eq_True) simp
  qed
qed (simp_all add: push_message_n.simps error_n.simps)

lemma push_room_other:
  assumes "receiver s dest = Some q" "has_room s q" "r \<noteq> q"
  shows "queue_of (push_message_n (Suc n) dest msg s) r = queue_of s r"
  using assms(2,3)
  by (simp add: push_message_n_accept [OF assms(1)] Let_def has_room_def enqueue_mail_def schedule_queue_other
      posted_def)

section \<open>A small run\<close>

text \<open>One actor on four workers, with one message waiting in its mailbox.\<close>

definition demo :: system where
  "demo = send 7 1 PTYPE_TEXT 0 (Text ''hi'') (snd (spawn (\<lambda>ps. 0) [] InitOk (new_system 4 4)))"

lemma picks_first: "picks_ok (\<lambda>ps. 0)"
  by (simp add: picks_ok_def)

lemma new_reachable: "reach is_new_system sys_step (new_system w h)"
  by (rule reach_init) (auto simp: is_new_system_def)

lemma demo_reachable: "reach is_new_system sys_step demo"
  unfolding demo_def
  by (rule reach_step [OF reach_step [OF new_reachable step_spawn [OF picks_first]] step_send])

lemma demo_state:
  "grab_queue demo 1 = Some 0" "initialized (queue_of demo 0)" "mailbox (queue_of demo 0) \<noteq> []"
  "0 < next_obj demo" "receiver demo 9 = None" "receiver demo 1 = Some 0"
  by code_simp+

section \<open>Properties\<close>

text \<open>
  C3.  No accepted message is stuck: in every reachable state, an initialised registered actor
  with messages in its mailbox has its queue in the global queue, exactly once.
\<close>

theorem pending_messages_are_scheduled:
  assumes "reach is_new_system sys_step s" and "grab_queue s h = Some q"
    and "initialized (queue_of s q)" and "mailbox (queue_of s q) \<noteq> []"
  shows "count_list (map snd (global_queue s)) (Some q) = 1"
proof -
  note r = reach_registered [OF assms(1,2)]
  have "schedule_state (queue_of s q) = 1"
    using reach_queue_ok [OF assms(1) r(1)] r(3) assms(3,4) by (auto simp: queue_ok_def split: if_splits)
  then show ?thesis
    using reach_queue_ok [OF assms(1) r(1)] r(3) by (simp add: queue_ok_def refs_def)
qed

theorem pending_messages_are_scheduled_witness:
  "count_list (map snd (global_queue demo)) (Some 0) = 1"
  by (rule pending_messages_are_scheduled [OF demo_reachable demo_state(1-3)])

text \<open>
  C2.  Conservation and order: in every reachable state, the messages one thread has put into an
  actor's mailbox are, in the order they were sent, those already handed to the actor or discarded
  with it, followed by those still waiting.  None is lost, duplicated or overtaken by a later
  message of the same thread.
\<close>

theorem messages_conserved_in_order:
  assumes "reach is_new_system sys_step s" and "q < next_obj s"
  shows "filter (\<lambda>x. fst x = p) (enqueued (events_of q s)) =
    filter (\<lambda>x. fst x = p) (consumed (events_of q s)) @ filter (\<lambda>x. fst x = p) (mailbox (queue_of s q))"
  using reach_queue_ok [OF assms] by (simp add: queue_ok_def conserved_def)

theorem messages_conserved_in_order_witness:
  "filter (\<lambda>x. fst x = 0) (enqueued (events_of 0 demo)) =
    filter (\<lambda>x. fst x = 0) (consumed (events_of 0 demo)) @ filter (\<lambda>x. fst x = 0) (mailbox (queue_of demo 0))"
  by (rule messages_conserved_in_order [OF demo_reachable demo_state(4)])

text \<open>
  C4.  Life cycle, when calls run without interference: in every state reached by whole calls of the
  interface and whole turns of workers, \<open>on_destroy\<close> has run at most once for each actor; no message has
  been handed to an actor after it, nor after a message was discarded; messages are discarded only with an
  actor whose queue is released; and a released queue has no owner, its actor having been destroyed.  (Under
  interference inside the calls at most one \<open>on_destroy\<close> remains true, \<open>dispatch_protocol_safe\<close>, but not that it
  excludes \<open>on_message\<close>, \<open>destroy_races_with_message\<close>, nor that released mailboxes stay empty,
  \<open>message_stranded_by_kill\<close>.)
\<close>

theorem actors_destroyed_once:
  assumes "reach is_new_system sys_step s" and "q < next_obj s"
  shows "length (filter is_destroy (events_of q s)) \<le> 1 \<and> no_late_delivery (events_of q s) \<and>
    drops_last (events_of q s) \<and> (list_ex is_drop (events_of q s) \<longrightarrow> releasing (queue_of s q)) \<and>
    (releasing (queue_of s q) \<longrightarrow> destroyed (actor_of s q) \<and> owner (queue_of s q) = None)"
  using reach_queue_ok [OF assms] by (auto simp: queue_ok_def)

theorem actors_destroyed_once_witness:
  "length (filter is_destroy (events_of 0 (kill (\<lambda>ps. 0) 1 demo))) \<le> 1 \<and>
   no_late_delivery (events_of 0 (kill (\<lambda>ps. 0) 1 demo)) \<and>
   destroyed (actor_of (kill (\<lambda>ps. 0) 1 demo) 0) \<and> owner (queue_of (kill (\<lambda>ps. 0) 1 demo) 0) = None"
proof -
  let ?s = "kill (\<lambda>ps. 0) 1 demo"
  have r: "reach is_new_system sys_step ?s"
    by (rule reach_step [OF demo_reachable step_kill [OF picks_first]])
  have "0 < next_obj ?s" using demo_state(4) by simp
  moreover have "releasing (queue_of ?s 0)" by code_simp
  ultimately show ?thesis using actors_destroyed_once [OF r, of 0] by blast
qed

text \<open>
  Bookkeeping: in every reachable state the mailbox counter of every queue is the length of
  its mailbox, a registered queue has the handle it is registered under and is not being released,
  and the counter of the global queue is its length.
\<close>

theorem counters_exact:
  assumes "reach is_new_system sys_step s"
  shows "global_queue_count s = int (length (global_queue s)) \<and>
    (\<forall>q < next_obj s. mailbox_count (queue_of s q) = length (mailbox (queue_of s q))) \<and>
    (\<forall>h q. grab_queue s h = Some q \<longrightarrow> handle (queue_of s q) = h \<and> \<not> releasing (queue_of s q))"
  using reach_queue_ok [OF assms] sys_invD(5) [OF runtime.reach_inv [OF assms]] reach_registered [OF assms]
  by (simp add: queue_ok_def)

theorem counters_exact_witness:
  "global_queue_count demo = int (length (global_queue demo)) \<and>
   mailbox_count (queue_of demo 0) = length (mailbox (queue_of demo 0)) \<and>
   handle (queue_of demo 0) = 1 \<and> \<not> releasing (queue_of demo 0)"
  using counters_exact [OF demo_reachable] demo_state(1,4) by blast

text \<open>
  C26.  Undeliverable messages: a message to a handle that no actor accepts messages for is answered if it is
  a request from an actor that accepts messages: that actor receives an error reply with the session of the
  request, followed at most by error reports of the runtime, and no other queue changes, except that of the
  logger if the reply finds the mailbox overloaded.  In every other case, also for a request whose sender
  no longer accepts messages, nothing happens but that the payload is freed, as it always is.
\<close>

theorem undeliverable_message:
  assumes "receiver s dest = None"
  shows "(\<not> wants_reply msg \<or> receiver s (source msg) = None \<longrightarrow>
      push_message dest msg s = free_owned_message_data msg s) \<and>
    (wants_reply msg \<longrightarrow> receiver s (source msg) = Some q \<longrightarrow>
       (\<exists>xs. mailbox (queue_of (push_message dest msg s) q) =
          mailbox (queue_of s q) @
            (cur_thread s, \<lparr>source = 0, session = session msg, mtype = PTYPE_ERROR, mdata = Monostate\<rparr>) # xs \<and>
          list_all (\<lambda>x. \<not> wants_reply (snd x)) xs) \<and>
       (\<forall>r. r \<noteq> q \<and> logger_queue s \<noteq> Some r \<longrightarrow> queue_of (push_message dest msg s) r = queue_of s r) \<and>
       (has_room s q \<longrightarrow> (\<forall>r. r \<noteq> q \<longrightarrow> queue_of (push_message dest msg s) r = queue_of s r))) \<and>
    (mdata msg = SeriData p n \<longrightarrow> last (trace (push_message dest msg s)) = EvFree p)"
proof -
  let ?re = "error_reply msg"
  have nr: "\<not> wants_reply ?re" by (simp add: error_reply_def wants_reply_def)
  have p: "push_message dest msg s = free_owned_message_data msg
      (if wants_reply msg then push_message_n (Suc 6) (source msg) ?re s else s)"
    using push_message_n_reject [OF assms, of 7] by (simp add: push_message_def eval_nat_numeral)
  have f: "queue_of (free_owned_message_data msg t) = queue_of t" for t
    by (simp add: free_owned_message_data_def split: payload.split)
  have "last (trace (free_owned_message_data msg t)) = EvFree p" if "mdata msg = SeriData p n" for t
    using that by (simp add: free_owned_message_data_def)
  moreover have "push_message_n (Suc 6) (source msg) ?re s = s" if "receiver s (source msg) = None"
    using push_message_n_reject [OF that, of 6 ?re] nr by (simp add: free_owned_message_data_def error_reply_def)
  moreover have "queue_of (push_message_n (Suc 6) (source msg) ?re s) r = queue_of s r"
    if "receiver s (source msg) = Some q" "r \<noteq> q" "logger_queue s \<noteq> Some r" for r
    using push_error_other(1) [of s "source msg" ?re r "Suc 6"] that nr by simp
  moreover have "queue_of (push_message_n (Suc 6) (source msg) ?re s) r = queue_of s r"
    if "receiver s (source msg) = Some q" "r \<noteq> q" "has_room s q" for r
    using push_room_other [OF that(1,3,2)] .
  moreover have "\<exists>xs. mailbox (queue_of (push_message_n (Suc 6) (source msg) ?re s) q) =
      mailbox (queue_of s q) @ (cur_thread s, ?re) # xs \<and> list_all (\<lambda>x. \<not> wants_reply (snd x)) xs"
    if "receiver s (source msg) = Some q"
    by (rule accept_mailbox [OF that])
  ultimately show ?thesis unfolding p by (simp add: f error_reply_def)
qed

theorem undeliverable_message_witness:
  "(\<exists>xs. mailbox (queue_of (push_message 9 \<lparr>source = 1, session = 5, mtype = PTYPE_LUA, mdata = Monostate\<rparr> demo) 0) =
     mailbox (queue_of demo 0) @
       (cur_thread demo, \<lparr>source = 0, session = 5, mtype = PTYPE_ERROR, mdata = Monostate\<rparr>) # xs \<and>
     list_all (\<lambda>x. \<not> wants_reply (snd x)) xs) \<and>
   push_message 9 \<lparr>source = 9, session = 5, mtype = PTYPE_LUA, mdata = Monostate\<rparr> demo = demo"
  using undeliverable_message [OF demo_state(5),
      of "\<lparr>source = 1, session = 5, mtype = PTYPE_LUA, mdata = Monostate\<rparr>" 0] demo_state(5,6)
    undeliverable_message [OF demo_state(5), of "\<lparr>source = 9, session = 5, mtype = PTYPE_LUA, mdata = Monostate\<rparr>"]
  by (simp add: wants_reply_def free_owned_message_data_def)

text \<open>
  C27.  Error reports do not recurse without bound: as long as no mailbox holds \<open>2 ^ 61\<close> messages,
  sending a message or reporting an error in a reachable state never exceeds the nesting of
  \<open>push_message\<close> and \<open>error\<close> calls the model provides for, even if the report overloads the
  logger itself.
\<close>

theorem error_nesting_bounded:
  assumes "reach is_new_system sys_step s" and "\<And>q. mailbox_count (queue_of s q) < 2 ^ 61"
  shows "too_deep (push_message dest msg s) = too_deep s \<and> too_deep (error src what s) = too_deep s"
proof -
  have ok: "thresholds_ok (2 ^ 61) s"
    by (rule reach_thresholds_ok [OF assms]) simp
  have e: "too_deep (error src what s) = too_deep s"
    using error_not_too_deep [OF ok, of 4] by (simp add: error_def)
  have p: "too_deep (push_message_n (5 + k) d m s) = too_deep s" if "receiver s d = None \<Longrightarrow> \<not> wants_reply m" for k d m
    by (rule push_not_too_deep [OF ok _ that]) simp
  have "too_deep (push_message dest msg s) = too_deep s"
  proof (cases "receiver s dest = None \<and> wants_reply msg")
    case True
    moreover have "\<not> wants_reply (error_reply msg)" by (simp add: error_reply_def wants_reply_def)
    ultimately show ?thesis
      using push_message_n_reject [of s dest 7 msg] p [of "source msg" "error_reply msg" 2]
      by (simp add: push_message_def)
  next
    case False
    with p [of dest msg 3] show ?thesis by (auto simp: push_message_def)
  qed
  with e show ?thesis by simp
qed

theorem error_nesting_bounded_witness:
  "too_deep (push_message 1 \<lparr>source = 2, session = 3, mtype = PTYPE_LUA, mdata = Monostate\<rparr> (new_system 4 4)) =
     too_deep (new_system 4 4) \<and>
   too_deep (error 1 ''x'' (new_system 4 4)) = too_deep (new_system 4 4)"
  by (rule error_nesting_bounded [OF new_reachable]) (simp add: new_system_def new_queue_def)

end
