(* ===== verification/Actor_Frames.thy ===== *)
theory Actor_Frames
  imports Actor_Lifecycle
begin

text \<open>
  What every operation does to the state, in terms of the few updates operations are made of: a
  reflexive and transitive relation that holds across each of these updates holds across every
  operation, every step and every run.  The properties of the runtime that need no more than that
  interpret one of the locales below.
\<close>

section \<open>The contract of the updates\<close>

text \<open>The events that concern some queue.\<close>

fun queue_event :: "event \<Rightarrow> bool" where
  "queue_event (EvEnqueue q pm) = True"
| "queue_event (EvDeliver q pm) = True"
| "queue_event (EvDrop q pm) = True"
| "queue_event (EvDestroy q) = True"
| "queue_event e = False"

definition queue_events :: "system \<Rightarrow> event list" where
  "queue_events s = filter queue_event (trace s)"

text \<open>Updates that neither the mailboxes nor the life of an actor depend on.\<close>

locale messaging_frame =
  fixes R :: "system \<Rightarrow> system \<Rightarrow> bool"
  assumes refl: "R s s"
    and trans: "R s t \<Longrightarrow> R t u \<Longrightarrow> R s u"
    and same: "queue_of s' = queue_of s \<Longrightarrow> actor_of s' = actor_of s \<Longrightarrow> next_obj s' = next_obj s \<Longrightarrow>
      next_handle s' = next_handle s \<Longrightarrow> actor_shards s' = actor_shards s \<Longrightarrow>
      queue_events s' = queue_events s \<Longrightarrow> R s s'"
    and scheduling: "(\<And>x. handle (f x) = handle x \<and> mailbox (f x) = mailbox x \<and>
        accepting (f x) = accepting x \<and> releasing (f x) = releasing x \<and>
        initialized (f x) = initialized x \<and> owner (f x) = owner x) \<Longrightarrow> R s (upd_queue q f s)"
    and accept: "R s (enqueue_mail q msg s)"
begin

lemma enqueue_global_R: "R s (enqueue_global q s)"
  by (rule same) (simp_all add: enqueue_global_def Let_def queue_events_def)

lemma schedule_queue_R: "R s (schedule_queue q s)"
proof -
  have "R s (upd_queue q (\<lambda>x. x\<lparr>schedule_state := 1\<rparr>) s)" by (rule scheduling) simp
  from trans [OF this enqueue_global_R] show ?thesis by (simp add: schedule_queue_def refl)
qed

lemma free_owned_R: "R s (free_owned_message_data msg s)"
  by (rule same) (simp_all add: free_owned_message_data_def queue_events_def split: payload.split)

lemma posted_R: "R s (posted q msg s)"
proof -
  have "R t (raise_threshold q t)" for t unfolding raise_threshold_def by (rule scheduling) simp
  from trans [OF accept this] accept show ?thesis by (simp add: posted_def Let_def)
qed

lemma push_error_R:
  "R s (push_message_n n dest msg s)" "R s (error_n n src what s)"
proof (induction n dest msg s and n src what s rule: push_message_n_error_n.induct)
  case (1 dest msg s)
  show ?case by (rule same) (simp_all add: push_message_n.simps queue_events_def)
next
  case (2 n dest msg s)
  show ?case
  proof (cases "receiver s dest")
    case None
    with "2.IH"(1) [OF None] trans [OF _ free_owned_R] free_owned_R show ?thesis
      by (simp add: push_message_n_reject)
  next
    case (Some q)
    define s1 where "s1 = enqueue_mail q msg s"
    define s2 where "s2 = (if mailbox_count (queue_of s1 q) \<ge> overload_threshold (queue_of s1 q)
      then error_n n dest (overload_text (mailbox_count (queue_of s1 q))) (posted q msg s) else posted q msg s)"
    have "R (posted q msg s) s2"
      using "2.IH"(2) [OF Some s1_def HOL.refl] refl by (simp add: s2_def posted_def s1_def Let_def)
    with posted_R have "R s s2" by (rule trans)
    with trans [OF this schedule_queue_R] show ?thesis
      unfolding push_message_n_accept [OF Some] s1_def [symmetric] Let_def s2_def [symmetric] by simp
  qed
next
  case (3 src what s)
  show ?case by (rule same) (simp_all add: error_n.simps queue_events_def)
next
  case (4 n src what s)
  have a: "R s (s\<lparr>logger_handle := lh\<rparr>)" for lh by (rule same) (simp_all add: queue_events_def)
  have b: "R t (emit (EvStderr src line) t)" for t line by (rule same) (simp_all add: queue_events_def)
  show ?case using trans [OF a "4.IH" [OF HOL.refl HOL.refl HOL.refl]] trans [OF a b]
    by (simp add: error_n.simps Let_def)
qed

lemma messaging_R:
  "R s (push_message dest msg s)" "R s (error src what s)" "R s (send src dest type ses data s)"
  by (simp_all add: push_message_def error_def send_def push_error_R)

lemma timeout_R: "R s (timeout dest ses delay s)"
proof -
  have "R s (s\<lparr>timers := ts\<rparr>)" for ts by (rule same) (simp_all add: queue_events_def)
  with messaging_R show ?thesis by (simp add: timeout_def)
qed

lemma timer_fire_R: "R s (timer_fire i ec s)"
proof -
  have "R s (s\<lparr>timers := ts\<rparr>)" for ts by (rule same) (simp_all add: queue_events_def)
  from trans [OF this messaging_R(3)] this show ?thesis
    by (simp add: timer_fire_def Let_def refl split: prod.split)
qed

lemma register_name_R: "R s (register_name name h s)"
  by (rule same) (simp_all add: register_name_def queue_events_def Let_def)

lemma push_global_R: "R s (push_global h s)"
  by (auto simp: push_global_def intro: refl schedule_queue_R split: option.split)

lemma shutdown_R: "R s (shutdown s)"
  by (rule same) (simp_all add: shutdown_def queue_events_def)

lemma run_begin_R: "R s (run_begin s)"
  by (rule same) (simp_all add: run_begin_def queue_events_def)

lemma upd_monitor_R: "R s (upd_monitor w f s)"
  by (rule same) (simp_all add: upd_monitor_def queue_events_def)

lemma monitor_round_R: "R s (monitor_round s)"
proof -
  have one: "R t (monitor_worker i t)" for i t
    using trans [OF upd_monitor_R messaging_R(2)] upd_monitor_R
    by (simp add: monitor_worker_def Let_def split: prod.split)
  have "R t (fold monitor_worker ws t)" for ws t
    by (induction ws arbitrary: t) (auto intro: refl trans [OF one])
  then show ?thesis by (simp add: monitor_round_def refl)
qed

end

text \<open>Updates in the life of an actor: it is born, its \<open>on_init\<close> returns, it stops accepting messages, its mail
  is discarded, it is destroyed and its registration erased.\<close>

locale lifecycle_frame = messaging_frame +
  assumes drop: "try_dequeue pick (mailbox (queue_of s q)) = Some (pm, rest) \<Longrightarrow>
      R s (emit (EvDrop q pm) (upd_queue q (\<lambda>x. x\<lparr>mailbox := rest, mailbox_count := mailbox_count x - 1\<rparr>) s))"
    and actor: "(\<And>x. destroyed (f x) = destroyed x) \<Longrightarrow> R s (upd_actor a f s)"
    and born: "R s (snd (snd (spawn_begin s)))"
    and ready: "R s (upd_queue q (\<lambda>x. x\<lparr>initialized := True\<rparr>) s)"
    and stop: "R s (stop_accepting q s)"
    and destroy: "R s (destroy_actor a s)"
    and clear: "R s (clear_queue_owner q ao s)"
    and erase: "R s (s\<lparr>actor_shards := shard_erase h (actor_shards s)\<rparr>)"
begin

lemma drop_mail_R:
  assumes "try_dequeue pick (mailbox (queue_of s q)) = Some (pm, rest)"
  shows "R s (drop_mail q pm rest s)"
  using drop [OF assms] trans [OF trans [OF drop [OF assms] messaging_R(3)] free_owned_R]
    trans [OF drop [OF assms] free_owned_R]
  by (simp add: drop_mail_def Let_def)

lemma drain_loop_R: "R s (drain_loop pick q s)"
proof (induction pick q s rule: drain_loop.induct)
  case (1 pick q s)
  show ?case
  proof (cases "try_dequeue pick (mailbox (queue_of s q))")
    case None
    then show ?thesis by (subst drain_loop.simps) (simp add: refl)
  next
    case (Some p)
    obtain pm rest where p: "p = (pm, rest)" by fastforce
    from trans [OF drop_mail_R "1.IH" [OF Some p [symmetric]]] Some p show ?thesis
      by (subst drain_loop.simps) simp
  qed
qed

lemma drain_queue_R: "R s (drain_queue pick q s)"
proof -
  have "R t (upd_queue q (\<lambda>x. x\<lparr>mailbox_count := 0\<rparr>) t)" for t by (rule scheduling) simp
  from trans [OF drain_loop_R this] show ?thesis by (simp add: drain_queue_def)
qed

lemma set_state_R: "R s (set_state q st s)"
  unfolding set_state_def by (rule scheduling) simp

text \<open>\<open>kill\<close> up to the destruction.\<close>

lemma kill_R: "R s (kill pick h s)"
proof (cases "grab_queue s h")
  case None
  then show ?thesis by (simp add: kill_def refl)
next
  case (Some q)
  let ?s1 = "s\<lparr>actor_shards := shard_erase h (actor_shards s)\<rparr>"
  define s2 where "s2 = (if logger_handle ?s1 = h then ?s1\<lparr>logger_handle := 0\<rparr> else ?s1)"
  have "R ?s1 s2" by (rule same) (simp_all add: s2_def queue_events_def)
  with erase have "R s s2" by (rule trans)
  then have 3: "R s (stop_accepting q s2)" by (rule trans) (rule stop)
  have 4: "R s (upd_actor a (\<lambda>x. x\<lparr>destroy_requested := True\<rparr>) (stop_accepting q s2))" for a
    by (rule trans [OF 3 actor]) simp
  have fin: "R t (upd_queue q (\<lambda>x. x\<lparr>schedule_state := 0\<rparr>)
      (clear_queue_owner q (Some a) (destroy_actor a (drain_queue pick q t))))" for t a
    using trans [OF trans [OF trans [OF drain_queue_R destroy] clear] set_state_R] by (simp add: set_state_def)
  note cases = trans [OF 4 fin] trans [OF 4 schedule_queue_R] trans [OF 3 schedule_queue_R]
  show ?thesis
    unfolding kill_def Some option.case Let_def s2_def [symmetric]
    by (cases "queue_owner q (stop_accepting q s2)") (simp_all add: cases)
qed

lemma spawn_end_R: "R s (snd (spawn_end pick q h s))"
proof -
  let ?s1 = "if grab_queue s h = Some q then s\<lparr>actor_shards := shard_erase h (actor_shards s)\<rparr> else s"
  have "R s ?s1" by (simp add: refl erase)
  from trans [OF trans [OF trans [OF trans [OF this stop] drain_queue_R] destroy] clear]
    trans [OF ready schedule_queue_R] ready
  show ?thesis by (simp add: spawn_end_def Let_def)
qed

lemma init_result_R: "R s (init_result q h out s)"
proof -
  have "R t (upd_actor q (\<lambda>x. x\<lparr>init_failed := True\<rparr>) t)" for t by (rule actor) simp
  from this trans [OF messaging_R(2) this] show ?thesis by (simp add: init_result_def refl split: init_outcome.split)
qed

lemma alloc_session_R: "alloc_session a s = (ses, t) \<Longrightarrow> R s t"
  using actor [of "\<lambda>x. x\<lparr>next_session := next_session x + 1\<rparr>"] by (auto simp: alloc_session_def)

lemma run_actions_R:
  "R s (run_action pick a h act s)" "R s (run_actions pick a h acts s)"
proof (induction pick a h act s and pick a h acts s rule: run_action_run_actions.induct)
  case (9 pick a h acts out s)
  obtain q h' s1 where sb: "spawn_begin s = (q, h', s1)" by (metis prod_cases3)
  have "R s s1" using born [of s] by (simp add: sb)
  with "9.IH" [OF sb [symmetric]] have "R s (run_actions pick q h' acts s1)" using trans by blast
  from trans [OF trans [OF this init_result_R] spawn_end_R] show ?case by (simp add: sb)
next
  case (13 pick a h p s)
  show ?case by simp (rule same; simp add: queue_events_def)
next
  case (15 pick a h act acts s)
  from trans [OF "15.IH"] show ?case by simp
next
  case (10 pick a h s)
  show ?case by (simp add: alloc_session_R [OF surjective_pairing])
qed (auto simp: messaging_R timeout_R register_name_R kill_R shutdown_R refl
      dest: alloc_session_R intro: trans [OF _ messaging_R(3)] trans [OF _ timeout_R] split: prod.split)

lemma spawn_R: "R s (snd (spawn pick acts out s))"
proof -
  obtain q h s1 where sb: "spawn_begin s = (q, h, s1)" by (metis prod_cases3)
  have "R s s1" using born [of s] by (simp add: sb)
  from trans [OF trans [OF trans [OF this run_actions_R(2)] init_result_R] spawn_end_R] show ?thesis
    by (simp add: spawn_def sb)
qed

lemma dispatch_finish_R: "R s (dispatch_finish pick q a s)"
proof -
  have o: "R t (upd_queue q (\<lambda>x. x\<lparr>overload_threshold := OVERLOAD_THRESHOLD\<rparr>) t)" for t
    by (rule scheduling) simp
  show ?thesis
    using trans [OF drain_queue_R set_state_R] trans [OF set_state_R enqueue_global_R]
      trans [OF trans [OF set_state_R o] schedule_queue_R] trans [OF set_state_R o]
    by (simp add: dispatch_finish_def Let_def)
qed

lemma dispatch_leave_R: "R s (dispatch_leave q a doomed s)"
proof -
  have "R s (upd_actor a (\<lambda>x. x\<lparr>dispatch_depth := dispatch_depth x - 1\<rparr>) s)" by (rule actor) simp
  from this trans [OF trans [OF this destroy] clear] show ?thesis by (simp add: dispatch_leave_def Let_def)
qed

lemma cleanup_queue_R: "R s (cleanup_queue pick q s)"
proof -
  have "R s (upd_actor a (\<lambda>x. x\<lparr>destroy_requested := True\<rparr>) (stop_accepting q s))" for a
    by (rule trans [OF stop actor]) simp
  from trans [OF trans [OF trans [OF this destroy] clear] drain_queue_R] trans [OF stop drain_queue_R]
  show ?thesis by (simp add: cleanup_queue_def Let_def split: option.split)
qed

end

text \<open>And messages are handed to actors: the whole runtime.\<close>

locale runtime_frame = lifecycle_frame +
  assumes hand: "try_dequeue pick (mailbox (queue_of s q)) = Some (pm, rest) \<Longrightarrow>
      R s (emit (EvDeliver q pm) (upd_queue q (\<lambda>x. x\<lparr>mailbox := rest, mailbox_count := mailbox_count x - 1\<rparr>) s))"
begin

lemma deliver_R:
  assumes "try_dequeue pick (mailbox (queue_of s q)) = Some (pm, rest)"
  shows "R s (deliver pick beh w q a pm rest s)"
proof -
  let ?t = "upd_queue q (\<lambda>x. x\<lparr>mailbox := rest, mailbox_count := mailbox_count x - 1\<rparr>) s"
  have "emit (EvDeliver q pm) (upd_monitor w f ?t) = upd_monitor w f (emit (EvDeliver q pm) ?t)" for f
    by (simp add: emit_def upd_monitor_def)
  with trans [OF hand [OF assms] upd_monitor_R]
  have "R s (emit (EvDeliver q pm) (upd_monitor w f ?t))" for f by simp
  from trans [OF trans [OF this run_actions_R(2)] upd_monitor_R]
    trans [OF trans [OF trans [OF this run_actions_R(2)] messaging_R(2)] upd_monitor_R]
  show ?thesis by (simp add: deliver_def Let_def split: prod.split option.split)
qed

lemma dispatch_loop_R: "R s (dispatch_loop pick beh w q a k s)"
proof (induction k arbitrary: s)
  case (Suc k)
  show ?case using trans [OF deliver_R Suc.IH] by (auto simp: refl split: option.split)
qed (simp add: refl)

lemma dispatch_queue_R: "R s (dispatch_queue pick beh weight w q s)"
proof -
  have d: "R t (upd_actor a (\<lambda>x. x\<lparr>dispatch_depth := dispatch_depth x + 1\<rparr>) t)" for t a by (rule actor) simp
  note in_ = trans [OF set_state_R d]
  show ?thesis
    using trans [OF set_state_R trans [OF drain_queue_R set_state_R]]
      trans [OF in_ trans [OF trans [OF drain_queue_R set_state_R] dispatch_leave_R]]
      trans [OF in_ trans [OF trans [OF dispatch_loop_R dispatch_finish_R] dispatch_leave_R]]
    by (simp add: dispatch_queue_def Let_def refl split: option.split)
qed

lemma worker_turn_R: "R s (worker_turn gpick pick beh w s)"
proof -
  have t: "R s (taken rest w s)" for rest by (rule same) (simp_all add: taken_def queue_events_def)
  from t trans [OF t dispatch_queue_R] show ?thesis
    by (simp add: worker_turn_def taken_def Let_def refl split: option.split prod.split)
qed

lemma sys_step_R: "sys_step s s' \<Longrightarrow> R s s'"
proof (induction rule: sys_step.induct)
  case (step_thread s t)
  show ?case by (rule same) (simp_all add: queue_events_def)
qed (auto simp: spawn_R kill_R messaging_R register_name_R timeout_R timer_fire_R push_global_R
      worker_turn_R monitor_round_R run_begin_R shutdown_R)

lemma reach_R:
  assumes "reach (\<lambda>t. t = s) sys_step s'"
  shows "R s s'"
  using assms by (induction rule: reach.induct) (auto intro: refl trans sys_step_R)

end

end
