(* ===== verification/Actor_Behaviour.thy ===== *)
theory Actor_Behaviour
  imports Actor_Props Actor_Frames
begin

text \<open>
  The observable behaviour of single operations: the registry seen as a map, killing, batches and
  progress of a worker's turn, the cleanup at the end of \<open>run\<close>, the monitor, and two things the
  runtime does not guarantee.
\<close>

section \<open>The registry as a map\<close>

lemma drain_shards [simp]: "actor_shards (drain_queue pick q s) = actor_shards s"
  using drain_queue_static [of s pick q] by (simp add: static_same_def)

lemma retire_shards [simp]:
  "actor_shards (clear_queue_owner q a s) = actor_shards s" "actor_shards (destroy_actor a' s) = actor_shards s"
  "actor_shards (schedule_queue q s) = actor_shards s" "actor_shards (stop_accepting q s) = actor_shards s"
  by (simp_all add: clear_queue_owner_def destroy_actor_def schedule_queue_def stop_accepting_def)

lemma kill_shards:
  "grab_queue s h = Some q \<Longrightarrow> actor_shards (kill pick h s) = shard_erase h (actor_shards s)"
  by (auto simp: kill_def Let_def split: option.splits)

lemma grab_queue_kill:
  assumes "shards_ok (actor_shards s)"
  shows "grab_queue (kill pick h s) = (grab_queue s)(h := None)"
proof (cases "grab_queue s h")
  case None
  then show ?thesis by (auto simp: kill_def)
next
  case (Some q)
  then show ?thesis
    using reg.abs_erase [OF assms] by (simp add: grab_queue_def [abs_def] kill_shards)
qed

text \<open>The end of \<open>spawn\<close>, whatever \<open>on_init\<close> has done.\<close>

lemma init_result_frame:
  "actor_shards (init_result q h out s) = actor_shards s"
  "init_failed (actor_of (init_result q h out s) q) = (out \<noteq> InitOk \<or> init_failed (actor_of s q))"
proof -
  have "actor_shards (error h what s) = actor_shards s" for what
    using messaging_keeps_inv(2) [of s h what] by (simp add: keeps_inv_def static_same_def)
  then show "actor_shards (init_result q h out s) = actor_shards s"
    by (simp add: init_result_def split: init_outcome.split)
qed (simp add: init_result_def split: init_outcome.split)

lemma spawn_registry:
  assumes "spawn_begin s = (q, h, s1)" and "t = run_actions pick q h acts s1" and "shards_ok (actor_shards t)"
  shows "grab_queue (snd (spawn pick acts out s)) =
    (if (out \<noteq> InitOk \<or> init_failed (actor_of t q)) \<and> grab_queue t h = Some q
     then (grab_queue t)(h := None) else grab_queue t)"
proof -
  let ?u = "init_result q h out t"
  have g: "grab_queue ?u = grab_queue t" by (simp add: grab_queue_def [abs_def] init_result_frame)
  have e: "grab_queue (s\<lparr>actor_shards := shard_erase h (actor_shards ?u)\<rparr>) = (grab_queue t)(h := None)" for s
    using reg.abs_erase [OF assms(3)] by (simp add: grab_queue_def [abs_def] init_result_frame)
  have sh: "actor_shards x = actor_shards y \<Longrightarrow> grab_queue x = grab_queue y" for x y
    by (simp add: grab_queue_def [abs_def])
  have sp: "snd (spawn pick acts out s) = snd (spawn_end pick q h ?u)"
    using assms(1,2) by (simp add: spawn_def)
  have f: "init_failed (actor_of ?u q) = (out \<noteq> InitOk \<or> init_failed (actor_of t q))"
    by (rule init_result_frame(2))
  show ?thesis
  proof (cases "init_failed (actor_of ?u q)")
    case True
    have "grab_queue (snd (spawn_end pick q h ?u)) =
        grab_queue (if grab_queue ?u h = Some q then ?u\<lparr>actor_shards := shard_erase h (actor_shards ?u)\<rparr> else ?u)"
      using True by (intro sh) (simp add: spawn_end_def Let_def)
    also have "\<dots> = (if grab_queue t h = Some q then (grab_queue t)(h := None) else grab_queue t)"
      by (simp add: g e)
    finally show ?thesis using True unfolding sp f by simp
  next
    case False
    have "grab_queue (snd (spawn_end pick q h ?u)) = grab_queue ?u"
      using False by (intro sh) (simp add: spawn_end_def Let_def)
    also note g
    finally show ?thesis using False unfolding sp f by simp
  qed
qed

lemma fold_length: "fold (\<lambda>shard n. n + length shard) shards (m :: nat) = m + sum_list (map length shards)"
  by (induction shards arbitrary: m) simp_all

lemma dom_shard_find:
  assumes "shards_ok shards"
  shows "dom (shard_find shards) = (\<Union>i < ACTOR_SHARD_COUNT. fst ` set (shards ! i))"
proof -
  have d: "h \<in> dom (shard_find shards) \<longleftrightarrow> h \<in> fst ` set (shards ! shard_index h)" for h
    by (simp add: domIff shard_find_def map_of_eq_None_iff)
  show ?thesis
  proof (intro set_eqI iffI)
    fix h assume "h \<in> dom (shard_find shards)"
    then show "h \<in> (\<Union>i < ACTOR_SHARD_COUNT. fst ` set (shards ! i))"
      unfolding d using shard_index_less [of h] by (intro UN_I) simp_all
  next
    fix h assume "h \<in> (\<Union>i < ACTOR_SHARD_COUNT. fst ` set (shards ! i))"
    then obtain i where i: "i < ACTOR_SHARD_COUNT" "h \<in> fst ` set (shards ! i)" by blast
    then have "shard_index h = i" using assms unfolding shards_ok_def by blast
    with i(2) show "h \<in> dom (shard_find shards)" unfolding d by simp
  qed
qed

lemma card_dom_shard_find:
  assumes ok: "shards_ok shards"
  shows "card (dom (shard_find shards)) = sum_list (map length shards)"
proof -
  have disj: "\<forall>i \<in> {..<ACTOR_SHARD_COUNT}. \<forall>j \<in> {..<ACTOR_SHARD_COUNT}. i \<noteq> j \<longrightarrow>
      fst ` set (shards ! i) \<inter> fst ` set (shards ! j) = {}"
    using ok unfolding shards_ok_def by blast
  have "card (dom (shard_find shards)) = (\<Sum>i < ACTOR_SHARD_COUNT. card (fst ` set (shards ! i)))"
    unfolding dom_shard_find [OF ok] by (rule card_UN_disjoint) (use disj in auto)
  also have "\<dots> = (\<Sum>i < ACTOR_SHARD_COUNT. length (shards ! i))"
    using ok distinct_card [of "map fst (shards ! i)" for i]
    by (intro sum.cong) (auto simp: shards_ok_def)
  also have "\<dots> = sum_list (map length shards)"
    using ok by (simp add: shards_ok_def sum_list_sum_nth atLeast0LessThan)
  finally show ?thesis .
qed

section \<open>Batches\<close>

lemma batch_size_bounds: "1 \<le> batch_size weight n \<and> batch_size weight n \<le> max 1 n"
  by (auto simp: batch_size_def Let_def drop_bit_eq_div)

text \<open>The messages handed to actors so far.\<close>

definition delivered :: "system \<Rightarrow> event list" where
  "delivered s = filter is_deliver (trace s)"

text \<open>Only handing a message to an actor changes them.\<close>

interpretation handing: lifecycle_frame "\<lambda>s t. delivered t = delivered s"
proof (unfold_locales, goal_cases)
  case (3 s t)
  then have "filter is_deliver (queue_events t) = filter is_deliver (queue_events s)" by simp
  moreover have "is_deliver e \<and> queue_event e \<longleftrightarrow> is_deliver e" for e by (cases e) simp_all
  ultimately show ?case by (simp add: delivered_def queue_events_def conj_commute)
qed (simp_all add: delivered_def enqueue_mail_def spawn_begin_def stop_accepting_def destroy_actor_def
      clear_queue_owner_def Let_def)

lemma delivered_simps [simp]:
  "delivered (emit e s) = delivered s @ (if is_deliver e then [e] else [])"
  "delivered (upd_queue q f s) = delivered s" "delivered (set_state q st s) = delivered s"
  "delivered (upd_actor a g s) = delivered s" "delivered (taken rest w s) = delivered s"
  by (simp_all add: delivered_def set_state_def taken_def)

lemmas delivered_kept [simp] =
  handing.messaging_R handing.run_actions_R handing.upd_monitor_R handing.dispatch_finish_R
  handing.dispatch_leave_R

lemma delivered_deliver: "delivered (deliver pick beh w q a pm rest s) = delivered s @ [EvDeliver q pm]"
  by (simp add: deliver_def Let_def split: prod.split option.split)

lemma dispatch_loop_delivered:
  "length (delivered (dispatch_loop pick beh w q a k s)) \<le> length (delivered s) + k"
proof (induction k arbitrary: s)
  case (Suc k)
  have "length (delivered (dispatch_loop pick beh w q a k (deliver pick beh w q a pm rest s))) \<le>
      length (delivered s) + Suc k" for pm rest
    using Suc [of "deliver pick beh w q a pm rest s"] by (simp add: delivered_deliver)
  then show ?case by (auto split: option.split)
qed simp

lemma dispatch_loop_mono:
  "length (delivered s) \<le> length (delivered (dispatch_loop pick beh w q a k s))"
proof (induction k arbitrary: s)
  case (Suc k)
  have "length (delivered s) \<le> length (delivered (dispatch_loop pick beh w q a k (deliver pick beh w q a pm rest s)))"
    for pm rest
    using Suc [of "deliver pick beh w q a pm rest s"] by (simp add: delivered_deliver)
  then show ?case by (auto split: option.split)
qed simp

lemma dispatch_loop_progress:
  assumes "picks_ok pick" "\<not> releasing (queue_of s q)" "\<not> destroy_requested (actor_of s a)"
    "mailbox (queue_of s q) \<noteq> []" "0 < k"
  shows "length (delivered s) < length (delivered (dispatch_loop pick beh w q a k s))"
proof -
  obtain k' where k: "k = Suc k'" using assms(5) by (cases k) auto
  obtain pm rest where d: "try_dequeue pick (mailbox (queue_of s q)) = Some (pm, rest)"
    using try_dequeue_None [OF assms(1)] assms(4) by fastforce
  have "length (delivered s) < length (delivered (deliver pick beh w q a pm rest s))"
    by (simp add: delivered_deliver)
  also have "\<dots> \<le> length (delivered (dispatch_loop pick beh w q a k' (deliver pick beh w q a pm rest s)))"
    by (rule dispatch_loop_mono)
  finally show ?thesis using assms(2,3) d k by simp
qed

text \<open>What dispatching a queue just taken off the global queue amounts to.\<close>

lemma dispatch_taken:
  assumes inv: "sys_inv {} {} {} s"
    and d: "try_dequeue gpick (global_queue s) = Some ((p, Some q), rest)"
  obtains "releasing (queue_of s q)" "dispatch_queue pick beh weight w q (taken rest w s) = taken rest w s"
  | s2 doomed where "\<not> releasing (queue_of s q)" "delivered s2 = delivered s"
      "mailbox (queue_of s2 q) = mailbox (queue_of s q)" "\<not> releasing (queue_of s2 q)"
      "\<not> destroy_requested (actor_of s2 q)"
      "dispatch_queue pick beh weight w q (taken rest w s) =
         dispatch_leave q q doomed (dispatch_finish pick q q
           (dispatch_loop pick beh w q q (batch_size weight (length (mailbox (queue_of s q)))) s2))"
proof -
  have "refs q s = Suc (refs q (taken rest w s))"
    using taken_refs [OF d, where w = w and r = q] by simp
  then have q: "q < next_obj s" and n: "refs q s \<noteq> 0"
    using sys_invD(4) [OF inv, of q] by (metis Zero_not_Suc linorder_not_le, simp)
  note qok = sys_invD(3) [OF inv q]
  show thesis
  proof (cases "releasing (queue_of s q)")
    case True
    then have "schedule_state (queue_of s q) = 0" using qok by (auto simp: queue_ok_def)
    then show thesis using True by (intro that(1)) (simp_all add: dispatch_queue_def taken_frame)
  next
    case False
    then have st: "schedule_state (queue_of s q) = 1" "owner (queue_of s q) = Some q"
        "\<not> destroy_requested (actor_of s q)" "mailbox_count (queue_of s q) = length (mailbox (queue_of s q))"
      using qok n by (auto simp: queue_ok_def split: if_splits)
    let ?s2 = "upd_actor q (\<lambda>x. x\<lparr>dispatch_depth := dispatch_depth x + 1\<rparr>) (set_state q 2 (taken rest w s))"
    let ?t = "dispatch_finish pick q q
      (dispatch_loop pick beh w q q (batch_size weight (length (mailbox (queue_of s q)))) ?s2)"
    show thesis
      by (rule that(2) [of ?s2 "destroy_requested (actor_of ?t q) \<or> releasing (queue_of ?t q)"])
         (use st False in \<open>simp_all add: dispatch_queue_def set_state_def taken_frame queue_owner_def Let_def\<close>)
  qed
qed

section \<open>The end of \<open>run\<close>\<close>

lemma push_unregistered:
  assumes "\<And>d. grab_queue s d = None"
  shows "push_message dest msg s = free_owned_message_data msg s"
proof -
  have r: "receiver s d = None" for d using assms by (simp add: receiver_def)
  have "push_message_n (Suc 6) (source msg) (error_reply msg) s = s"
    using push_message_n_reject [OF r, of 6 "source msg" "error_reply msg"]
    by (simp add: error_reply_def wants_reply_def free_owned_message_data_def)
  then show ?thesis
    using push_message_n_reject [OF r, of 7 dest msg] by (simp add: push_message_def eval_nat_numeral)
qed

lemma drain_unregistered:
  assumes "\<And>d. grab_queue s d = None" "r \<noteq> q"
  shows "queue_of (drain_queue pick q s) r = queue_of s r"
proof -
  have "queue_of (drain_loop pick q s) r = queue_of s r"
    using assms
  proof (induction pick q s rule: drain_loop.induct)
    case (1 pick q s)
    have m: "queue_of (drop_mail q pm rest s) r = queue_of s r" for pm rest
      using 1(2,3) by (simp add: drop_mail_def send_def push_unregistered grab_queue_def Let_def)
    have "grab_queue (drop_mail q pm rest s) d = None" for pm rest d
      using 1(2) drop_mail_static [of s q pm rest] by (simp add: grab_queue_def static_same_def)
    with 1 m show ?case by (subst drain_loop.simps) (auto split: option.split)
  qed
  with assms(2) show ?thesis by (simp add: drain_queue_def)
qed

lemma cleanup_queue_effect:
  assumes ok: "picks_ok pick" and un: "\<And>d. grab_queue s d = None"
    and own: "owner (queue_of s q) = Some q \<or> owner (queue_of s q) = None \<and> destroyed (actor_of s q)"
  shows "grab_queue (cleanup_queue pick q s) d = None"
    and "destroyed (actor_of (cleanup_queue pick q s) q)" and "mailbox (queue_of (cleanup_queue pick q s) q) = []"
    and "owner (queue_of (cleanup_queue pick q s) q) = None"
    and "r \<noteq> q \<Longrightarrow> queue_of (cleanup_queue pick q s) r = queue_of s r \<and>
      actor_of (cleanup_queue pick q s) r = actor_of s r"
proof -
  define s1 where "s1 = (case queue_owner q (stop_accepting q s) of
      None \<Rightarrow> stop_accepting q s
    | Some a \<Rightarrow> clear_queue_owner q (Some a)
        (destroy_actor a (upd_actor a (\<lambda>x. x\<lparr>destroy_requested := True\<rparr>) (stop_accepting q s))))"
  have c: "cleanup_queue pick q s = drain_queue pick q s1"
    by (simp add: cleanup_queue_def s1_def Let_def)
  have s1: "actor_shards s1 = actor_shards s" "destroyed (actor_of s1 q)" "owner (queue_of s1 q) = None"
    "\<And>r. r \<noteq> q \<Longrightarrow> queue_of s1 r = queue_of s r \<and> actor_of s1 r = actor_of s r"
    using own by (auto simp: s1_def queue_owner_def clear_queue_owner_def destroy_actor_def stop_accepting_def)
  note st = drain_queue_static [of s1 pick q, unfolded static_same_def]
  have un1: "grab_queue s1 d = None" for d using un s1(1) by (simp add: grab_queue_def)
  show "grab_queue (cleanup_queue pick q s) d = None" using un1 st by (simp add: c grab_queue_def)
  show "destroyed (actor_of (cleanup_queue pick q s) q)" "owner (queue_of (cleanup_queue pick q s) q) = None"
    using s1 st by (simp_all add: c)
  show "mailbox (queue_of (cleanup_queue pick q s) q) = []" using ok by (simp add: c)
  show "r \<noteq> q \<Longrightarrow> queue_of (cleanup_queue pick q s) r = queue_of s r \<and>
      actor_of (cleanup_queue pick q s) r = actor_of s r"
    using s1(4) [of r] st drain_unregistered [OF un1, of r q pick] by (simp add: c)
qed

lemma cleanup_fold:
  assumes ok: "picks_ok pick"
  shows "(\<And>d. grab_queue s d = None) \<Longrightarrow>
    (\<And>q. q \<in> set qs \<Longrightarrow> owner (queue_of s q) = Some q \<or> owner (queue_of s q) = None \<and> destroyed (actor_of s q)) \<Longrightarrow>
    grab_queue (fold (cleanup_queue pick) qs s) d = None \<and>
    (\<forall>q \<in> set qs. destroyed (actor_of (fold (cleanup_queue pick) qs s) q)) \<and>
    (\<forall>q. q \<in> set qs \<or> mailbox (queue_of s q) = [] \<longrightarrow> mailbox (queue_of (fold (cleanup_queue pick) qs s) q) = []) \<and>
    (\<forall>q. destroyed (actor_of s q) \<longrightarrow> destroyed (actor_of (fold (cleanup_queue pick) qs s) q))"
proof (induction qs arbitrary: s)
  case Nil
  then show ?case by simp
next
  case (Cons q qs)
  let ?s1 = "cleanup_queue pick q s"
  have own: "owner (queue_of s q) = Some q \<or> owner (queue_of s q) = None \<and> destroyed (actor_of s q)"
    using Cons.prems(2) by simp
  note e = cleanup_queue_effect [OF ok Cons.prems(1) own]
  have un: "grab_queue ?s1 d = None" for d by (rule e(1))
  have own1: "owner (queue_of ?s1 r) = Some r \<or> owner (queue_of ?s1 r) = None \<and> destroyed (actor_of ?s1 r)"
    if "r \<in> set qs" for r
    using e(2,4,5) Cons.prems(2) [of r] that by (cases "r = q") auto
  have "destroyed (actor_of ?s1 r)" if "destroyed (actor_of s r)" for r
    using e(2,5) that by (cases "r = q") auto
  moreover have "mailbox (queue_of ?s1 r) = []" if "r = q \<or> mailbox (queue_of s r) = []" for r
    using e(3,5) that by (cases "r = q") auto
  ultimately show ?case using Cons.IH [OF un own1] e(2) by auto
qed

lemma registered_shards:
  assumes "shards_ok shards"
  shows "set (map snd (concat shards)) = ran (shard_find shards)"
proof (intro set_eqI iffI)
  fix q assume "q \<in> set (map snd (concat shards))"
  then obtain h i where i: "i < length shards" "(h, q) \<in> set (shards ! i)"
    by (auto simp: in_set_conv_nth [of _ shards])
  then have "h \<in> fst ` set (shards ! i)" by force
  with i(1) have "shard_index h = i" "distinct (map fst (shards ! i))"
    using assms unfolding shards_ok_def by auto
  with i have "shard_find shards h = Some q" by (simp add: shard_find_def)
  then show "q \<in> ran (shard_find shards)" by (rule ranI)
next
  fix q assume "q \<in> ran (shard_find shards)"
  then obtain h where "shard_find shards h = Some q" by (auto simp: ran_def)
  then have "(h, q) \<in> set (shards ! shard_index h)" by (auto simp: shard_find_def dest: map_of_SomeD)
  moreover have "shards ! shard_index h \<in> set shards"
    using assms shard_index_less [of h] by (simp add: shards_ok_def)
  ultimately show "q \<in> set (map snd (concat shards))" by force
qed

section \<open>The logger's name\<close>

text \<open>Messaging keeps the names, and the cached logger handle is the one registered or none.\<close>

definition logger_kept :: "system \<Rightarrow> system \<Rightarrow> bool" where
  "logger_kept s s' \<longleftrightarrow> names s' = names s \<and>
     (logger_handle s \<in> {0, find_name s ''logger''} \<longrightarrow> logger_handle s' \<in> {0, find_name s' ''logger''})"

lemma logger_kept_same: "names s' = names s \<Longrightarrow> logger_handle s' = logger_handle s \<Longrightarrow> logger_kept s s'"
  by (simp add: logger_kept_def find_name_def)

lemma logger_kept_trans [trans]: "logger_kept s s' \<Longrightarrow> logger_kept s' s'' \<Longrightarrow> logger_kept s s''"
  by (auto simp: logger_kept_def)

lemma logger_simps [simp]:
  "names (schedule_queue q s) = names s" "logger_handle (schedule_queue q s) = logger_handle s"
  "names (posted q msg s) = names s" "names (free_owned_message_data msg s) = names s"
  "logger_handle (free_owned_message_data msg s) = logger_handle s"
  by (simp_all add: schedule_queue_def enqueue_global_def posted_def enqueue_mail_def
        raise_threshold_def free_owned_message_data_def Let_def split: payload.split)

lemma push_error_logger_kept:
  "logger_kept s (push_message_n n dest msg s)" "logger_kept s (error_n n src what s)"
proof (induction n dest msg s and n src what s rule: push_message_n_error_n.induct)
  case (1 dest msg s)
  show ?case by (rule logger_kept_same) (simp_all add: push_message_n.simps)
next
  case (2 n dest msg s)
  show ?case
  proof (cases "receiver s dest")
    case None
    let ?s1 = "if wants_reply msg then push_message_n n (source msg) (error_reply msg) s else s"
    have "logger_kept s ?s1" using "2.IH"(1) [OF None] by (simp add: logger_kept_same)
    also have "logger_kept \<dots> (free_owned_message_data msg ?s1)" by (rule logger_kept_same) simp_all
    finally show ?thesis by (simp only: push_message_n_reject [OF None])
  next
    case (Some q)
    define s1 where "s1 = enqueue_mail q msg s"
    let ?o = "mailbox_count (queue_of s1 q) \<ge> overload_threshold (queue_of s1 q)"
    let ?s2 = "if ?o then error_n n dest (overload_text (mailbox_count (queue_of s1 q))) (posted q msg s)
      else posted q msg s"
    have "logger_kept s (posted q msg s)" by (rule logger_kept_same) simp_all
    also have "logger_kept \<dots> ?s2"
      using "2.IH"(2) [OF Some s1_def refl] by (simp add: posted_def s1_def logger_kept_same)
    also have "logger_kept ?s2 (if \<not> initialized (queue_of ?s2 q) then ?s2 else schedule_queue q ?s2)"
      by (rule logger_kept_same) simp_all
    finally show ?thesis unfolding push_message_n_accept [OF Some] Let_def s1_def .
  qed
next
  case (3 src what s)
  show ?case by (rule logger_kept_same) (simp_all add: error_n.simps)
next
  case (4 n src what s)
  let ?lh = "if logger_handle s = 0 then find_name s ''logger'' else logger_handle s"
  let ?s1 = "s\<lparr>logger_handle := ?lh\<rparr>"
  let ?msg = "\<lparr>source = src, session = 0, mtype = PTYPE_ERROR, mdata = Text (take 511 what)\<rparr>"
  have a: "logger_kept s ?s1" by (simp add: logger_kept_def find_name_def)
  show ?case
  proof (cases "?lh = 0")
    case True
    have "logger_kept ?s1 (emit (EvStderr src (take 511 what)) ?s1)" by (rule logger_kept_same) simp_all
    with a True show ?thesis
      using logger_kept_trans by (simp only: error_n.simps Let_def if_False simp_thms)
  next
    case False
    with "4.IH" [OF refl refl refl] have "logger_kept ?s1 (push_message_n n ?lh ?msg ?s1)" by simp
    with a False show ?thesis
      using logger_kept_trans by (simp only: error_n.simps Let_def if_True not_False_eq_True)
  qed
qed

lemma drain_logger_kept: "logger_kept s (drain_queue pick q s)"
proof -
  have d: "logger_kept t (drop_mail r pm rest t)" for t r pm rest
  proof -
    let ?s1 = "emit (EvDrop r pm)
      (upd_queue r (\<lambda>x. x\<lparr>mailbox := rest, mailbox_count := mailbox_count x - 1\<rparr>) t)"
    let ?s2 = "if wants_reply (snd pm)
      then send 0 (source (snd pm)) PTYPE_ERROR (session (snd pm)) Monostate ?s1 else ?s1"
    have "logger_kept t ?s1" by (rule logger_kept_same) simp_all
    also have "logger_kept ?s1 ?s2"
      by (simp add: send_def push_message_def push_error_logger_kept logger_kept_same)
    also have "logger_kept ?s2 (free_owned_message_data (snd pm) ?s2)" by (rule logger_kept_same) simp_all
    finally show ?thesis by (simp only: drop_mail_def Let_def)
  qed
  have "logger_kept s (drain_loop pick q s)"
    by (rule drain_loop_rel [where R = logger_kept]) (auto intro: logger_kept_same logger_kept_trans d)
  also have "logger_kept \<dots> (drain_queue pick q s)"
    by (rule logger_kept_same) (simp_all add: drain_queue_def)
  finally show ?thesis .
qed

lemma kill_logger_kept:
  assumes inv: "sys_inv {} {} {} s" and g: "grab_queue s h = Some q"
    and l: "logger_handle s \<in> {0, find_name s ''logger''}"
  shows "find_name (kill pick h s) ''logger'' = find_name s ''logger''"
    and "logger_handle (kill pick h s) \<in> {0, find_name s ''logger''}"
proof -
  let ?c = "condemned h q s"
  have c: "names ?c = names s" "logger_handle ?c \<in> {0, find_name s ''logger''}"
    using l by (auto simp: condemned_def stop_accepting_def Let_def)
  have k: "names (kill pick h s) = names (drain_queue pick q ?c)"
    "logger_handle (kill pick h s) = logger_handle (drain_queue pick q ?c)"
    by (simp_all add: kill_unfold [OF inv g] clear_queue_owner_def destroy_actor_def)
  show "find_name (kill pick h s) ''logger'' = find_name s ''logger''"
    "logger_handle (kill pick h s) \<in> {0, find_name s ''logger''}"
    using drain_logger_kept [of ?c pick q] c by (auto simp: k logger_kept_def find_name_def)
qed

lemma error_unfold:
  assumes "lh = (if logger_handle s = 0 then find_name s ''logger'' else logger_handle s)"
  shows "error src what s =
    (if lh \<noteq> 0
     then push_message_n (Suc 6) lh \<lparr>source = src, session = 0, mtype = PTYPE_ERROR, mdata = Text (take 511 what)\<rparr>
            (s\<lparr>logger_handle := lh\<rparr>)
     else emit (EvStderr src (take 511 what)) (s\<lparr>logger_handle := lh\<rparr>))"
proof -
  have "NESTING = Suc (Suc 6)" by simp
  then show ?thesis by (simp only: error_def error_n.simps Let_def assms)
qed

section \<open>Small runs\<close>

lemma demo_running:
  "reach is_new_system sys_step (run_begin demo)" "running (run_begin demo)"
  "try_dequeue (\<lambda>ps. 0) (global_queue (run_begin demo)) = Some ((0, Some 0), [])"
  "\<not> releasing (queue_of (run_begin demo) 0)" "mailbox (queue_of (run_begin demo) 0) \<noteq> []"
  using reach_step [OF demo_reachable step_run] by simp (code_simp+)

text \<open>A concurrent queue may serve the most recent producer first.\<close>

definition pick_recent :: "nat list \<Rightarrow> nat" where
  "pick_recent ps = length (takeWhile (\<lambda>x. x \<noteq> last ps) ps)"

lemma picks_recent: "picks_ok pick_recent"
  unfolding picks_ok_def
proof (intro allI impI)
  fix ps :: "nat list" assume "ps \<noteq> []"
  let ?i = "length (takeWhile (\<lambda>x. x \<noteq> last ps) ps)"
  let ?t = "takeWhile (\<lambda>x. x \<noteq> last ps) ps"
  have "last ps \<in> set ps" using \<open>ps \<noteq> []\<close> by simp
  then have "dropWhile (\<lambda>x. x \<noteq> last ps) ps \<noteq> []" by (auto simp: dropWhile_eq_Nil_conv)
  moreover have "length ps = ?i + length (dropWhile (\<lambda>x. x \<noteq> last ps) ps)"
    by (simp flip: length_append)
  ultimately have i: "?i < length ps" by simp
  moreover have "ps ! ?i = last ps" using nth_length_takeWhile [OF i] by simp
  moreover have "\<forall>j < ?i. ps ! j \<noteq> last ps"
  proof (intro allI impI)
    fix j assume "j < ?i"
    then have "?t ! j \<in> set ?t" and "?t ! j = ps ! j" by (auto intro: nth_mem takeWhile_nth)
    then show "ps ! j \<noteq> last ps" by (metis (mono_tags, lifting) set_takeWhileD)
  qed
  ultimately show "pick_recent ps < length ps \<and> (\<forall>j < pick_recent ps. ps ! j \<noteq> ps ! pick_recent ps)"
    by (simp add: pick_recent_def)
qed

text \<open>Actor 1 receives two messages of source 9, sent while two different threads run it.\<close>

definition overtaking_run :: system where
  "overtaking_run =
     worker_turn (\<lambda>ps. 0) pick_recent (\<lambda>s a m. ([], None)) 0
       (run_begin
         (send 9 1 PTYPE_TEXT 0 (Text ''second'')
           ((send 9 1 PTYPE_TEXT 0 (Text ''first'')
              (snd (spawn (\<lambda>ps. 0) [] InitOk (new_system 4 4))))\<lparr>cur_thread := 1\<rparr>)))"

lemma overtaking_reachable: "reach is_new_system sys_step overtaking_run"
  unfolding overtaking_run_def
  by (rule reach_step [OF reach_step [OF reach_step [OF reach_step [OF reach_step [OF reach_step
        [OF new_reachable step_spawn [OF picks_first]] step_send] step_thread] step_send] step_run]
        step_worker [OF picks_first picks_recent]])

lemma overtaking_state:
  "0 < next_obj overtaking_run"
  "enqueued (events_of 0 overtaking_run) =
     [(0, \<lparr>source = 9, session = 0, mtype = PTYPE_TEXT, mdata = Text ''first''\<rparr>),
      (1, \<lparr>source = 9, session = 0, mtype = PTYPE_TEXT, mdata = Text ''second''\<rparr>)]"
  "consumed (events_of 0 overtaking_run) =
     [(1, \<lparr>source = 9, session = 0, mtype = PTYPE_TEXT, mdata = Text ''second''\<rparr>)]"
  by code_simp+

section \<open>Properties\<close>

text \<open>
  C23.  A worker's turn is bounded and makes progress: a turn that takes a queue hands over at most
  the batch its weight allows for the messages then waiting (all of them, a half, a quarter or
  one), and at least one message if the queue is live and has messages.
\<close>

theorem worker_turn_bounded_progress:
  assumes "reach is_new_system sys_step s" and "running s" and "picks_ok pick"
    and "try_dequeue gpick (global_queue s) = Some ((p, Some q), rest)"
  shows "length (delivered (worker_turn gpick pick beh w s)) \<le>
      length (delivered s) +
        batch_size (calc_weight (worker_count s) (int w)) (length (mailbox (queue_of s q))) \<and>
    (\<not> releasing (queue_of s q) \<and> mailbox (queue_of s q) \<noteq> [] \<longrightarrow>
       length (delivered s) < length (delivered (worker_turn gpick pick beh w s)))"
proof -
  let ?wt = "calc_weight (worker_count s) (int w)"
  have t: "worker_turn gpick pick beh w s = dispatch_queue pick beh ?wt w q (taken rest w s)"
    using assms(2,4) by (simp add: worker_turn_def taken_def Let_def)
  show ?thesis
    unfolding t
  proof (rule dispatch_taken [OF runtime.reach_inv [OF assms(1)] assms(4), of pick beh ?wt w])
    fix s2 doomed
    let ?b = "batch_size ?wt (length (mailbox (queue_of s q)))"
    assume *: "delivered s2 = delivered s" "mailbox (queue_of s2 q) = mailbox (queue_of s q)"
      "\<not> releasing (queue_of s2 q)" "\<not> destroy_requested (actor_of s2 q)"
      "dispatch_queue pick beh ?wt w q (taken rest w s) =
         dispatch_leave q q doomed (dispatch_finish pick q q (dispatch_loop pick beh w q q ?b s2))"
    have "0 < ?b" using batch_size_bounds by (simp add: Suc_le_eq)
    with * dispatch_loop_delivered [of pick beh w q q ?b s2]
      dispatch_loop_progress [OF assms(3) *(3,4), of ?b beh w]
    show "length (delivered (dispatch_queue pick beh ?wt w q (taken rest w s))) \<le> length (delivered s) + ?b \<and>
      (\<not> releasing (queue_of s q) \<and> mailbox (queue_of s q) \<noteq> [] \<longrightarrow>
       length (delivered s) < length (delivered (dispatch_queue pick beh ?wt w q (taken rest w s))))"
      by simp
  qed simp
qed

theorem worker_turn_bounded_progress_witness:
  "length (delivered (run_begin demo)) <
     length (delivered (worker_turn (\<lambda>ps. 0) (\<lambda>ps. 0) (\<lambda>s a m. ([], None)) 3 (run_begin demo)))"
  using worker_turn_bounded_progress [OF demo_running(1,2) picks_first demo_running(3)] demo_running(4,5)
  by blast

text \<open>
  Batches: a worker's weight is \<open>-1\<close>, 0, 1 or 2, and the batch for \<open>n\<close> waiting messages is
  between one and \<open>n\<close> (one if there are none): one, all, half and a quarter of them.
\<close>

theorem batch_for_weight:
  "calc_weight workers w \<in> {-1, 0, 1, 2} \<and>
   batch_size (-1) n = 1 \<and> batch_size 0 n = max 1 n \<and>
   batch_size 1 n = max 1 (n div 2) \<and> batch_size 2 n = max 1 (n div 4) \<and>
   1 \<le> batch_size weight n \<and> batch_size weight n \<le> max 1 n"
  using batch_size_bounds [of weight n]
  by (auto simp: calc_weight_def batch_size_def Let_def drop_bit_eq_div)

text \<open>
  C28.  The 64 shards are one map from handles to queues.  Killing a handle removes exactly it, and sending a
  message changes nothing.  \<open>spawn\<close>, whatever \<open>on_init\<close> does and however it ends, first adds exactly the new
  handle with the new queue; what \<open>on_init\<close> calls acts on that map, giving \<open>t\<close>; if it fails, the handle is removed
  again unless it leads to another queue meanwhile, and nothing else changes.  In particular, without calls in
  \<open>on_init\<close>, the new handle is all that is added, or on failure nothing is.  \<open>actor_count\<close> is the number of
  registered handles.
\<close>

theorem registry_is_a_map:
  assumes "reach is_new_system sys_step s" and "picks_ok pick"
    and "s1 = snd (snd (spawn_begin s))" and "t = run_actions pick (next_obj s) (next_handle s) acts s1"
  shows "grab_queue (kill pick h s) = (grab_queue s)(h := None) \<and>
    grab_queue (push_message dest msg s) = grab_queue s \<and>
    grab_queue s1 = (grab_queue s)(next_handle s \<mapsto> next_obj s) \<and>
    grab_queue (snd (spawn pick acts out s)) =
      (if (out \<noteq> InitOk \<or> init_failed (actor_of t (next_obj s))) \<and> grab_queue t (next_handle s) = Some (next_obj s)
       then (grab_queue t)(next_handle s := None) else grab_queue t) \<and>
    grab_queue (snd (spawn pick [] out s)) =
      (grab_queue s)(next_handle s := (if out = InitOk then Some (next_obj s) else None)) \<and>
    actor_count s = card (dom (grab_queue s))"
proof -
  note inv = runtime.reach_inv [OF assms(1)]
  note ok = sys_invD(1) [OF inv]
  have sb: "spawn_begin s = (next_obj s, next_handle s, s1)"
    unfolding assms(3) by (simp add: spawn_begin_def Let_def)
  have g1: "grab_queue s1 = (grab_queue s)(next_handle s \<mapsto> next_obj s)"
    unfolding assms(3) using reg.abs_insert [OF ok] by (simp add: spawn_begin_def Let_def grab_queue_def [abs_def])
  have inv1: "sys_inv {} {} {} s1" using spawn_begin_inv [OF inv _ sb] by simp
  note spawned = spawn_registry [OF sb, where pick = pick and out = out]
  have okt: "shards_ok (actor_shards t)"
    unfolding assms(4) using run_actions_inv(2) [OF assms(2) inv1] by (blast dest: sys_invD(1))
  have "grab_queue (push_message dest msg s) = grab_queue s"
    using messaging_keeps_inv(1) [of s dest msg] by (simp add: keeps_inv_def static_same_def grab_queue_def [abs_def])
  moreover have "actor_count s = card (dom (grab_queue s))"
    using card_dom_shard_find [OF ok] by (simp add: actor_count_def fold_length grab_queue_def [abs_def])
  moreover have "\<not> init_failed (actor_of s1 (next_obj s))"
    unfolding assms(3) by (simp add: spawn_begin_def new_actor_def Let_def)
  ultimately show ?thesis
    using g1 grab_queue_kill [OF ok, of pick h] spawned [OF assms(4) okt]
      spawned [where acts = "[]" and t = s1, OF _ sys_invD(1) [OF inv1]]
    by (simp add: fun_eq_iff)
qed

theorem registry_is_a_map_witness:
  "grab_queue (kill (\<lambda>ps. 0) 1 demo) = (grab_queue demo)(1 := None) \<and>
   grab_queue (snd (spawn (\<lambda>ps. 0) [] InitOk demo)) = (grab_queue demo)(next_handle demo \<mapsto> next_obj demo) \<and>
   grab_queue (snd (spawn (\<lambda>ps. 0) [] InitFailed demo)) = (grab_queue demo)(next_handle demo := None) \<and>
   actor_count demo = card (dom (grab_queue demo))"
proof -
  note r = registry_is_a_map [OF demo_reachable picks_first refl refl]
  have "grab_queue (snd (spawn (\<lambda>ps. 0) [] out demo)) =
      (grab_queue demo)(next_handle demo := (if out = InitOk then Some (next_obj demo) else None))" for out
    using r by blast
  from this [of InitOk] this [of InitFailed] r show ?thesis by simp
qed

text \<open>
  C24.  Killing: in a reachable state \<open>kill\<close> of a registered actor unregisters it, runs its
  \<open>on_destroy\<close>, and leaves no message in its mailbox.
\<close>

theorem kill_destroys:
  assumes "reach is_new_system sys_step s" and "picks_ok pick" and "grab_queue s h = Some q"
  shows "grab_queue (kill pick h s) h = None \<and> destroyed (actor_of (kill pick h s) q) \<and>
    mailbox (queue_of (kill pick h s) q) = [] \<and> receiver (kill pick h s) h = None"
proof -
  note inv = runtime.reach_inv [OF assms(1)]
  note q = reach_registered [OF assms(1,3)]
  have r: "reach is_new_system sys_step (kill pick h s)"
    by (rule reach_step [OF assms(1) step_kill [OF assms(2)]])
  have g: "grab_queue (kill pick h s) h = None"
    using grab_queue_kill [OF sys_invD(1) [OF inv]] by simp
  have "releasing (queue_of (drain_queue pick q (condemned h q s)) q)"
    using drain_queue_static [of "condemned h q s" pick q] by (simp add: static_same_def)
  then have "releasing (queue_of (kill pick h s) q)"
    by (simp add: kill_unfold [OF inv assms(3)] clear_queue_owner_def destroy_actor_def)
  with reach_queue_ok [OF r, of q] q(1) g show ?thesis
    by (auto simp: queue_ok_def receiver_def)
qed

theorem kill_destroys_witness:
  "grab_queue (kill (\<lambda>ps. 0) 1 demo) 1 = None \<and> destroyed (actor_of (kill (\<lambda>ps. 0) 1 demo) 0) \<and>
   mailbox (queue_of (kill (\<lambda>ps. 0) 1 demo) 0) = [] \<and> receiver (kill (\<lambda>ps. 0) 1 demo) 1 = None"
  by (rule kill_destroys [OF demo_reachable picks_first demo_state(1)])

text \<open>
  C25.  The end of \<open>run\<close>, once its threads have been joined: after the cleanup no handle is registered, and
  every actor that was registered when the cleanup began has been destroyed and its mailbox emptied.  (An actor
  whose handle has been given to another one, \<open>handle_reused_after_wrap\<close>, is not registered and is not reached.)
\<close>

theorem run_end_destroys_all:
  assumes "reach is_new_system sys_step s" and "picks_ok pick"
  shows "(\<forall>h. grab_queue (run_end pick s) h = None) \<and>
    (\<forall>h q. grab_queue s h = Some q \<longrightarrow>
       destroyed (actor_of (run_end pick s) q) \<and> mailbox (queue_of (run_end pick s) q) = [])"
proof -
  note ok = sys_invD(1) [OF runtime.reach_inv [OF assms(1)]]
  let ?qs = "map snd (concat (actor_shards s))"
  let ?s0 = "s\<lparr>actor_shards := map (\<lambda>shard. []) (actor_shards s)\<rparr>"
  have un: "grab_queue ?s0 d = None" for d
    using ok shard_index_less [of d] by (simp add: grab_queue_def shard_find_def shards_ok_def)
  have reg: "set ?qs = ran (grab_queue s)"
    using registered_shards [OF ok] by (simp add: grab_queue_def [abs_def])
  have "owner (queue_of ?s0 q) = Some q \<or> owner (queue_of ?s0 q) = None \<and> destroyed (actor_of ?s0 q)"
    if "q \<in> set ?qs" for q
  proof -
    from that reg obtain h where "grab_queue s h = Some q" by (auto simp: ran_def)
    from reach_registered [OF assms(1) this] show ?thesis
      using reach_queue_ok [OF assms(1), of q] by (simp add: queue_ok_def)
  qed
  note f = cleanup_fold [OF assms(2) un this]
  have "q \<in> set ?qs" if "grab_queue s h = Some q" for h q
    unfolding reg using that by (rule ranI)
  with f show ?thesis unfolding run_end_def Let_def by blast
qed

theorem run_end_destroys_all_witness:
  "grab_queue (run_end (\<lambda>ps. 0) demo) 1 = None \<and>
   destroyed (actor_of (run_end (\<lambda>ps. 0) demo) 0) \<and> mailbox (queue_of (run_end (\<lambda>ps. 0) demo) 0) = []"
  using run_end_destroys_all [OF demo_reachable picks_first] demo_state(1) by blast

text \<open>
  Error reports: \<open>error\<close> puts the text, cut to 511 bytes, into the mailbox of the logger if
  it accepts messages, and writes it to \<open>stderr\<close> if no logger is known.  If the logger's handle is
  known but no longer accepts messages, the report disappears: nothing is written anywhere.
\<close>

theorem error_report_routing:
  assumes "lh = (if logger_handle s = 0 then find_name s ''logger'' else logger_handle s)"
  shows "(lh = 0 \<longrightarrow> trace (error src what s) = trace s @ [EvStderr src (take 511 what)]) \<and>
    (lh \<noteq> 0 \<longrightarrow> receiver s lh = Some q \<longrightarrow>
       (\<exists>xs. mailbox (queue_of (error src what s) q) = mailbox (queue_of s q) @
          (cur_thread s, \<lparr>source = src, session = 0, mtype = PTYPE_ERROR, mdata = Text (take 511 what)\<rparr>) # xs)) \<and>
    (lh \<noteq> 0 \<longrightarrow> receiver s lh = None \<longrightarrow> error src what s = s\<lparr>logger_handle := lh\<rparr>)"
proof -
  let ?msg = "\<lparr>source = src, session = 0, mtype = PTYPE_ERROR, mdata = Text (take 511 what)\<rparr>"
  let ?s1 = "s\<lparr>logger_handle := lh\<rparr>"
  have e: "error src what s = (if lh \<noteq> 0 then push_message_n (Suc 6) lh ?msg ?s1
      else emit (EvStderr src (take 511 what)) ?s1)"
    by (rule error_unfold [OF assms])
  have r: "receiver ?s1 lh = receiver s lh"
    by (simp add: receiver_def grab_queue_def split: option.split)
  have "receiver s lh = Some q \<Longrightarrow> \<exists>xs. mailbox (queue_of (push_message_n (Suc 6) lh ?msg ?s1) q) =
      mailbox (queue_of s q) @ (cur_thread s, ?msg) # xs"
    using accept_mailbox [of ?s1 lh q 6 ?msg] r by auto
  moreover have "receiver s lh = None \<Longrightarrow> push_message_n (Suc 6) lh ?msg ?s1 = ?s1"
    using push_message_n_reject [of ?s1 lh 6 ?msg] r
    by (simp add: wants_reply_def free_owned_message_data_def)
  ultimately show ?thesis using e by simp
qed

theorem error_report_routing_witness:
  "trace (error 5 ''disk full'' (new_system 4 4)) = trace (new_system 4 4) @ [EvStderr 5 (take 511 ''disk full'')] \<and>
   error 5 ''disk full'' ((new_system 4 4)\<lparr>logger_handle := 8\<rparr>) = (new_system 4 4)\<lparr>logger_handle := 8\<rparr>"
proof -
  have "(0 :: u32) = (if logger_handle (new_system 4 4) = 0 then find_name (new_system 4 4) ''logger''
      else logger_handle (new_system 4 4))"
    by (simp add: new_system_def find_name_def)
  note first = error_report_routing [OF this]
  let ?s = "(new_system 4 4)\<lparr>logger_handle := 8\<rparr>"
  have "(8 :: u32) = (if logger_handle ?s = 0 then find_name ?s ''logger'' else logger_handle ?s)"
    by simp
  note second = error_report_routing [OF this]
  have "receiver ?s 8 = None" by code_simp
  with first second show ?thesis by simp
qed

text \<open>
  Stuck workers: with no dispatch begun or ended in between, the second of two checks reports
  a worker exactly if it is busy; a dispatch begun after a check is not reported by the next one,
  and an idle worker never is.
\<close>

theorem monitor_reports_stuck_workers:
  "fst (mon_check (snd (mon_check m))) = busy m \<and>
   \<not> fst (mon_check (mon_begin src dst (snd (mon_check m)))) \<and>
   \<not> fst (mon_check (mon_end m))"
  by (auto simp: mon_check_def mon_begin_def mon_end_def)

text \<open>
  C29.  A killed logger swallows error reports: \<open>kill\<close> forgets the cached logger handle but not the
  registered name, so the next \<open>error\<close> looks the dead handle up again and its report goes neither
  to a mailbox nor to \<open>stderr\<close>.
\<close>

theorem killed_logger_swallows_errors:
  assumes "reach is_new_system sys_step s" and "picks_ok pick" and "grab_queue s h = Some q"
    and "find_name s ''logger'' = h" and "h \<noteq> 0" and "logger_handle s \<in> {0, h}"
  shows "trace (error src what (kill pick h s)) = trace (kill pick h s) \<and>
    queue_of (error src what (kill pick h s)) = queue_of (kill pick h s)"
proof -
  note inv = runtime.reach_inv [OF assms(1)]
  let ?k = "kill pick h s"
  let ?msg = "\<lparr>source = src, session = 0, mtype = PTYPE_ERROR, mdata = Text (take 511 what)\<rparr>"
  let ?k1 = "?k\<lparr>logger_handle := h\<rparr>"
  have l: "logger_handle ?k = 0 \<and> find_name ?k ''logger'' = h \<or> logger_handle ?k = h"
    using kill_logger_kept [OF inv assms(3)] assms(4,6) by auto
  have "grab_queue ?k h = None" using grab_queue_kill [OF sys_invD(1) [OF inv]] by simp
  then have r: "receiver ?k1 h = None" by (simp add: receiver_def grab_queue_def)
  have "h = (if logger_handle ?k = 0 then find_name ?k ''logger'' else logger_handle ?k)"
    using l assms(5) by auto
  then have "error src what ?k = push_message_n (Suc 6) h ?msg ?k1"
    using assms(5) by (simp only: error_unfold not_False_eq_True if_True)
  also have "\<dots> = ?k1"
    using push_message_n_reject [OF r, of 6 ?msg] by (simp add: wants_reply_def free_owned_message_data_def)
  finally show ?thesis by simp
qed

theorem killed_logger_swallows_errors_witness:
  "trace (error 3 ''lost'' (kill (\<lambda>ps. 0) 1 (register_name ''logger'' 1 demo))) =
     trace (kill (\<lambda>ps. 0) 1 (register_name ''logger'' 1 demo)) \<and>
   queue_of (error 3 ''lost'' (kill (\<lambda>ps. 0) 1 (register_name ''logger'' 1 demo))) =
     queue_of (kill (\<lambda>ps. 0) 1 (register_name ''logger'' 1 demo))"
proof (rule killed_logger_swallows_errors [OF _ picks_first])
  show "reach is_new_system sys_step (register_name ''logger'' 1 demo)"
    by (rule reach_step [OF demo_reachable step_register])
  show "grab_queue (register_name ''logger'' 1 demo) 1 = Some 0" by code_simp
qed (simp_all add: register_name_def find_name_def Let_def update_conv')

text \<open>
  Order is per thread, not per sender: the messages one actor sends to another can be handed
  over in the opposite order when the sender ran on different worker threads, since each thread is
  its own producer of the mailbox queue.
\<close>

theorem messages_may_overtake:
  "\<exists>s q p1 m1 p2 m2. reach is_new_system sys_step s \<and> source m1 = source m2 \<and>
     enqueued (events_of q s) = [(p1, m1), (p2, m2)] \<and> consumed (events_of q s) = [(p2, m2)] \<and> m1 \<noteq> m2"
  using overtaking_reachable overtaking_state(2,3)
  by (intro exI [of _ overtaking_run] exI [of _ 0] exI [of _ "0 :: nat"] exI [of _ "1 :: nat"] exI conjI) auto

end
