(* ===== verification/Dispatch_Protocol.thy ===== *)
theory Dispatch_Protocol
  imports Actor_System
begin

text \<open>
  The scheduling protocol of one \<open>ActorQueue\<close> (\<open>src/src/skynet.cpp\<close>, \<open>src/src/skynet.h\<close>) at the
  grain of its atomic operations.  \<open>Actor_System\<close> runs every call to its end before the next one
  starts; here any number of threads interleave between any two loads, stores and read-modify-write
  operations of \<open>push_message\<close>, \<open>schedule_queue\<close>, \<open>dispatch_queue\<close>, \<open>drain_queue\<close>, \<open>destroy_actor\<close>,
  \<open>kill\<close> and \<open>spawn\<close> on one queue and its actor.

  A thread is a program counter.  A call made inside \<open>on_message\<close> runs as another thread while the
  caller stays at \<open>Handling\<close>, which allows every order the code allows.  Operations are sequentially
  consistent, except that a thread may delay its store of \<open>initialized\<close> past the load of
  \<open>mailbox_count\<close> that follows it in \<open>spawn\<close> (\<open>weak\<close>): a release store and a later acquire load of
  another variable are not ordered.

  \<open>mailbox_count\<close> is a \<open>size_t\<close> that producers increment after they enqueue, so that it may run
  behind the mailbox and wrap below zero.  It is kept as an integer, read modulo \<open>2 ^ 64\<close> where the
  code computes with it; that it is zero is read off the integer, which differs only beyond
  \<open>2 ^ 64\<close> messages.
\<close>

section \<open>State\<close>

record shared =
  q_mail :: nat                \<comment> \<open>messages in \<open>mailbox\<close>\<close>
  q_count :: int               \<comment> \<open>\<open>mailbox_count\<close>\<close>
  q_state :: nat               \<comment> \<open>\<open>schedule_state\<close>\<close>
  q_accepting :: bool
  q_releasing :: bool
  q_initialized :: bool
  q_owner :: bool              \<comment> \<open>\<open>owner\<close> is not null\<close>
  a_depth :: int               \<comment> \<open>\<open>dispatch_depth_\<close>\<close>
  a_destroy_requested :: bool
  a_destroyed :: bool
  registered :: bool           \<comment> \<open>the handle is in its shard\<close>
  tokens :: nat                \<comment> \<open>references to the queue in \<open>global_queue_\<close>\<close>
  destroys :: nat              \<comment> \<open>calls of \<open>on_destroy\<close>, a history variable\<close>

text \<open>Where \<open>schedule_queue\<close> and \<open>enqueue_global\<close> return to, and which code drains and destroys.\<close>

datatype ret = RIdle | RLeave

datatype site = Ownerless | Doomed | Finish | Kill | Spawn | Leave

datatype pc =
    Idle
  | PushAccepting | PushEnqueue | PushCount | PushInit
  | Sched ret | SchedCas ret | SchedEnqueue ret
  | DispState | DispCas | DispOwner | DispDepth | DispReleasing | DispRequested | DispBatch
  | Loop nat | LoopReleasing nat | LoopTake nat | LoopCount nat | Handling nat
  | FinReleasing | FinRequested | FinCount | FinRequeue
  | FinIdle | FinIdleRequested | FinIdleReleasing | FinIdleCount
  | DispLeave | LeaveRequested | LeaveReleasing
  | Drain site | DrainCount site | DrainEnd site | StateIdle site | DoomedLeave
  | Destroy site | OnDestroy site | ClearOwner site
  | KillAccepting | KillReleasing | KillOwner | KillRequest | KillDepth
  | SpawnInit | SpawnStore | SpawnCount | SpawnErase | SpawnAccepting | SpawnReleasing
  | DelayedCount | DelayedCas | DelayedStore

text \<open>
  What the environment decides: which call an idle thread makes, the outcome of \<open>on_init\<close>, the
  weight of the worker, and whether a store is delayed.
\<close>

datatype choice = CallPush | CallTake | CallKill | InitSucceeds | InitFails | Weight int | Go | Delay

fun return_to :: "ret \<Rightarrow> pc" where
  "return_to RIdle = Idle"
| "return_to RLeave = DispLeave"

fun after_drain :: "site \<Rightarrow> pc" where
  "after_drain Kill = Destroy Kill"
| "after_drain Spawn = Destroy Spawn"
| "after_drain k = StateIdle k"

fun after_state_idle :: "site \<Rightarrow> pc" where
  "after_state_idle Doomed = DoomedLeave"
| "after_state_idle Finish = DispLeave"
| "after_state_idle k = Idle"

fun after_clear :: "site \<Rightarrow> pc" where
  "after_clear Kill = StateIdle Kill"
| "after_clear k = Idle"

section \<open>Atomic steps\<close>

definition batch_for :: "int \<Rightarrow> int \<Rightarrow> nat" where
  "batch_for weight n = batch_size weight (nat (n mod 2 ^ 64))"

fun start :: "choice \<Rightarrow> shared \<Rightarrow> (pc \<times> shared) option" where
  "start CallPush s = (if registered s then Some (PushAccepting, s) else None)"
| "start CallTake s = (if tokens s > 0 then Some (DispState, s\<lparr>tokens := tokens s - 1\<rparr>) else None)"
| "start CallKill s = (if registered s then Some (KillAccepting, s\<lparr>registered := False\<rparr>) else None)"
| "start _ s = None"

fun push_step :: "pc \<Rightarrow> shared \<Rightarrow> (pc \<times> shared) option" where
  "push_step PushAccepting s = Some (if q_accepting s then PushEnqueue else Idle, s)"
| "push_step PushEnqueue s = Some (PushCount, s\<lparr>q_mail := q_mail s + 1\<rparr>)"
| "push_step PushCount s = Some (PushInit, s\<lparr>q_count := q_count s + 1\<rparr>)"
| "push_step PushInit s = Some (if q_initialized s then Sched RIdle else Idle, s)"
| "push_step _ s = None"

fun sched_step :: "pc \<Rightarrow> shared \<Rightarrow> (pc \<times> shared) option" where
  "sched_step (Sched r) s = Some (if q_initialized s then SchedCas r else return_to r, s)"
| "sched_step (SchedCas r) s =
     Some (if q_state s = 0 then (SchedEnqueue r, s\<lparr>q_state := 1\<rparr>) else (return_to r, s))"
| "sched_step (SchedEnqueue r) s = Some (return_to r, s\<lparr>tokens := tokens s + 1\<rparr>)"
| "sched_step _ s = None"

text \<open>\<open>dispatch_queue\<close> up to and including the message loop.\<close>

fun dispatch_step :: "pc \<Rightarrow> choice \<Rightarrow> shared \<Rightarrow> (pc \<times> shared) option" where
  "dispatch_step DispState c s =
     Some (if q_state s = 1 then DispCas else if q_state s = 2 then DispOwner else Idle, s)"
| "dispatch_step DispCas c s = Some (if q_state s = 1 then (DispOwner, s\<lparr>q_state := 2\<rparr>) else (Idle, s))"
| "dispatch_step DispOwner c s = Some (if q_owner s then DispDepth else Drain Ownerless, s)"
| "dispatch_step DispDepth c s = Some (DispReleasing, s\<lparr>a_depth := a_depth s + 1\<rparr>)"
| "dispatch_step DispReleasing c s = Some (if q_releasing s then Drain Doomed else DispRequested, s)"
| "dispatch_step DispRequested c s = Some (if a_destroy_requested s then Drain Doomed else DispBatch, s)"
| "dispatch_step DispBatch c s =
     (case c of Weight w \<Rightarrow> Some (Loop (batch_for w (q_count s)), s) | _ \<Rightarrow> None)"
| "dispatch_step (Loop n) c s =
     Some (case n of 0 \<Rightarrow> FinReleasing
           | Suc k \<Rightarrow> if a_destroy_requested s then FinReleasing else LoopReleasing k, s)"
| "dispatch_step (LoopReleasing k) c s = Some (if q_releasing s then FinReleasing else LoopTake k, s)"
| "dispatch_step (LoopTake k) c s =
     Some (if q_mail s > 0 then (LoopCount k, s\<lparr>q_mail := q_mail s - 1\<rparr>) else (FinReleasing, s))"
| "dispatch_step (LoopCount k) c s = Some (Handling k, s\<lparr>q_count := q_count s - 1\<rparr>)"
| "dispatch_step (Handling k) c s = Some (Loop k, s)"
| "dispatch_step _ c s = None"

text \<open>\<open>dispatch_queue\<close> after the message loop.\<close>

fun finish_step :: "pc \<Rightarrow> shared \<Rightarrow> (pc \<times> shared) option" where
  "finish_step FinReleasing s = Some (if q_releasing s then Drain Finish else FinRequested, s)"
| "finish_step FinRequested s = Some (if a_destroy_requested s then Drain Finish else FinCount, s)"
| "finish_step FinCount s = Some (if q_count s \<noteq> 0 then FinRequeue else FinIdle, s)"
| "finish_step FinRequeue s = Some (SchedEnqueue RLeave, s\<lparr>q_state := 1\<rparr>)"
| "finish_step FinIdle s = Some (FinIdleRequested, s\<lparr>q_state := 0\<rparr>)"
| "finish_step FinIdleRequested s = Some (if a_destroy_requested s then DispLeave else FinIdleReleasing, s)"
| "finish_step FinIdleReleasing s = Some (if q_releasing s then DispLeave else FinIdleCount, s)"
| "finish_step FinIdleCount s = Some (if q_count s \<noteq> 0 then Sched RLeave else DispLeave, s)"
| "finish_step DispLeave s =
     Some (if a_depth s = 1 then LeaveRequested else Idle, s\<lparr>a_depth := a_depth s - 1\<rparr>)"
| "finish_step LeaveRequested s = Some (if a_destroy_requested s then Destroy Leave else LeaveReleasing, s)"
| "finish_step LeaveReleasing s = Some (if q_releasing s then Destroy Leave else Idle, s)"
| "finish_step _ s = None"

text \<open>\<open>drain_queue\<close>, \<open>destroy_actor\<close> and \<open>clear_queue_owner\<close>, and what follows them at each site.\<close>

fun destroy_step :: "pc \<Rightarrow> shared \<Rightarrow> (pc \<times> shared) option" where
  "destroy_step (Drain k) s =
     Some (if q_mail s > 0 then (DrainCount k, s\<lparr>q_mail := q_mail s - 1\<rparr>) else (DrainEnd k, s))"
| "destroy_step (DrainCount k) s = Some (Drain k, s\<lparr>q_count := q_count s - 1\<rparr>)"
| "destroy_step (DrainEnd k) s = Some (after_drain k, s\<lparr>q_count := 0\<rparr>)"
| "destroy_step (StateIdle k) s = Some (after_state_idle k, s\<lparr>q_state := 0\<rparr>)"
| "destroy_step DoomedLeave s =
     Some (if a_depth s = 1 then Destroy Doomed else Idle, s\<lparr>a_depth := a_depth s - 1\<rparr>)"
| "destroy_step (Destroy k) s =
     Some (if a_destroyed s then (ClearOwner k, s)
           else (OnDestroy k, s\<lparr>a_destroyed := True, destroys := destroys s + 1\<rparr>))"
| "destroy_step (OnDestroy k) s = Some (ClearOwner k, s)"
| "destroy_step (ClearOwner k) s = Some (after_clear k, s\<lparr>q_owner := False\<rparr>)"
| "destroy_step _ s = None"

fun kill_step :: "pc \<Rightarrow> shared \<Rightarrow> (pc \<times> shared) option" where
  "kill_step KillAccepting s = Some (KillReleasing, s\<lparr>q_accepting := False\<rparr>)"
| "kill_step KillReleasing s = Some (KillOwner, s\<lparr>q_releasing := True\<rparr>)"
| "kill_step KillOwner s = Some (if q_owner s then KillRequest else Sched RIdle, s)"
| "kill_step KillRequest s = Some (KillDepth, s\<lparr>a_destroy_requested := True\<rparr>)"
| "kill_step KillDepth s = Some (if a_depth s = 0 then Drain Kill else Sched RIdle, s)"
| "kill_step _ s = None"

text \<open>
  \<open>spawn\<close> from \<open>on_init\<close> on.  With \<open>weak\<close>, the store of \<open>initialized\<close> may sit in the store buffer
  while \<open>mailbox_count\<close> is loaded; the thread sees its own store, and the compare-exchange of
  \<open>schedule_queue\<close> is preceded by it.
\<close>

fun spawn_step :: "bool \<Rightarrow> pc \<Rightarrow> choice \<Rightarrow> shared \<Rightarrow> (pc \<times> shared) option" where
  "spawn_step weak SpawnInit c s =
     (case c of InitSucceeds \<Rightarrow> Some (SpawnStore, s) | InitFails \<Rightarrow> Some (SpawnErase, s) | _ \<Rightarrow> None)"
| "spawn_step weak SpawnStore c s =
     (if c = Delay then (if weak then Some (DelayedCount, s) else None)
      else Some (SpawnCount, s\<lparr>q_initialized := True\<rparr>))"
| "spawn_step weak SpawnCount c s = Some (if q_count s \<noteq> 0 then Sched RIdle else Idle, s)"
| "spawn_step weak SpawnErase c s = Some (SpawnAccepting, s\<lparr>registered := False\<rparr>)"
| "spawn_step weak SpawnAccepting c s = Some (SpawnReleasing, s\<lparr>q_accepting := False\<rparr>)"
| "spawn_step weak SpawnReleasing c s = Some (Drain Spawn, s\<lparr>q_releasing := True\<rparr>)"
| "spawn_step weak DelayedCount c s = Some (if q_count s \<noteq> 0 then DelayedCas else DelayedStore, s)"
| "spawn_step weak DelayedCas c s = Some (SchedCas RIdle, s\<lparr>q_initialized := True\<rparr>)"
| "spawn_step weak DelayedStore c s = Some (Idle, s\<lparr>q_initialized := True\<rparr>)"
| "spawn_step weak _ c s = None"

text \<open>Each program counter belongs to one of these groups.\<close>

fun first_some :: "'a option list \<Rightarrow> 'a option" where
  "first_some [] = None"
| "first_some (None # xs) = first_some xs"
| "first_some (Some x # xs) = Some x"

definition atomic :: "bool \<Rightarrow> pc \<Rightarrow> choice \<Rightarrow> shared \<Rightarrow> (pc \<times> shared) option" where
  "atomic weak p c s =
     (if p = Idle then start c s
      else first_some [push_step p s, sched_step p s, dispatch_step p c s, finish_step p s,
             destroy_step p s, kill_step p s, spawn_step weak p c s])"

record protocol =
  sh :: shared
  pcs :: "nat \<Rightarrow> pc"

text \<open>\<open>spawn\<close> has registered the queue (thread 0) and is about to call \<open>on_init\<close>.\<close>

definition proto_init :: protocol where
  "proto_init = \<lparr>sh = \<lparr>q_mail = 0, q_count = 0, q_state = 0, q_accepting = True, q_releasing = False,
       q_initialized = False, q_owner = True, a_depth = 0, a_destroy_requested = False,
       a_destroyed = False, registered = True, tokens = 0, destroys = 0\<rparr>,
     pcs = (\<lambda>t. Idle)(0 := SpawnInit)\<rparr>"

definition thread_step :: "bool \<Rightarrow> nat \<Rightarrow> choice \<Rightarrow> protocol \<Rightarrow> protocol option" where
  "thread_step weak t c s =
     (case atomic weak (pcs s t) c (sh s) of
        None \<Rightarrow> None
      | Some (p, s') \<Rightarrow> Some \<lparr>sh = s', pcs = (pcs s)(t := p)\<rparr>)"

inductive proto_step :: "bool \<Rightarrow> protocol \<Rightarrow> protocol \<Rightarrow> bool" for weak where
  proto_step: "thread_step weak t c s = Some s' \<Longrightarrow> proto_step weak s s'"

inductive_cases proto_stepE: "proto_step weak s s'"

text \<open>A schedule: which thread moves, and its choice.\<close>

fun run_schedule :: "bool \<Rightarrow> (nat \<times> choice) list \<Rightarrow> protocol \<Rightarrow> protocol option" where
  "run_schedule weak [] s = Some s"
| "run_schedule weak ((t, c) # xs) s =
     (case thread_step weak t c s of None \<Rightarrow> None | Some s' \<Rightarrow> run_schedule weak xs s')"

abbreviation proto_reach :: "bool \<Rightarrow> protocol \<Rightarrow> bool" where
  "proto_reach weak \<equiv> reach (\<lambda>s. s = proto_init) (proto_step weak)"

lemma run_schedule_reach:
  assumes "proto_reach weak s" and "run_schedule weak xs s = Some s'"
  shows "proto_reach weak s'"
  using assms
proof (induction weak xs s rule: run_schedule.induct)
  case (2 weak t c xs s)
  then show ?case by (auto split: option.splits intro: reach_step proto_step)
qed simp

end
