(* ===== verification/Thread_Counts.thy ===== *)
theory Thread_Counts
  imports Main
begin

text \<open>
  Counting the threads whose program counter satisfies a predicate, for programs in which all but
  finitely many threads rest at one program counter.
\<close>

definition num :: "('p \<Rightarrow> bool) \<Rightarrow> (nat \<Rightarrow> 'p) \<Rightarrow> int" where
  "num P f = int (card {t. P (f t)})"

definition fin_except :: "(nat \<Rightarrow> 'p) \<Rightarrow> 'p \<Rightarrow> bool" where
  "fin_except f rest = finite {t. f t \<noteq> rest}"

lemma fin_except_upd: "fin_except f rest \<Longrightarrow> fin_except (f(t := p)) rest"
  unfolding fin_except_def by (rule finite_subset [of _ "insert t {t. f t \<noteq> rest}"]) auto

lemma fin_except_finite: "fin_except f rest \<Longrightarrow> \<not> P rest \<Longrightarrow> finite {t. P (f t)}"
  unfolding fin_except_def by (rule finite_subset [of _ "{t. f t \<noteq> rest}"]) auto

lemma num_upd:
  assumes "fin_except f rest" "\<not> P rest"
  shows "num P (f(t := p)) = num P f - of_bool (P (f t)) + of_bool (P p)"
proof -
  let ?A = "{u. u \<noteq> t \<and> P (f u)}"
  have fin: "finite ?A" by (rule finite_subset [OF _ fin_except_finite [where P = P, OF assms]]) auto
  have "{u. P ((f(t := p)) u)} = (if P p then insert t ?A else ?A)" by auto
  moreover have "{u. P (f u)} = (if P (f t) then insert t ?A else ?A)" by auto
  ultimately show ?thesis using fin by (simp add: num_def)
qed

lemma num_nonneg [simp]: "0 \<le> num P f"
  by (simp add: num_def)

lemma num_pos: "fin_except f rest \<Longrightarrow> \<not> P rest \<Longrightarrow> P (f t) \<Longrightarrow> 1 \<le> num P f"
  using fin_except_finite [of f rest P] by (auto simp: num_def Suc_le_eq card_gt_0_iff)

lemma num_ex: "num P f \<noteq> 0 \<Longrightarrow> \<exists>t. P (f t)"
  by (auto simp: num_def card_eq_0_iff)

lemma num_unique:
  assumes "fin_except f rest" "\<not> P rest" "num P f \<le> 1" "P (f t)" "P (f u)"
  shows "t = u"
proof -
  have "card {t. P (f t)} \<le> 1" using assms(3) by (simp add: num_def)
  then show ?thesis
    using card_le_Suc0_iff_eq [OF fin_except_finite [where P = P, OF assms(1,2)]] assms(4,5) by auto
qed

lemma num_zero: "fin_except f rest \<Longrightarrow> \<not> P rest \<Longrightarrow> num P f = 0 \<Longrightarrow> \<not> P (f t)"
  using num_pos [of f rest P t] by auto

end
