(* ===== verification/Dispatch_Invariants.thy ===== *)
theory Dispatch_Invariants
  imports Dispatch_Protocol Thread_Counts
begin

text \<open>
  The invariant of the scheduling protocol: how \<open>schedule_state\<close>, the references in the global
  queue and the program counters agree, what the counters count, and who may still be running the
  actor once it is being released.
\<close>

text \<open>All but finitely many threads are outside of every call.\<close>

abbreviation fin_threads :: "(nat \<Rightarrow> pc) \<Rightarrow> bool" where
  "fin_threads f \<equiv> fin_except f Idle"

section \<open>Regions of the code\<close>

text \<open>Holding the reference while \<open>schedule_state\<close> is 1, and dispatching while it is 2.\<close>

fun queued :: "pc \<Rightarrow> bool" where
  "queued (SchedEnqueue r) = True"
| "queued DispState = True"
| "queued DispCas = True"
| "queued _ = False"

text \<open>Past the check of \<open>releasing\<close>: the thread may call \<open>on_message\<close>.\<close>

fun may_handle :: "pc \<Rightarrow> bool" where
  "may_handle DispRequested = True"
| "may_handle DispBatch = True"
| "may_handle (Loop k) = True"
| "may_handle (LoopReleasing k) = True"
| "may_handle (LoopTake k) = True"
| "may_handle (LoopCount k) = True"
| "may_handle (Handling k) = True"
| "may_handle _ = False"

fun active :: "pc \<Rightarrow> bool" where
  "active DispOwner = True"
| "active DispDepth = True"
| "active DispReleasing = True"
| "active FinReleasing = True"
| "active FinRequested = True"
| "active FinCount = True"
| "active FinRequeue = True"
| "active FinIdle = True"
| "active p = may_handle p"

text \<open>Between the increment and the decrement of \<open>dispatch_depth_\<close>.\<close>

fun entered :: "pc \<Rightarrow> bool" where
  "entered DispReleasing = True"
| "entered FinReleasing = True"
| "entered FinRequested = True"
| "entered FinCount = True"
| "entered FinRequeue = True"
| "entered FinIdle = True"
| "entered FinIdleRequested = True"
| "entered FinIdleReleasing = True"
| "entered FinIdleCount = True"
| "entered DispLeave = True"
| "entered DoomedLeave = True"
| "entered (Sched r) = (r = RLeave)"
| "entered (SchedCas r) = (r = RLeave)"
| "entered (SchedEnqueue r) = (r = RLeave)"
| "entered (Drain k) = (k = Doomed \<or> k = Finish)"
| "entered (DrainCount k) = (k = Doomed \<or> k = Finish)"
| "entered (DrainEnd k) = (k = Doomed \<or> k = Finish)"
| "entered (StateIdle k) = (k = Doomed \<or> k = Finish)"
| "entered p = may_handle p"

text \<open>Reached only once the actor is being released.\<close>

fun released :: "pc \<Rightarrow> bool" where
  "released (Drain k) = True"
| "released (DrainCount k) = True"
| "released (DrainEnd k) = True"
| "released (StateIdle k) = True"
| "released DoomedLeave = True"
| "released (Destroy k) = True"
| "released (OnDestroy k) = True"
| "released (ClearOwner k) = True"
| "released KillOwner = True"
| "released KillRequest = True"
| "released KillDepth = True"
| "released _ = False"

text \<open>Certain to look at the mailbox or to schedule the queue before it is done.\<close>

fun will_schedule :: "pc \<Rightarrow> bool" where
  "will_schedule PushCount = True"
| "will_schedule PushInit = True"
| "will_schedule (Sched r) = True"
| "will_schedule (SchedCas r) = True"
| "will_schedule FinIdleRequested = True"
| "will_schedule FinIdleReleasing = True"
| "will_schedule FinIdleCount = True"
| "will_schedule SpawnCount = True"
| "will_schedule _ = False"

text \<open>On the way to \<open>on_destroy\<close> from \<open>kill\<close> or from a dispatcher that found the actor doomed.\<close>

fun safe_destroyer :: "pc \<Rightarrow> bool" where
  "safe_destroyer (Drain k) = (k = Kill)"
| "safe_destroyer (DrainCount k) = (k = Kill)"
| "safe_destroyer (DrainEnd k) = (k = Kill)"
| "safe_destroyer (Destroy k) = (k = Kill \<or> k = Doomed)"
| "safe_destroyer (OnDestroy k) = (k = Kill \<or> k = Doomed)"
| "safe_destroyer _ = False"

text \<open>Reached only after initialisation, and left by the spawner with it.\<close>

fun needs_init :: "pc \<Rightarrow> bool" where
  "needs_init (SchedCas r) = True"
| "needs_init p = (queued p \<or> active p)"

fun spawning :: "pc \<Rightarrow> bool" where
  "spawning SpawnInit = True"
| "spawning SpawnStore = True"
| "spawning SpawnErase = True"
| "spawning SpawnAccepting = True"
| "spawning SpawnReleasing = True"
| "spawning (Drain k) = (k = Spawn)"
| "spawning (DrainCount k) = (k = Spawn)"
| "spawning (DrainEnd k) = (k = Spawn)"
| "spawning (Destroy k) = (k = Spawn)"
| "spawning (OnDestroy k) = (k = Spawn)"
| "spawning (ClearOwner k) = (k = Spawn)"
| "spawning _ = False"

text \<open>
  Never reached under sequential consistency: the delayed store, and destroying at the sites that
  only drain.
\<close>

fun unreached :: "pc \<Rightarrow> bool" where
  "unreached DelayedCount = True"
| "unreached DelayedCas = True"
| "unreached DelayedStore = True"
| "unreached (Destroy k) = (k = Ownerless \<or> k = Finish)"
| "unreached (OnDestroy k) = (k = Ownerless \<or> k = Finish)"
| "unreached _ = False"

lemma may_handle_active: "may_handle p \<Longrightarrow> active p"
  by (cases p) auto

lemma may_handle_entered: "may_handle p \<Longrightarrow> entered p"
  by (cases p) auto

abbreviation is_loop_count :: "pc \<Rightarrow> bool" where
  "is_loop_count p \<equiv> (\<exists>k. p = LoopCount k)"

section \<open>The invariant\<close>

definition sched_inv :: "shared \<Rightarrow> (nat \<Rightarrow> pc) \<Rightarrow> bool" where
  "sched_inv s f \<longleftrightarrow>
     int (tokens s) + num queued f = of_bool (q_state s = 1) \<and>
     num active f = of_bool (q_state s = 2) \<and> q_state s \<le> 2"

definition count_inv :: "shared \<Rightarrow> (nat \<Rightarrow> pc) \<Rightarrow> bool" where
  "count_inv s f \<longleftrightarrow> q_count s = int (q_mail s) + num is_loop_count f - num (\<lambda>p. p = PushCount) f"

definition wakeup_inv :: "shared \<Rightarrow> (nat \<Rightarrow> pc) \<Rightarrow> bool" where
  "wakeup_inv s f \<longleftrightarrow> (q_initialized s \<and> q_mail s > 0 \<longrightarrow> q_state s \<noteq> 0 \<or> (\<exists>t. will_schedule (f t)))"

definition release_inv :: "shared \<Rightarrow> (nat \<Rightarrow> pc) \<Rightarrow> bool" where
  "release_inv s f \<longleftrightarrow>
     ((\<exists>t. released (f t)) \<or> \<not> q_owner s \<or> a_destroy_requested s \<longrightarrow> q_releasing s)"

definition handler_inv :: "shared \<Rightarrow> (nat \<Rightarrow> pc) \<Rightarrow> bool" where
  "handler_inv s f \<longleftrightarrow>
     a_depth s = num entered f \<and> num may_handle f \<le> 1 \<and>
     ((\<exists>t. safe_destroyer (f t)) \<longrightarrow> num may_handle f = 0) \<and>
     destroys s = of_bool (a_destroyed s)"

definition init_inv :: "shared \<Rightarrow> (nat \<Rightarrow> pc) \<Rightarrow> bool" where
  "init_inv s f \<longleftrightarrow>
     (\<not> q_initialized s \<longrightarrow> tokens s = 0 \<and> (\<forall>t. \<not> needs_init (f t))) \<and>
     (\<forall>t. spawning (f t) \<longrightarrow> t = 0 \<and> \<not> q_initialized s)"

definition proto_inv :: "protocol \<Rightarrow> bool" where
  "proto_inv p \<longleftrightarrow>
     fin_threads (pcs p) \<and> (\<forall>t. \<not> unreached (pcs p t)) \<and>
     release_inv (sh p) (pcs p) \<and> handler_inv (sh p) (pcs p) \<and> init_inv (sh p) (pcs p) \<and>
     (\<not> q_releasing (sh p) \<longrightarrow>
        sched_inv (sh p) (pcs p) \<and> count_inv (sh p) (pcs p) \<and> wakeup_inv (sh p) (pcs p))"

section \<open>Single steps\<close>

text \<open>
  What one atomic step of a thread at \<open>p\<close> does, in terms of that thread alone.
\<close>

lemma start_eq:
  "start c s = Some (p, s') \<longleftrightarrow>
     (c = CallPush \<and> registered s \<and> p = PushAccepting \<and> s' = s) \<or>
     (c = CallTake \<and> tokens s > 0 \<and> p = DispState \<and> s' = s\<lparr>tokens := tokens s - 1\<rparr>) \<or>
     (c = CallKill \<and> registered s \<and> p = KillAccepting \<and> s' = s\<lparr>registered := False\<rparr>)"
  by (cases c) auto

lemma return_to_eq: "return_to r = (if r = RLeave then DispLeave else Idle)"
  by (cases r) auto

lemma after_drain_eq: "after_drain k = (if k = Kill \<or> k = Spawn then Destroy k else StateIdle k)"
  by (cases k) auto

lemma after_state_idle_eq:
  "after_state_idle k = (if k = Doomed then DoomedLeave else if k = Finish then DispLeave else Idle)"
  by (cases k) auto

lemma after_clear_eq: "after_clear k = (if k = Kill then StateIdle Kill else Idle)"
  by (cases k) auto

lemmas step_simps = atomic_def start_eq return_to_eq after_drain_eq after_state_idle_eq after_clear_eq

lemmas step_splits = if_splits nat.splits choice.splits

lemma step_release:
  assumes "atomic w p c s = Some (p', s')"
    and "released p \<or> \<not> q_owner s \<or> a_destroy_requested s \<longrightarrow> q_releasing s"
  shows "(released p' \<or> \<not> q_owner s' \<or> a_destroy_requested s' \<longrightarrow> q_releasing s') \<and>
    (q_releasing s \<longrightarrow> q_releasing s')"
  using assms by (cases p) (auto simp: step_simps split: step_splits)

lemma step_depth:
  assumes "atomic w p c s = Some (p', s')"
  shows "a_depth s' = a_depth s - of_bool (entered p) + of_bool (entered p')"
  using assms by (cases p) (auto simp: step_simps split: step_splits)

lemma step_queue:
  assumes "atomic w p c s = Some (p', s')" and "\<not> q_releasing s'"
    and "released p \<or> \<not> q_owner s \<or> a_destroy_requested s \<longrightarrow> q_releasing s"
    and "queued p \<longrightarrow> q_state s = 1" and "active p \<longrightarrow> q_state s = 2"
  shows "int (tokens s') + of_bool (queued p') - of_bool (q_state s' = 1) =
      int (tokens s) + of_bool (queued p) - of_bool (q_state s = 1)"
    and "of_bool (active p') - of_bool (q_state s' = 2) =
      of_bool (active p) - (of_bool (q_state s = 2) :: int)"
    and "q_state s \<le> 2 \<Longrightarrow> q_state s' \<le> 2"
  using assms by (cases p; auto simp: step_simps of_nat_diff split: step_splits; fail)+

lemma step_count:
  assumes "atomic w p c s = Some (p', s')" and "\<not> q_releasing s'"
    and "released p \<longrightarrow> q_releasing s"
  shows "q_count s' = q_count s + int (q_mail s') - int (q_mail s) +
      of_bool (is_loop_count p') - of_bool (is_loop_count p) -
      of_bool (p' = PushCount) + of_bool (p = PushCount)"
  using assms by (cases p) (auto simp: step_simps split: step_splits)

text \<open>
  A step that leaves an idle queue with mail behind starts from a thread that will schedule, and
  that thread read a zero count.
\<close>

lemma step_wakeup:
  assumes "atomic w p c s = Some (p', s')" and "\<not> q_releasing s'"
    and "released p \<or> a_destroy_requested s \<longrightarrow> q_releasing s"
    and "q_initialized s'" and "q_mail s' > 0" and "q_state s' = 0" and "\<not> will_schedule p'"
    and "\<not> unreached p"
  shows "q_initialized s \<and> q_mail s > 0 \<and> q_state s = 0 \<and> (will_schedule p \<longrightarrow> q_count s = 0 \<and> p \<noteq> PushCount)"
  using assms by (cases p) (auto simp: step_simps split: step_splits)

lemma step_handle:
  assumes "atomic w p c s = Some (p', s')" and "may_handle p'" and "\<not> may_handle p"
  shows "active p \<and> \<not> q_releasing s \<and> s' = s"
  using assms by (cases p) (auto simp: step_simps split: step_splits)

lemma step_safe_destroyer:
  assumes "atomic w p c s = Some (p', s')" and "safe_destroyer p'" and "\<not> safe_destroyer p"
  shows "\<not> may_handle p' \<and> (p = KillDepth \<and> a_depth s = 0 \<or> p = DoomedLeave \<and> a_depth s = 1)"
  using assms by (cases p) (auto simp: step_simps split: step_splits)

lemma step_destroys:
  assumes "atomic w p c s = Some (p', s')"
  shows "(a_destroyed s' = a_destroyed s \<and> destroys s' = destroys s) \<or>
    (\<not> a_destroyed s \<and> a_destroyed s' \<and> destroys s' = destroys s + 1)"
  using assms by (cases p) (auto simp: step_simps split: step_splits)

lemma step_init:
  assumes "atomic False p c s = Some (p', s')" and "\<not> unreached p"
    and "\<not> q_initialized s \<longrightarrow> tokens s = 0 \<and> \<not> needs_init p"
  shows "(\<not> q_initialized s' \<longrightarrow> tokens s' = 0 \<and> \<not> needs_init p')"
    and "q_initialized s \<Longrightarrow> q_initialized s'"
    and "q_initialized s' \<Longrightarrow> \<not> q_initialized s \<Longrightarrow> p = SpawnStore \<and> p' = SpawnCount"
    and "spawning p' \<Longrightarrow> spawning p"
  using assms by (cases p; auto simp: step_simps split: step_splits; fail)+

lemma step_unreached:
  assumes "atomic False p c s = Some (p', s')" and "\<not> unreached p"
  shows "\<not> unreached p'"
  using assms by (cases p) (auto simp: step_simps split: step_splits)

section \<open>Every step keeps the invariant\<close>

lemma release_inv_step:
  assumes "atomic w (f t) c s = Some (p, s')" and "release_inv s f"
  shows "release_inv s' (f(t := p)) \<and> (q_releasing s \<longrightarrow> q_releasing s')"
  using step_release [OF assms(1)] assms(2) unfolding release_inv_def by (metis fun_upd_apply)

lemma sched_inv_step:
  assumes "atomic w (f t) c s = Some (p, s')" and "release_inv s f" and "fin_threads f"
    and "sched_inv s f" and "\<not> q_releasing s'"
  shows "sched_inv s' (f(t := p))"
proof -
  have r: "released (f t) \<or> \<not> q_owner s \<or> a_destroy_requested s \<longrightarrow> q_releasing s"
    using assms(2) unfolding release_inv_def by blast
  have q: "queued (f t) \<longrightarrow> q_state s = 1"
    using num_pos [OF assms(3), of queued t] assms(4) by (auto simp: sched_inv_def of_bool_def split: if_splits)
  have a: "active (f t) \<longrightarrow> q_state s = 2"
    using num_pos [OF assms(3), of active t] assms(4) by (auto simp: sched_inv_def of_bool_def split: if_splits)
  show ?thesis
    using step_queue [OF assms(1,5) r q a] assms(4)
    by (simp add: sched_inv_def num_upd [OF assms(3)])
qed

lemma count_inv_step:
  assumes "atomic w (f t) c s = Some (p, s')" and "release_inv s f" and "fin_threads f"
    and "count_inv s f" and "\<not> q_releasing s'"
  shows "count_inv s' (f(t := p))"
proof -
  have "released (f t) \<longrightarrow> q_releasing s" using assms(2) unfolding release_inv_def by blast
  from step_count [OF assms(1,5) this] assms(4) show ?thesis
    unfolding count_inv_def by (simp add: num_upd [OF assms(3)])
qed

lemma wakeup_inv_step:
  assumes "atomic w (f t) c s = Some (p, s')" and "release_inv s f" and "count_inv s f"
    and "wakeup_inv s f" and "\<not> q_releasing s'" and "\<not> unreached (f t)"
  shows "wakeup_inv s' (f(t := p))"
proof (rule ccontr)
  assume "\<not> wakeup_inv s' (f(t := p))"
  then have *: "q_initialized s'" "q_mail s' > 0" "q_state s' = 0" "\<not> will_schedule p"
    and others: "\<And>u. u \<noteq> t \<Longrightarrow> \<not> will_schedule (f u)"
    unfolding wakeup_inv_def by (auto split: if_splits)
  have "released (f t) \<or> a_destroy_requested s \<longrightarrow> q_releasing s"
    using assms(2) unfolding release_inv_def by blast
  note before = step_wakeup [OF assms(1,5) this * assms(6)]
  then have "will_schedule (f t)" using assms(4) others unfolding wakeup_inv_def by (metis neq0_conv)
  with before have "q_count s = 0" "f t \<noteq> PushCount" "q_mail s > 0" by auto
  then have "num (\<lambda>p. p = PushCount) f \<noteq> 0"
    using assms(3) num_nonneg [of is_loop_count f] unfolding count_inv_def by linarith
  then obtain u where "f u = PushCount" using num_ex [of "\<lambda>p. p = PushCount" f] by blast
  with others \<open>f t \<noteq> PushCount\<close> show False by (metis will_schedule.simps(1))
qed

lemma handler_inv_step:
  assumes "atomic w (f t) c s = Some (p, s')" and "release_inv s f" and "fin_threads f"
    and "handler_inv s f" and "\<not> q_releasing s \<longrightarrow> sched_inv s f"
  shows "handler_inv s' (f(t := p))"
proof -
  note up = num_upd [OF assms(3)]
  note h = assms(4) [unfolded handler_inv_def]
  have depth: "a_depth s' = num entered (f(t := p))"
    using step_depth [OF assms(1)] h by (simp add: up)
  have enter: "num may_handle f = 0" if "may_handle p" "\<not> may_handle (f t)"
  proof (rule ccontr)
    assume "num may_handle f \<noteq> 0"
    then obtain u where "may_handle (f u)" using num_ex by blast
    moreover have "active (f t)" "num active f \<le> 1"
      using step_handle [OF assms(1) that] assms(5) by (auto simp: sched_inv_def)
    ultimately have "u = t" using num_unique [OF assms(3), of active] may_handle_active by auto
    with \<open>may_handle (f u)\<close> that(2) show False by simp
  qed
  have le: "num may_handle (f(t := p)) \<le> 1"
    using h enter num_pos [OF assms(3), of may_handle t] by (auto simp: up of_bool_def)
  have safe: "num may_handle (f(t := p)) = 0" if "safe_destroyer ((f(t := p)) u)" for u
  proof (cases "\<exists>v. safe_destroyer (f v)")
    case True
    then obtain v where v: "safe_destroyer (f v)" by blast
    then have "released (f v)" by (cases "f v") auto
    then have "q_releasing s" using assms(2) unfolding release_inv_def by blast
    then have "\<not> (may_handle p \<and> \<not> may_handle (f t))" using step_handle [OF assms(1)] by blast
    moreover have "num may_handle f = 0" using h v by blast
    ultimately show ?thesis using num_zero [OF assms(3), of may_handle t] by (simp add: up)
  next
    case False
    with that have p: "safe_destroyer p" "\<not> safe_destroyer (f t)" by (auto split: if_splits)
    note sd = step_safe_destroyer [OF assms(1) p]
    have "\<not> may_handle (f v)" if "v \<noteq> t" for v
    proof
      assume "may_handle (f v)"
      then have v: "entered (f v)" by (rule may_handle_entered)
      from sd show False
      proof (elim conjE disjE)
        assume "a_depth s = 0"
        with h v num_zero [OF assms(3), of entered v] show False by simp
      next
        assume "f t = DoomedLeave" "a_depth s = 1"
        with h v that num_unique [OF assms(3), of entered t v] show False by simp
      qed
    qed
    with sd have "{v. may_handle ((f(t := p)) v)} = {}" by auto
    then show ?thesis unfolding num_def by simp
  qed
  have "(\<exists>u. safe_destroyer ((f(t := p)) u)) \<longrightarrow> num may_handle (f(t := p)) = 0" using safe by blast
  moreover have "destroys s' = of_bool (a_destroyed s')" using step_destroys [OF assms(1)] h by auto
  ultimately show ?thesis using depth le unfolding handler_inv_def by blast
qed

lemma init_inv_step:
  assumes "atomic False (f t) c s = Some (p, s')" and "init_inv s f" and "\<not> unreached (f t)"
  shows "init_inv s' (f(t := p))"
proof -
  have pre: "\<not> q_initialized s \<longrightarrow> tokens s = 0 \<and> \<not> needs_init (f t)"
    using assms(2) unfolding init_inv_def by blast
  note st = step_init [OF assms(1,3) pre]
  have "u = 0 \<and> \<not> q_initialized s'" if "spawning ((f(t := p)) u)" for u
  proof -
    have u: "spawning (f u)" using that st(4) by (auto split: if_splits)
    then have "u = 0" "\<not> q_initialized s" using assms(2) unfolding init_inv_def by blast+
    moreover have "\<not> q_initialized s'"
    proof
      assume "q_initialized s'"
      then have *: "f t = SpawnStore" "p = SpawnCount" using st(3) \<open>\<not> q_initialized s\<close> by auto
      then have "t = 0" using assms(2) unfolding init_inv_def by (metis spawning.simps(2))
      with \<open>u = 0\<close> that * show False by simp
    qed
    ultimately show ?thesis by blast
  qed
  moreover have "\<not> q_initialized s' \<longrightarrow> tokens s' = 0 \<and> (\<forall>u. \<not> needs_init ((f(t := p)) u))"
    using st(1,2) assms(2) unfolding init_inv_def by auto
  ultimately show ?thesis unfolding init_inv_def by blast
qed

lemma proto_inv_step:
  assumes "proto_inv s" and "proto_step False s s'"
  shows "proto_inv s'"
proof -
  obtain t c p sh' where a: "atomic False (pcs s t) c (sh s) = Some (p, sh')"
    and s': "s' = \<lparr>sh = sh', pcs = (pcs s)(t := p)\<rparr>"
    using assms(2) by (auto elim!: proto_stepE simp: thread_step_def split: option.splits)
  note i = assms(1) [unfolded proto_inv_def]
  have "\<not> unreached p" using step_unreached [OF a] i by blast
  moreover have "release_inv sh' ((pcs s)(t := p)) \<and> (q_releasing (sh s) \<longrightarrow> q_releasing sh')"
    by (rule release_inv_step [where f = "pcs s" and t = t, OF a]) (use i in blast)
  moreover have "handler_inv sh' ((pcs s)(t := p))"
    by (rule handler_inv_step [where f = "pcs s" and t = t, OF a]) (use i in blast)+
  moreover have "init_inv sh' ((pcs s)(t := p))"
    by (rule init_inv_step [where f = "pcs s" and t = t, OF a]) (use i in blast)+
  moreover have "sched_inv sh' ((pcs s)(t := p))" "count_inv sh' ((pcs s)(t := p))"
      "wakeup_inv sh' ((pcs s)(t := p))"
    if "\<not> q_releasing sh'" "\<not> q_releasing (sh s)"
    using sched_inv_step [where f = "pcs s" and t = t, OF a] count_inv_step [where f = "pcs s" and t = t, OF a]
      wakeup_inv_step [where f = "pcs s" and t = t, OF a] that i by blast+
  ultimately show ?thesis
    unfolding s' proto_inv_def using i fin_except_upd by auto
qed

lemma proto_inv_init: "proto_inv proto_init"
proof -
  let ?f = "(\<lambda>t. Idle)(0 := SpawnInit) :: nat \<Rightarrow> pc"
  have fin: "fin_threads ?f" by (rule fin_except_upd) (simp add: fin_except_def)
  have zero: "num P ?f = 0" if "\<not> P Idle" "\<not> P SpawnInit" for P
    using that by (auto simp: num_def)
  have "\<not> (\<exists>t. released (?f t))" "\<not> (\<exists>t. safe_destroyer (?f t))" "\<forall>t. \<not> unreached (?f t)" by auto
  with fin show ?thesis
    by (simp add: proto_inv_def proto_init_def release_inv_def handler_inv_def sched_inv_def count_inv_def
        wakeup_inv_def init_inv_def zero)
qed

interpretation proto: invariant_system "\<lambda>s. s = proto_init" "proto_step False" proto_inv
  by unfold_locales (auto intro: proto_inv_init proto_inv_step)

end
