(* ===== verification/Dispatch_Races.thy ===== *)
theory Dispatch_Races
  imports Dispatch_Invariants
begin

text \<open>
  What the scheduling protocol guarantees under every interleaving, and the interleavings in which
  it fails: \<open>on_destroy\<close> can run while \<open>on_message\<close> is running, a message can be left in a released
  mailbox for ever, and a delayed store in \<open>spawn\<close> can lose a wake-up.
\<close>

section \<open>Runs\<close>

definition run_from_init :: "bool \<Rightarrow> (nat \<times> choice) list \<Rightarrow> protocol" where
  "run_from_init weak xs = (case run_schedule weak xs proto_init of None \<Rightarrow> proto_init | Some s \<Rightarrow> s)"

lemma run_from_init_reach: "proto_reach weak (run_from_init weak xs)"
  unfolding run_from_init_def
  by (auto split: option.split intro: run_schedule_reach reach_init)

definition spawn_run :: "(nat \<times> choice) list" where
  "spawn_run = [(0, InitSucceeds), (0, Go), (0, Go)]"

text \<open>Thread 1 delivers a message to an idle queue; thread \<open>w\<close> takes it up to \<open>on_message\<close>.\<close>

definition push_run :: "(nat \<times> choice) list" where
  "push_run = (1, CallPush) # replicate 7 (1, Go)"

definition worker_run :: "nat \<Rightarrow> (nat \<times> choice) list" where
  "worker_run w = (w, CallTake) # replicate 6 (w, Go) @ (w, Weight (-1)) # replicate 4 (w, Go)"

text \<open>
  Worker 2 handles a message while a second one arrives, puts the queue back and decrements
  \<open>dispatch_depth_\<close> to zero; worker 3 enters \<open>on_message\<close> with the second one; thread 4 kills the
  actor; worker 2 now loads \<open>destroy_requested_\<close> and calls \<open>on_destroy\<close>.
\<close>

definition race_run :: "(nat \<times> choice) list" where
  "race_run = spawn_run @ push_run @ worker_run 2 @ ((1, CallPush) # replicate 6 (1, Go)) @
     replicate 8 (2, Go) @ worker_run 3 @ ((4, CallKill) # replicate 5 (4, Go)) @ replicate 2 (2, Go)"

text \<open>
  Thread 5 has passed the check of \<open>accepting\<close> when thread 4 kills the actor; it enqueues after
  worker 2 has drained the mailbox and before worker 2 resets \<open>schedule_state\<close>.
\<close>

definition stranded_run :: "(nat \<times> choice) list" where
  "stranded_run = spawn_run @ push_run @ ((5, CallPush) # replicate 1 (5, Go)) @
     ((2, CallTake) # replicate 4 (2, Go)) @ ((4, CallKill) # replicate 7 (4, Go)) @
     replicate 4 (2, Go) @ replicate 5 (5, Go) @ replicate 6 (2, Go)"

definition delayed_run :: "(nat \<times> choice) list" where
  "delayed_run = [(0, InitSucceeds), (0, Delay), (0, Go)] @ ((1, CallPush) # replicate 4 (1, Go)) @ [(0, Go)]"

lemma run_schedule_others:
  "run_schedule weak xs s = Some s' \<Longrightarrow> t \<notin> fst ` set xs \<Longrightarrow> pcs s' t = pcs s t"
proof (induction weak xs s rule: run_schedule.induct)
  case (2 weak u c xs s)
  then show ?case by (auto simp: thread_step_def split: option.splits)
qed simp

lemma run_from_init_idle:
  assumes "list_all (\<lambda>x. fst x < n) xs" and "0 < n"
    and "list_all (\<lambda>t. pcs (run_from_init weak xs) t = Idle) [0..<n]"
  shows "pcs (run_from_init weak xs) t = Idle"
proof (cases "t < n")
  case False
  then have "t \<notin> fst ` set xs" "t \<noteq> 0" using assms(1,2) by (auto simp: list_all_iff)
  then show ?thesis
    using run_schedule_others [of weak xs proto_init _ t]
    by (auto simp: run_from_init_def proto_init_def split: option.split)
qed (use assms in \<open>simp add: list_all_iff\<close>)

lemma handling_state:
  "pcs (run_from_init False (spawn_run @ push_run @ worker_run 2)) 2 = Handling 0"
  by code_simp

lemma pushed_state:
  "list_all (\<lambda>t. pcs (run_from_init False (spawn_run @ push_run)) t = Idle) [0..<2]"
  "q_initialized (sh (run_from_init False (spawn_run @ push_run)))"
  "\<not> q_releasing (sh (run_from_init False (spawn_run @ push_run)))"
  "q_mail (sh (run_from_init False (spawn_run @ push_run))) > 0"
  "list_all (\<lambda>x. fst x < 2) (spawn_run @ push_run)"
  by code_simp+

lemma race_state:
  "pcs (run_from_init False race_run) 2 = OnDestroy Leave" "pcs (run_from_init False race_run) 3 = Handling 0"
  by code_simp+

lemma stranded_state:
  "list_all (\<lambda>t. pcs (run_from_init False stranded_run) t = Idle) [0..<6]"
  "q_mail (sh (run_from_init False stranded_run)) = 1"
  "tokens (sh (run_from_init False stranded_run)) = 0"
  "\<not> registered (sh (run_from_init False stranded_run))"
  "list_all (\<lambda>x. fst x < 6) stranded_run"
  by code_simp+

lemma delayed_state:
  "list_all (\<lambda>t. pcs (run_from_init True delayed_run) t = Idle) [0..<2]"
  "q_mail (sh (run_from_init True delayed_run)) = 1"
  "tokens (sh (run_from_init True delayed_run)) = 0"
  "q_initialized (sh (run_from_init True delayed_run))"
  "\<not> q_releasing (sh (run_from_init True delayed_run))"
  "list_all (\<lambda>x. fst x < 2) delayed_run"
  by code_simp+

section \<open>Properties\<close>

text \<open>
  C1.  An actor is single-threaded and loses no wake-up under every interleaving of the atomic
  operations of producers, workers, killers and the spawner: at most one thread is past the check
  that admits it to \<open>on_message\<close>; \<open>on_destroy\<close> is called at most once; and when no thread is inside a
  call, an initialised queue that is not being released and has mail is in the global queue exactly
  once, with \<open>schedule_state\<close> 1 and an exact \<open>mailbox_count\<close>.
\<close>

theorem dispatch_protocol_safe:
  assumes "proto_reach False s"
  shows "(\<forall>t u. may_handle (pcs s t) \<and> may_handle (pcs s u) \<longrightarrow> t = u) \<and> destroys (sh s) \<le> 1 \<and>
    ((\<forall>t. pcs s t = Idle) \<and> q_initialized (sh s) \<and> \<not> q_releasing (sh s) \<and> q_mail (sh s) > 0 \<longrightarrow>
       tokens (sh s) = 1 \<and> q_state (sh s) = 1 \<and> q_count (sh s) = int (q_mail (sh s)))"
proof -
  note i = proto.reach_inv [OF assms, unfolded proto_inv_def]
  have "t = u" if "may_handle (pcs s t)" "may_handle (pcs s u)" for t u
    by (rule num_unique [of "pcs s" Idle may_handle]) (use i that in \<open>auto simp: handler_inv_def\<close>)
  moreover have "destroys (sh s) \<le> 1" using i by (simp add: handler_inv_def)
  moreover have "tokens (sh s) = 1 \<and> q_state (sh s) = 1 \<and> q_count (sh s) = int (q_mail (sh s))"
    if "\<forall>t. pcs s t = Idle" and *: "q_initialized (sh s)" "\<not> q_releasing (sh s)" "q_mail (sh s) > 0"
  proof -
    have zero: "num P (pcs s) = 0" if "\<not> P Idle" for P
      using that \<open>\<forall>t. pcs s t = Idle\<close> by (simp add: num_def)
    have "q_state (sh s) \<noteq> 0" using i * \<open>\<forall>t. pcs s t = Idle\<close> by (auto simp: wakeup_inv_def)
    with i * show ?thesis by (auto simp: sched_inv_def count_inv_def zero of_bool_def split: if_splits)
  qed
  ultimately show ?thesis by blast
qed

theorem dispatch_protocol_safe_witness:
  "tokens (sh (run_from_init False (spawn_run @ push_run))) = 1 \<and>
   q_state (sh (run_from_init False (spawn_run @ push_run))) = 1 \<and>
   destroys (sh (run_from_init False (spawn_run @ push_run))) \<le> 1"
  using dispatch_protocol_safe [OF run_from_init_reach, of "spawn_run @ push_run"]
    run_from_init_idle [OF pushed_state(5) _ pushed_state(1)] pushed_state(2-4) by simp

text \<open>
  Destroying excludes handling, but for one path: while a thread is inside \<open>on_message\<close>, no
  thread is inside \<open>on_destroy\<close> unless it called it from the epilogue of \<open>dispatch_queue\<close>.  Calls
  from \<open>kill\<close>, from a dispatcher that found the actor doomed before its first message, and from a
  failed \<open>spawn\<close> never overlap with \<open>on_message\<close>.
\<close>

theorem destroy_excludes_handling:
  assumes "proto_reach False s" and "pcs s u = Handling n"
  shows "\<forall>t k. pcs s t = OnDestroy k \<longrightarrow> k = Leave"
proof (intro allI impI)
  fix t k assume k: "pcs s t = OnDestroy k"
  note i = proto.reach_inv [OF assms(1), unfolded proto_inv_def]
  have "1 \<le> num may_handle (pcs s)"
    by (rule num_pos [where rest = Idle and t = u]) (use i assms(2) in auto)
  then have "\<not> safe_destroyer (pcs s t)" using i unfolding handler_inv_def by fastforce
  moreover have "needs_init (pcs s u)" using assms(2) by simp
  then have "\<not> spawning (pcs s t)" using i unfolding init_inv_def by blast
  moreover have "\<not> unreached (pcs s t)" using i by blast
  ultimately show "k = Leave" using k by (cases k) auto
qed

theorem destroy_excludes_handling_witness:
  "\<not> (\<exists>t. pcs (run_from_init False (spawn_run @ push_run @ worker_run 2)) t = OnDestroy Kill)"
  using destroy_excludes_handling [OF run_from_init_reach handling_state] by blast

text \<open>
  C31.  \<open>on_destroy\<close> can run during \<open>on_message\<close>: the epilogue of \<open>dispatch_queue\<close> decrements
  \<open>dispatch_depth_\<close> to zero and only then loads \<open>destroy_requested_\<close>; if another worker has entered
  the actor and it has been killed in between, the first worker destroys the actor under the
  second.
\<close>

theorem destroy_races_with_message:
  "\<exists>s t u n. proto_reach False s \<and> pcs s t = OnDestroy Leave \<and> pcs s u = Handling n \<and> t \<noteq> u"
  using run_from_init_reach [of False race_run] race_state
  by (intro exI [of _ "run_from_init False race_run"] exI [of _ 2] exI [of _ 3] exI [of _ 0]) simp

text \<open>
  C32.  A message can be stranded: a producer that passed the check of \<open>accepting\<close> before a \<open>kill\<close> can
  enqueue after the mailbox was drained and find \<open>schedule_state\<close> still 2.  Then no thread is in any
  call, no step on the queue is possible any more, and the message is neither delivered nor
  answered nor freed.
\<close>

theorem message_stranded_by_kill:
  "\<exists>s. proto_reach False s \<and> q_mail (sh s) = 1 \<and> (\<forall>t. pcs s t = Idle) \<and> (\<nexists>s'. proto_step False s s')"
proof -
  let ?s = "run_from_init False stranded_run"
  have idle: "pcs ?s t = Idle" for t
    by (rule run_from_init_idle [OF stranded_state(5) _ stranded_state(1)]) simp
  have "thread_step False t c ?s = None" for t c
    using idle stranded_state by (cases c) (simp_all add: thread_step_def atomic_def)
  then have "\<nexists>s'. proto_step False ?s s'" by (auto elim!: proto_stepE)
  then show ?thesis
    using run_from_init_reach [of False stranded_run] stranded_state(2) idle
    by (intro exI [of _ ?s]) simp
qed

text \<open>
  C33.  A wake-up can be lost when the store of \<open>initialized\<close> in \<open>spawn\<close> takes effect after the load of
  \<open>mailbox_count\<close> that follows it, which a release store and an acquire load allow: a message sent at
  that moment waits in the mailbox of an initialised actor that is in no queue, while no thread is in any call, so
  that no worker can take it.  It waits until another message for this actor schedules the queue.
\<close>

theorem delayed_store_loses_wakeup:
  "\<exists>s. proto_reach True s \<and> (\<forall>t. pcs s t = Idle) \<and> q_initialized (sh s) \<and> \<not> q_releasing (sh s) \<and>
     q_mail (sh s) = 1 \<and> tokens (sh s) = 0 \<and> (\<forall>t. thread_step True t CallTake s = None)"
proof -
  let ?s = "run_from_init True delayed_run"
  have idle: "pcs ?s t = Idle" for t using run_from_init_idle [OF delayed_state(6) _ delayed_state(1)] by simp
  then have "thread_step True t CallTake ?s = None" for t
    using delayed_state by (simp add: thread_step_def atomic_def)
  with idle show ?thesis
    using run_from_init_reach [of True delayed_run] delayed_state(2-5) by (intro exI [of _ ?s]) simp
qed

end
