(* ===== verification/Worker_Loop.thy ===== *)
theory Worker_Loop
  imports Skynet_Prelude
begin

text \<open>
  Idle workers and \<open>shutdown\<close> (\<open>src/src/skynet.cpp\<close>: \<open>worker_loop\<close>, \<open>enqueue_global\<close>, \<open>shutdown\<close>) at the
  grain of their atomic operations: how workers spin, go to sleep on \<open>global_queue_epoch_\<close> and are
  woken.  Threads below \<open>n\<close> are the workers, the others call \<open>enqueue_global\<close> and \<open>shutdown\<close>; calls made
  by a worker inside \<open>dispatch_queue\<close> run as other threads.  Operations are sequentially consistent.

  \<open>wait\<close> compares and blocks; a blocked thread compares again once it is notified.  \<open>notify_one\<close>
  wakes some blocked thread if there is one.
\<close>

section \<open>State\<close>

datatype wpc =
    Top                       \<comment> \<open>\<open>while (running_)\<close>, \<open>queue\<close> null\<close>
  | TopHeld                   \<comment> \<open>\<open>while (running_)\<close>, \<open>queue\<close> not null\<close>
  | TryTop
  | GotQueue | GotNull        \<comment> \<open>dequeued, \<open>global_queue_count_\<close> not yet decremented\<close>
  | Dispatch
  | Spin nat | SpinTry nat | SpinGotQueue | SpinGotNull
  | LoadEpoch | IncSleeping nat | TryLast nat | LastGotQueue | LastGotNull
  | WaitCheck nat | Blocked nat | DecSleeping bool
  | Exited
  | Outside                   \<comment> \<open>not in any call\<close>
  | EnqQueue | EnqCount | EnqSleeping int | EnqEpoch | EnqNotify
  | ShutEnq nat | ShutCount nat | ShutEpoch | ShutNotify

record wshared =
  w_queues :: nat             \<comment> \<open>queues in \<open>global_queue_\<close>\<close>
  w_nulls :: nat              \<comment> \<open>null pointers in \<open>global_queue_\<close>\<close>
  w_count :: int              \<comment> \<open>\<open>global_queue_count_\<close>\<close>
  w_epoch :: nat
  w_sleeping :: int
  w_running :: bool
  w_took :: "nat set"         \<comment> \<open>history: threads that dequeued a null pointer\<close>
  w_posted :: nat             \<comment> \<open>history: null pointers enqueued\<close>
  w_bumped :: "nat option"    \<comment> \<open>history: the epoch set by \<open>shutdown\<close>\<close>
  w_notified :: bool          \<comment> \<open>history: \<open>shutdown\<close> has called \<open>notify_all\<close>\<close>

datatype wchoice = PickQueue | PickNull | PickNone | CallEnqueue | CallShutdown | Wake nat | Run

section \<open>Steps\<close>

text \<open>\<open>try_dequeue\<close>: a queue, a null pointer, or failure, which requires an empty queue.\<close>

definition take_global ::
    "nat \<Rightarrow> wchoice \<Rightarrow> wpc \<Rightarrow> wpc \<Rightarrow> wpc \<Rightarrow> wshared \<Rightarrow> (wpc \<times> wshared) option" where
  "take_global t c on_queue on_null on_fail s =
     (case c of
        PickQueue \<Rightarrow> if w_queues s > 0 then Some (on_queue, s\<lparr>w_queues := w_queues s - 1\<rparr>) else None
      | PickNull \<Rightarrow>
          if w_nulls s > 0 then Some (on_null, s\<lparr>w_nulls := w_nulls s - 1, w_took := insert t (w_took s)\<rparr>) else None
      | PickNone \<Rightarrow> if w_queues s = 0 \<and> w_nulls s = 0 then Some (on_fail, s) else None
      | _ \<Rightarrow> None)"

definition less_count :: "wshared \<Rightarrow> wshared" where
  "less_count s = s\<lparr>w_count := w_count s - 1\<rparr>"

fun worker_step :: "nat \<Rightarrow> nat \<Rightarrow> wpc \<Rightarrow> wchoice \<Rightarrow> wshared \<Rightarrow> (wpc \<times> wshared) option" where
  "worker_step spin t Top c s = Some (if w_running s then TryTop else Exited, s)"
| "worker_step spin t TopHeld c s = Some (if w_running s then Dispatch else Exited, s)"
| "worker_step spin t TryTop c s = take_global t c GotQueue GotNull (Spin spin) s"
| "worker_step spin t GotQueue c s = Some (Dispatch, less_count s)"
| "worker_step spin t GotNull c s = Some (Top, less_count s)"
| "worker_step spin t Dispatch c s = Some (Top, s)"
| "worker_step spin t (Spin k) c s =
     Some (case k of 0 \<Rightarrow> LoadEpoch | Suc j \<Rightarrow> if w_running s then SpinTry j else LoadEpoch, s)"
| "worker_step spin t (SpinTry k) c s = take_global t c SpinGotQueue SpinGotNull (Spin k) s"
| "worker_step spin t SpinGotQueue c s = Some (Dispatch, less_count s)"
| "worker_step spin t SpinGotNull c s = Some (LoadEpoch, less_count s)"
| "worker_step spin t LoadEpoch c s = Some (IncSleeping (w_epoch s), s)"
| "worker_step spin t (IncSleeping e) c s = Some (TryLast e, s\<lparr>w_sleeping := w_sleeping s + 1\<rparr>)"
| "worker_step spin t (TryLast e) c s = take_global t c LastGotQueue LastGotNull (WaitCheck e) s"
| "worker_step spin t LastGotQueue c s = Some (DecSleeping True, less_count s)"
| "worker_step spin t LastGotNull c s = Some (DecSleeping False, less_count s)"
| "worker_step spin t (WaitCheck e) c s = Some (if w_epoch s = e then Blocked e else DecSleeping False, s)"
| "worker_step spin t (DecSleeping held) c s =
     Some (if held then TopHeld else Top, s\<lparr>w_sleeping := w_sleeping s - 1\<rparr>)"
| "worker_step spin t _ c s = None"

text \<open>\<open>enqueue_global\<close>, up to its notification.\<close>

fun enqueue_step :: "wpc \<Rightarrow> wshared \<Rightarrow> (wpc \<times> wshared) option" where
  "enqueue_step EnqQueue s = Some (EnqCount, s\<lparr>w_queues := w_queues s + 1\<rparr>)"
| "enqueue_step EnqCount s = Some (EnqSleeping (w_count s + 1), s\<lparr>w_count := w_count s + 1\<rparr>)"
| "enqueue_step (EnqSleeping queued) s =
     Some (if w_sleeping s > 0 \<and> queued \<le> w_sleeping s then EnqEpoch else Outside, s)"
| "enqueue_step EnqEpoch s = Some (EnqNotify, s\<lparr>w_epoch := w_epoch s + 1\<rparr>)"
| "enqueue_step _ s = None"

text \<open>\<open>shutdown\<close>, up to its notification; \<open>k\<close> null pointers are still to be enqueued.\<close>

fun shutdown_step :: "wpc \<Rightarrow> wshared \<Rightarrow> (wpc \<times> wshared) option" where
  "shutdown_step (ShutEnq k) s =
     Some (case k of 0 \<Rightarrow> (ShutEpoch, s)
           | Suc j \<Rightarrow> (ShutCount j, s\<lparr>w_nulls := w_nulls s + 1, w_posted := w_posted s + 1\<rparr>))"
| "shutdown_step (ShutCount k) s = Some (ShutEnq k, s\<lparr>w_count := w_count s + 1\<rparr>)"
| "shutdown_step ShutEpoch s =
     Some (ShutNotify, s\<lparr>w_epoch := w_epoch s + 1, w_bumped := Some (w_epoch s + 1)\<rparr>)"
| "shutdown_step _ s = None"

fun outside_step :: "nat \<Rightarrow> wchoice \<Rightarrow> wshared \<Rightarrow> (wpc \<times> wshared) option" where
  "outside_step n CallEnqueue s = Some (EnqQueue, s)"
| "outside_step n CallShutdown s =
     Some (if w_running s then (ShutEnq n, s\<lparr>w_running := False\<rparr>) else (Outside, s))"
| "outside_step n _ s = None"

definition local_step ::
    "nat \<Rightarrow> nat \<Rightarrow> nat \<Rightarrow> wpc \<Rightarrow> wchoice \<Rightarrow> wshared \<Rightarrow> (wpc \<times> wshared) option" where
  "local_step n spin t p c s =
     (if p = Outside then outside_step n c s
      else case worker_step spin t p c s of
             Some r \<Rightarrow> Some r
           | None \<Rightarrow> (case enqueue_step p s of Some r \<Rightarrow> Some r | None \<Rightarrow> shutdown_step p s))"

record workers =
  wsh :: wshared
  wpcs :: "nat \<Rightarrow> wpc"

fun unblock :: "wpc \<Rightarrow> wpc" where
  "unblock (Blocked e) = WaitCheck e"
| "unblock p = p"

fun is_blocked :: "wpc \<Rightarrow> bool" where
  "is_blocked (Blocked e) = True"
| "is_blocked _ = False"

definition workers_step :: "nat \<Rightarrow> nat \<Rightarrow> nat \<Rightarrow> wchoice \<Rightarrow> workers \<Rightarrow> workers option" where
  "workers_step n spin t c w =
     (if wpcs w t = EnqNotify then
        (case c of
           Wake u \<Rightarrow>
             if is_blocked (wpcs w u) then Some (w\<lparr>wpcs := (wpcs w)(t := Outside, u := unblock (wpcs w u))\<rparr>) else None
         | Run \<Rightarrow> if (\<forall>u \<in> {..<n}. \<not> is_blocked (wpcs w u)) then Some (w\<lparr>wpcs := (wpcs w)(t := Outside)\<rparr>) else None
         | _ \<Rightarrow> None)
      else if wpcs w t = ShutNotify then
        Some \<lparr>wsh = (wsh w)\<lparr>w_notified := True\<rparr>, wpcs = (\<lambda>u. unblock (((wpcs w)(t := Outside)) u))\<rparr>
      else
        (case local_step n spin t (wpcs w t) c (wsh w) of
           None \<Rightarrow> None
         | Some (p, s) \<Rightarrow> Some \<lparr>wsh = s, wpcs = (wpcs w)(t := p)\<rparr>))"

definition workers_init :: "nat \<Rightarrow> workers" where
  "workers_init n = \<lparr>wsh = \<lparr>w_queues = 0, w_nulls = 0, w_count = 0, w_epoch = 0, w_sleeping = 0, w_running = True,
       w_took = {}, w_posted = 0, w_bumped = None, w_notified = False\<rparr>,
     wpcs = (\<lambda>t. if t < n then Top else Outside)\<rparr>"

inductive wstep :: "nat \<Rightarrow> nat \<Rightarrow> workers \<Rightarrow> workers \<Rightarrow> bool" for n spin where
  wstep: "workers_step n spin t c w = Some w' \<Longrightarrow> wstep n spin w w'"

text \<open>\<open>idle_spin\<close> for the given number of workers.\<close>

definition idle_spin :: "nat \<Rightarrow> nat" where
  "idle_spin n = (if n \<le> 8 then 256 else if n \<le> 16 then 64 else 0)"

abbreviation workers_reach :: "nat \<Rightarrow> workers \<Rightarrow> bool" where
  "workers_reach n \<equiv> reach (\<lambda>w. w = workers_init n) (wstep n (idle_spin n))"

fun run_workers :: "nat \<Rightarrow> nat \<Rightarrow> (nat \<times> wchoice) list \<Rightarrow> workers \<Rightarrow> workers option" where
  "run_workers n spin [] w = Some w"
| "run_workers n spin ((t, c) # xs) w =
     (case workers_step n spin t c w of None \<Rightarrow> None | Some w' \<Rightarrow> run_workers n spin xs w')"

lemma run_workers_reach:
  assumes "reach I (wstep n spin) w" and "run_workers n spin xs w = Some w'"
  shows "reach I (wstep n spin) w'"
  using assms
proof (induction n spin xs w rule: run_workers.induct)
  case (2 n spin t c xs w)
  then show ?case by (auto split: option.splits intro: reach_step wstep)
qed simp

end
