(* ===== verification/Worker_Shutdown.thy ===== *)
theory Worker_Shutdown
  imports Worker_Loop
begin

text \<open>
  Whether \<open>shutdown\<close> stops every worker: it does when workers do not spin, and need not when they do.
\<close>

section \<open>The invariant without spinning\<close>

fun shut_pc :: "wpc \<Rightarrow> bool" where
  "shut_pc (ShutEnq k) = True"
| "shut_pc (ShutCount k) = True"
| "shut_pc ShutEpoch = True"
| "shut_pc ShutNotify = True"
| "shut_pc _ = False"

fun outside_pc :: "wpc \<Rightarrow> bool" where
  "outside_pc Outside = True"
| "outside_pc EnqQueue = True"
| "outside_pc EnqCount = True"
| "outside_pc (EnqSleeping q) = True"
| "outside_pc EnqEpoch = True"
| "outside_pc EnqNotify = True"
| "outside_pc p = shut_pc p"

text \<open>After dequeuing a null pointer a worker is on its way out.\<close>

fun leaving_pc :: "wpc \<Rightarrow> bool" where
  "leaving_pc GotNull = True"
| "leaving_pc Top = True"
| "leaving_pc LastGotNull = True"
| "leaving_pc (DecSleeping held) = (\<not> held)"
| "leaving_pc Exited = True"
| "leaving_pc _ = False"

fun spin_pc :: "wpc \<Rightarrow> bool" where
  "spin_pc (Spin k) = (k \<noteq> 0)"
| "spin_pc (SpinTry k) = True"
| "spin_pc SpinGotQueue = True"
| "spin_pc SpinGotNull = True"
| "spin_pc _ = False"

text \<open>The epoch a worker is going to wait on, and whether it has given up looking.\<close>

fun epoch_of :: "wpc \<Rightarrow> nat option" where
  "epoch_of (IncSleeping e) = Some e"
| "epoch_of (TryLast e) = Some e"
| "epoch_of (WaitCheck e) = Some e"
| "epoch_of (Blocked e) = Some e"
| "epoch_of _ = None"

fun waiting_pc :: "wpc \<Rightarrow> bool" where
  "waiting_pc (WaitCheck e) = True"
| "waiting_pc (Blocked e) = True"
| "waiting_pc _ = False"

text \<open>How many null pointers \<open>shutdown\<close> has still to enqueue.\<close>

fun to_post :: "wpc \<Rightarrow> nat" where
  "to_post (ShutEnq k) = k"
| "to_post (ShutCount k) = k"
| "to_post _ = 0"

definition thread_ok :: "nat \<Rightarrow> wshared \<Rightarrow> nat \<Rightarrow> wpc \<Rightarrow> bool" where
  "thread_ok n s t p \<longleftrightarrow>
     (t < n \<or> outside_pc p) \<and> \<not> spin_pc p \<and>
     (t \<in> w_took s \<longrightarrow> leaving_pc p) \<and>
     (\<forall>e. epoch_of p = Some e \<longrightarrow> e \<le> w_epoch s) \<and>
     (\<forall>e b. epoch_of p = Some e \<and> waiting_pc p \<and> w_bumped s = Some b \<longrightarrow> e < b) \<and>
     (shut_pc p \<longrightarrow> \<not> w_running s \<and> \<not> w_notified s \<and> w_posted s + to_post p = n \<and>
        (w_bumped s = None) = (p \<noteq> ShutNotify)) \<and>
     (is_blocked p \<longrightarrow> \<not> w_notified s)"

definition shared_ok :: "nat \<Rightarrow> wshared \<Rightarrow> bool" where
  "shared_ok n s \<longleftrightarrow>
     w_took s \<subseteq> {..<n} \<and> w_nulls s + card (w_took s) = w_posted s \<and>
     (w_running s \<longrightarrow> w_posted s = 0 \<and> w_bumped s = None) \<and>
     (\<forall>b. w_bumped s = Some b \<longrightarrow> w_posted s = n \<and> b \<le> w_epoch s) \<and>
     (w_notified s \<longrightarrow> w_bumped s \<noteq> None)"

text \<open>What the steps of one thread leave intact for the others.\<close>

definition kept :: "wshared \<Rightarrow> nat \<Rightarrow> bool \<Rightarrow> wshared \<Rightarrow> bool" where
  "kept s t shutting s' \<longleftrightarrow>
     w_took s' \<subseteq> insert t (w_took s) \<and> w_epoch s \<le> w_epoch s' \<and>
     (w_running s' \<longrightarrow> w_running s) \<and> w_notified s' = w_notified s \<and>
     (w_bumped s' = w_bumped s \<or> w_bumped s = None \<and> w_bumped s' = Some (w_epoch s + 1) \<and> shutting) \<and>
     (w_posted s' = w_posted s \<or> shutting)"

lemma kept_thread:
  assumes th: "thread_ok n s u p" and k: "kept s t shutting s'" and "u \<noteq> t" and "shutting \<longrightarrow> \<not> shut_pc p"
  shows "thread_ok n s' u p"
proof -
  have epoch: "e \<le> w_epoch s" if "epoch_of p = Some e" for e using th that by (simp add: thread_ok_def)
  have "w_epoch s \<le> w_epoch s'" using k by (simp add: kept_def)
  then have "\<forall>e. epoch_of p = Some e \<longrightarrow> e \<le> w_epoch s'" using epoch order_trans by blast
  moreover have "\<forall>e b. epoch_of p = Some e \<and> waiting_pc p \<and> w_bumped s' = Some b \<longrightarrow> e < b"
  proof (cases "w_bumped s' = w_bumped s")
    case True
    with th show ?thesis by (simp add: thread_ok_def)
  next
    case False
    then have "w_bumped s' = Some (w_epoch s + 1)" using k by (simp add: kept_def)
    then show ?thesis using epoch by fastforce
  qed
  moreover have "shut_pc p \<longrightarrow> \<not> w_running s' \<and> \<not> w_notified s' \<and> w_posted s' + to_post p = n \<and>
      (w_bumped s' = None) = (p \<noteq> ShutNotify)"
    using th k assms(4) by (auto simp: thread_ok_def kept_def)
  moreover have "u \<in> w_took s' \<longrightarrow> leaving_pc p" using th k \<open>u \<noteq> t\<close> unfolding thread_ok_def kept_def by blast
  ultimately show ?thesis using th k unfolding thread_ok_def kept_def by blast
qed

lemma outside_step_eq:
  "outside_step n c s = Some (p, s') \<longleftrightarrow>
     (c = CallEnqueue \<and> p = EnqQueue \<and> s' = s) \<or>
     (c = CallShutdown \<and> (p, s') = (if w_running s then (ShutEnq n, s\<lparr>w_running := False\<rparr>) else (Outside, s)))"
  by (cases c) auto

lemmas wstep_simps = local_step_def take_global_def less_count_def outside_step_eq

lemmas wstep_splits = if_splits nat.splits wchoice.splits

text \<open>The fields that matter for \<open>shutdown\<close>, and how a step of one thread changes them.\<close>

definition unchanged :: "wshared \<Rightarrow> wshared \<Rightarrow> bool" where
  "unchanged s s' \<longleftrightarrow> w_nulls s' = w_nulls s \<and> w_epoch s' = w_epoch s \<and> w_running s' = w_running s \<and>
     w_took s' = w_took s \<and> w_posted s' = w_posted s \<and> w_bumped s' = w_bumped s \<and> w_notified s' = w_notified s"

fun taking_pc :: "wpc \<Rightarrow> bool" where
  "taking_pc TryTop = True"
| "taking_pc (SpinTry k) = True"
| "taking_pc (TryLast e) = True"
| "taking_pc _ = False"

lemma local_effect:
  assumes "local_step n spin t p c s = Some (p', s')"
  obtains (same) "unchanged s s'"
  | (took) "taking_pc p" "w_nulls s > 0" "s' = s\<lparr>w_nulls := w_nulls s - 1, w_took := insert t (w_took s)\<rparr>"
  | (stop) "p = Outside" "w_running s" "s' = s\<lparr>w_running := False\<rparr>"
  | (post) j where "p = ShutEnq (Suc j)" "s' = s\<lparr>w_nulls := w_nulls s + 1, w_posted := w_posted s + 1\<rparr>"
  | (epoch) "p = EnqEpoch" "s' = s\<lparr>w_epoch := w_epoch s + 1\<rparr>"
  | (bump) "p = ShutEpoch" "s' = s\<lparr>w_epoch := w_epoch s + 1, w_bumped := Some (w_epoch s + 1)\<rparr>"
proof -
  have "unchanged s s' \<or>
    (taking_pc p \<and> w_nulls s > 0 \<and> s' = s\<lparr>w_nulls := w_nulls s - 1, w_took := insert t (w_took s)\<rparr>) \<or>
    (p = Outside \<and> w_running s \<and> s' = s\<lparr>w_running := False\<rparr>) \<or>
    (\<exists>j. p = ShutEnq (Suc j) \<and> s' = s\<lparr>w_nulls := w_nulls s + 1, w_posted := w_posted s + 1\<rparr>) \<or>
    (p = EnqEpoch \<and> s' = s\<lparr>w_epoch := w_epoch s + 1\<rparr>) \<or>
    (p = ShutEpoch \<and> s' = s\<lparr>w_epoch := w_epoch s + 1, w_bumped := Some (w_epoch s + 1)\<rparr>)"
    using assms by (cases p) (auto simp: wstep_simps unchanged_def split: wstep_splits)
  then show ?thesis by (elim disjE exE conjE) (rule that; assumption)+
qed

lemma taking_not_leaving: "taking_pc p \<Longrightarrow> \<not> leaving_pc p \<and> \<not> outside_pc p"
  by (cases p) auto

lemma local_kept:
  assumes "local_step n 0 t p c s = Some (p', s')" and "thread_ok n s t p"
  shows "kept s t (shut_pc p) s'"
  using assms(1)
proof (cases rule: local_effect)
  case bump
  with assms(2) have "w_bumped s = None" by (simp add: thread_ok_def)
  with bump show ?thesis by (auto simp: kept_def)
qed (auto simp: kept_def unchanged_def)

lemma all_took:
  assumes "shared_ok n s" and "w_bumped s \<noteq> None" and "w_nulls s = 0" and "t < n"
  shows "t \<in> w_took s"
proof -
  have "card (w_took s) = n" "w_took s \<subseteq> {..<n}" using assms(1-3) by (auto simp: shared_ok_def)
  then have "w_took s = {..<n}" by (metis card_lessThan card_subset_eq finite_lessThan)
  with assms(4) show ?thesis by simp
qed

lemma local_thread:
  assumes "local_step n 0 t p c s = Some (p', s')" and "thread_ok n s t p" and "shared_ok n s"
  shows "thread_ok n s' t p'"
proof (cases p)
  case Top
  have "w_running s \<Longrightarrow> t \<notin> w_took s"
    using assms(3) finite_subset [of "w_took s" "{..<n}"] by (auto simp: shared_ok_def)
  with Top assms show ?thesis by (auto simp: wstep_simps thread_ok_def split: wstep_splits)
next
  case (TryLast e)
  then have t: "t < n" "t \<notin> w_took s" using assms(2) by (auto simp: thread_ok_def)
  then have "w_bumped s = None \<or> w_nulls s \<noteq> 0" using all_took [OF assms(3)] by blast
  with TryLast t assms(1,2) show ?thesis by (auto simp: wstep_simps thread_ok_def split: wstep_splits)
next
  case (WaitCheck e)
  with assms show ?thesis by (auto simp: wstep_simps thread_ok_def shared_ok_def split: wstep_splits)
qed (use assms in \<open>auto simp: wstep_simps thread_ok_def shared_ok_def split: wstep_splits\<close>)

lemma local_shared:
  assumes "local_step n 0 t p c s = Some (p', s')" and th: "thread_ok n s t p" and sh: "shared_ok n s"
  shows "shared_ok n s'"
  using assms(1)
proof (cases rule: local_effect)
  case same
  with sh show ?thesis by (simp add: shared_ok_def unchanged_def)
next
  case took
  then have t: "t < n" "t \<notin> w_took s" using th taking_not_leaving [of p] by (auto simp: thread_ok_def)
  have "finite (w_took s)" using sh by (auto simp: shared_ok_def intro: finite_subset)
  with t took sh show ?thesis by (auto simp: shared_ok_def)
next
  case (post j)
  with th have "w_bumped s = None" "\<not> w_running s" by (simp_all add: thread_ok_def)
  with post sh show ?thesis by (auto simp: shared_ok_def)
next
  case bump
  with th have "\<not> w_running s" "w_posted s = n" by (simp_all add: thread_ok_def)
  with bump sh show ?thesis by (auto simp: shared_ok_def)
qed (use sh in \<open>auto simp: shared_ok_def\<close>)

definition workers_inv :: "nat \<Rightarrow> workers \<Rightarrow> bool" where
  "workers_inv n w \<longleftrightarrow> shared_ok n (wsh w) \<and> (\<forall>t. thread_ok n (wsh w) t (wpcs w t)) \<and>
     (\<forall>t u. shut_pc (wpcs w t) \<and> shut_pc (wpcs w u) \<longrightarrow> t = u)"

lemma local_shut:
  assumes "local_step n 0 t p c s = Some (p', s')" and "shut_pc p'"
  shows "shut_pc p \<or> w_running s"
  using assms by (cases p) (auto simp: wstep_simps split: wstep_splits)

lemma unblock_pcs [simp]:
  "shut_pc (unblock p) = shut_pc p" "outside_pc (unblock p) = outside_pc p" "spin_pc (unblock p) = spin_pc p"
  "leaving_pc (unblock p) = leaving_pc p" "epoch_of (unblock p) = epoch_of p"
  "waiting_pc (unblock p) = waiting_pc p" "to_post (unblock p) = to_post p" "\<not> is_blocked (unblock p)"
  "(unblock p = ShutNotify) = (p = ShutNotify)"
  by (cases p; simp)+

lemma unblock_thread: "thread_ok n s t p \<Longrightarrow> thread_ok n s t (unblock p)"
  by (simp add: thread_ok_def)

lemma workers_inv_step:
  assumes "workers_inv n w" and "wstep n 0 w w'"
  shows "workers_inv n w'"
proof -
  obtain t c where st: "workers_step n 0 t c w = Some w'" using assms(2) by (auto elim: wstep.cases)
  have s: "shared_ok n (wsh w)" and th: "\<And>u. thread_ok n (wsh w) u (wpcs w u)"
    and un: "\<And>u v. shut_pc (wpcs w u) \<Longrightarrow> shut_pc (wpcs w v) \<Longrightarrow> u = v"
    using assms(1) unfolding workers_inv_def by blast+
  consider "wpcs w t = EnqNotify" | "wpcs w t = ShutNotify"
    | p s' where "local_step n 0 t (wpcs w t) c (wsh w) = Some (p, s')" "w' = \<lparr>wsh = s', wpcs = (wpcs w)(t := p)\<rparr>"
    using st by (auto simp: workers_step_def split: if_splits option.splits)
  then show ?thesis
  proof cases
    case 1
    have out: "thread_ok n (wsh w) t Outside" using th [of t, unfolded 1] by (simp add: thread_ok_def)
    from 1 st have sh: "wsh w' = wsh w"
      and pcs: "\<And>u. wpcs w' u = wpcs w u \<or> wpcs w' u = unblock (wpcs w u) \<or> u = t \<and> wpcs w' u = Outside"
      by (auto simp: workers_step_def split: if_splits wchoice.splits)
    have "thread_ok n (wsh w) u (wpcs w' u)" for u
      using pcs [of u] th [of u] out unblock_thread by metis
    moreover have "shut_pc (wpcs w' u) \<Longrightarrow> shut_pc (wpcs w u)" for u using pcs [of u] by auto
    ultimately show ?thesis unfolding workers_inv_def sh using s un by blast
  next
    case 2
    then have w': "wsh w' = (wsh w)\<lparr>w_notified := True\<rparr>"
      "wpcs w' = (\<lambda>u. unblock (((wpcs w)(t := Outside)) u))"
      using st by (auto simp: workers_step_def)
    have b: "w_bumped (wsh w) \<noteq> None" and t: "t \<notin> w_took (wsh w)"
      using th [of t, unfolded 2] by (auto simp: thread_ok_def)
    have no_shut: "\<not> shut_pc (wpcs w' u)" for u using un [of u t] 2 by (auto simp: w')
    have "thread_ok n (wsh w') u (wpcs w' u)" for u
    proof (cases "u = t")
      case True
      with t show ?thesis by (simp add: w' thread_ok_def)
    next
      case False
      with th [of u] no_shut [of u] show ?thesis by (auto simp: w' thread_ok_def)
    qed
    moreover have "shared_ok n (wsh w')" using s b by (simp add: w' shared_ok_def)
    ultimately show ?thesis unfolding workers_inv_def using no_shut by blast
  next
    case 3
    note k = local_kept [OF 3(1) th]
    have others: "\<not> shut_pc (wpcs w u)" if "u \<noteq> t" "shut_pc (wpcs w t)" for u using un that by blast
    have "thread_ok n s' u (((wpcs w)(t := p)) u)" for u
    proof (cases "u = t")
      case True
      with local_thread [OF 3(1) th s] show ?thesis by simp
    next
      case False
      with kept_thread [OF th k False] others show ?thesis by simp
    qed
    moreover have "u = v" if uv: "shut_pc (((wpcs w)(t := p)) u)" "shut_pc (((wpcs w)(t := p)) v)" for u v
    proof (cases "shut_pc p")
      case True
      have "shut_pc (wpcs w t) \<or> (\<forall>u. \<not> shut_pc (wpcs w u))"
        using local_shut [OF 3(1) True] th by (simp add: thread_ok_def) blast
      with others True uv show ?thesis by (metis fun_upd_apply)
    next
      case False
      with uv un show ?thesis by (metis fun_upd_apply)
    qed
    ultimately show ?thesis
      unfolding workers_inv_def 3(2) workers.simps using local_shared [OF 3(1) th s] by blast
  qed
qed

lemma workers_inv_init: "workers_inv n (workers_init n)"
  by (auto simp: workers_inv_def workers_init_def shared_ok_def thread_ok_def)

interpretation workers: invariant_system "\<lambda>w. w = workers_init n" "wstep n 0" "workers_inv n"
  by unfold_locales (auto intro: workers_inv_init workers_inv_step)

section \<open>Properties\<close>

text \<open>
  C36.  With more than sixteen workers, which never spin before sleeping, no worker is asleep once
  \<open>shutdown\<close> has called \<open>notify_all\<close>, whatever the interleaving with producers; and a null pointer has been
  enqueued for every worker, each taken by a worker at most once, so that the rest are still there to be
  dequeued.
\<close>

theorem shutdown_wakes_workers:
  assumes "workers_reach n w" and "n > 16" and "w_notified (wsh w)"
  shows "\<not> is_blocked (wpcs w t) \<and> \<not> w_running (wsh w) \<and> w_took (wsh w) \<subseteq> {..<n} \<and>
    w_nulls (wsh w) + card (w_took (wsh w)) = n"
proof -
  have spin: "idle_spin n = 0" using assms(2) by (simp add: idle_spin_def)
  have "workers_inv n w" using workers.reach_inv assms(1) unfolding spin by blast
  then have "thread_ok n (wsh w) t (wpcs w t)" and "shared_ok n (wsh w)" by (auto simp: workers_inv_def)
  with assms(3) show ?thesis by (auto simp: thread_ok_def shared_ok_def)
qed

text \<open>One worker of seventeen falls asleep, thread \<open>20\<close> calls \<open>shutdown\<close>.\<close>

definition sleep_then_shutdown :: "(nat \<times> wchoice) list" where
  "sleep_then_shutdown =
     [(0, Run), (0, PickNone), (0, Run), (0, Run), (0, Run), (0, PickNone), (0, Run), (20, CallShutdown)] @
     replicate 37 (20, Run)"

definition after_shutdown :: workers where
  "after_shutdown = the (run_workers 17 (idle_spin 17) sleep_then_shutdown (workers_init 17))"

lemma after_shutdown_run:
  "run_workers 17 (idle_spin 17) sleep_then_shutdown (workers_init 17) \<noteq> None"
  "w_notified (wsh after_shutdown)"
  by code_simp+

theorem shutdown_wakes_workers_witness:
  "\<not> is_blocked (wpcs after_shutdown 0) \<and> \<not> w_running (wsh after_shutdown) \<and>
   w_took (wsh after_shutdown) \<subseteq> {..<17} \<and>
   w_nulls (wsh after_shutdown) + card (w_took (wsh after_shutdown)) = 17"
proof (rule shutdown_wakes_workers)
  show "workers_reach 17 after_shutdown"
    by (rule run_workers_reach [OF reach_init])
      (use after_shutdown_run(1) in \<open>auto simp: after_shutdown_def\<close>)
qed (use after_shutdown_run in simp_all)

text \<open>
  C37.  With sixteen workers or fewer, which look at the global queue again before sleeping, \<open>shutdown\<close> can
  leave a worker asleep for ever: a worker that dequeues its null pointer in the spinning loop goes on to
  read the epoch already advanced by \<open>shutdown\<close>, finds the queue empty and waits.  \<open>running_\<close> is false,
  \<open>shutdown\<close> has returned, and the worker has no step left, so \<open>run\<close> never joins it.
\<close>

theorem shutdown_leaves_worker_asleep:
  "\<exists>w. workers_reach 1 w \<and> \<not> w_running (wsh w) \<and> w_notified (wsh w) \<and>
     is_blocked (wpcs w 0) \<and> wpcs w 1 = Outside \<and> w_nulls (wsh w) = 0 \<and>
     workers_step 1 (idle_spin 1) 0 c w = None"
proof -
  let ?xs = "[(0, Run), (0, PickNone), (0, Run), (1, CallShutdown), (1, Run), (0, PickNull), (0, Run),
    (1, Run), (1, Run), (1, Run), (1, Run), (0, Run), (0, Run), (0, PickNone), (0, Run)]"
  define w where "w = the (run_workers 1 256 ?xs (workers_init 1))"
  have run: "run_workers 1 256 ?xs (workers_init 1) \<noteq> None" by code_simp
  have "\<not> w_running (wsh w)" "w_notified (wsh w)" "w_nulls (wsh w) = 0" "wpcs w 0 = Blocked 1" "wpcs w 1 = Outside"
    unfolding w_def by code_simp+
  moreover from this have "workers_step 1 256 0 c w = None"
    by (simp add: workers_step_def local_step_def)
  moreover have "reach (\<lambda>w. w = workers_init 1) (wstep 1 256) w"
    by (rule run_workers_reach [OF reach_init])
      (use run in \<open>simp_all add: w_def option.collapse del: run_workers.simps One_nat_def\<close>)
  ultimately show ?thesis by (intro exI [of _ w]) (simp add: idle_spin_def)
qed

end
