(* ===== verification/Worker_Wakeup.thy ===== *)
theory Worker_Wakeup
  imports Worker_Shutdown Thread_Counts
begin

text \<open>
  No queue is left behind: while the process runs, not every worker is asleep with a queue waiting,
  unless a producer is still going to wake one.  What \<open>global_queue_count_\<close> and \<open>sleeping_workers_\<close> count.
\<close>

section \<open>The invariant\<close>

text \<open>Between the increment and the decrement of \<open>sleeping_workers_\<close>.\<close>

fun in_sleep :: "wpc \<Rightarrow> bool" where
  "in_sleep (TryLast e) = True"
| "in_sleep LastGotQueue = True"
| "in_sleep LastGotNull = True"
| "in_sleep (WaitCheck e) = True"
| "in_sleep (Blocked e) = True"
| "in_sleep (DecSleeping held) = True"
| "in_sleep _ = False"

text \<open>Dequeued but not yet uncounted; enqueued but not yet counted.\<close>

fun holding :: "wpc \<Rightarrow> bool" where
  "holding GotQueue = True"
| "holding GotNull = True"
| "holding SpinGotQueue = True"
| "holding SpinGotNull = True"
| "holding LastGotQueue = True"
| "holding LastGotNull = True"
| "holding _ = False"

fun uncounted :: "wpc \<Rightarrow> bool" where
  "uncounted EnqCount = True"
| "uncounted (ShutCount k) = True"
| "uncounted _ = False"

text \<open>Asleep, or sure to fall asleep if the epoch stays as it is.\<close>

fun idle_pc :: "nat \<Rightarrow> wpc \<Rightarrow> bool" where
  "idle_pc epoch (WaitCheck e) = (e = epoch)"
| "idle_pc epoch (Blocked e) = True"
| "idle_pc epoch _ = False"

text \<open>Asleep on an earlier epoch: it returns to the loop when it is notified.\<close>

fun stale_pc :: "nat \<Rightarrow> wpc \<Rightarrow> bool" where
  "stale_pc epoch (Blocked e) = (e < epoch)"
| "stale_pc epoch _ = False"

text \<open>Sure to advance the epoch and notify if all of the \<open>n\<close> workers sleep.\<close>

fun will_notify :: "nat \<Rightarrow> wpc \<Rightarrow> bool" where
  "will_notify n (EnqSleeping queued) = (queued \<le> int n)"
| "will_notify n EnqEpoch = True"
| "will_notify n _ = False"

definition role_ok :: "nat \<Rightarrow> wshared \<Rightarrow> nat \<Rightarrow> wpc \<Rightarrow> bool" where
  "role_ok n s t p \<longleftrightarrow>
     (t < n) = (\<not> outside_pc p) \<and> (\<forall>e. epoch_of p = Some e \<longrightarrow> e \<le> w_epoch s) \<and>
     (shut_pc p \<longrightarrow> \<not> w_running s)"

definition counters_ok :: "wshared \<Rightarrow> (nat \<Rightarrow> wpc) \<Rightarrow> bool" where
  "counters_ok s f \<longleftrightarrow>
     w_sleeping s = num in_sleep f \<and>
     w_count s = int (w_queues s) + int (w_nulls s) + num holding f - num uncounted f"

definition all_idle :: "nat \<Rightarrow> wshared \<Rightarrow> (nat \<Rightarrow> wpc) \<Rightarrow> bool" where
  "all_idle n s f \<longleftrightarrow> (\<forall>t < n. idle_pc (w_epoch s) (f t))"

definition wake_pending :: "nat \<Rightarrow> wshared \<Rightarrow> (nat \<Rightarrow> wpc) \<Rightarrow> bool" where
  "wake_pending n s f \<longleftrightarrow>
     (\<exists>u. will_notify n (f u)) \<or> (\<exists>u. f u = EnqNotify) \<and> (\<forall>t < n. stale_pc (w_epoch s) (f t))"

definition idle_inv :: "nat \<Rightarrow> workers \<Rightarrow> bool" where
  "idle_inv n w \<longleftrightarrow>
     fin_except (wpcs w) Outside \<and> (\<forall>t. role_ok n (wsh w) t (wpcs w t)) \<and>
     counters_ok (wsh w) (wpcs w) \<and>
     (w_running (wsh w) \<and> all_idle n (wsh w) (wpcs w) \<and> w_count (wsh w) \<ge> 1 \<longrightarrow>
        wake_pending n (wsh w) (wpcs w))"

section \<open>Single steps\<close>

lemma local_role:
  assumes "local_step n spin t p c s = Some (p', s')" and "role_ok n s t p"
  shows "role_ok n s' t p'"
  using assms by (cases p) (auto simp: wstep_simps role_ok_def split: wstep_splits)

lemma local_monotone:
  assumes "local_step n spin t p c s = Some (p', s')"
  shows "w_epoch s \<le> w_epoch s' \<and> (w_running s' \<longrightarrow> w_running s)"
  using assms by (cases p) (auto simp: wstep_simps split: wstep_splits)

lemma local_counters:
  assumes "local_step n spin t p c s = Some (p', s')"
  shows "w_sleeping s' = w_sleeping s - of_bool (in_sleep p) + of_bool (in_sleep p')"
    and "w_count s' - int (w_queues s') - int (w_nulls s') =
      w_count s - int (w_queues s) - int (w_nulls s) - of_bool (holding p) + of_bool (holding p') +
      of_bool (uncounted p) - of_bool (uncounted p')"
  using assms by (cases p; auto simp: wstep_simps of_nat_diff split: wstep_splits; fail)+

text \<open>
  The steps after which all workers may be idle and the counter positive: entering the wait with an
  empty queue, counting, reading the number of sleepers and advancing the epoch; every other one changes
  neither.
\<close>

lemma local_wakeup:
  assumes "local_step n spin t p c s = Some (p', s')" and "w_running s'" and "\<not> shut_pc p"
    and "outside_pc p' \<or> idle_pc (w_epoch s') p'"
  obtains (empty) e where "p = TryLast e" "w_queues s' = 0" "w_nulls s' = 0"
  | (count) "p = EnqCount" "p' = EnqSleeping (w_count s')" "s' = s\<lparr>w_count := w_count s + 1\<rparr>"
  | (decide) q where "p = EnqSleeping q" "s' = s"
      "p' = (if w_sleeping s > 0 \<and> q \<le> w_sleeping s then EnqEpoch else Outside)"
  | (bump) "p = EnqEpoch" "p' = EnqNotify" "s' = s\<lparr>w_epoch := w_epoch s + 1\<rparr>"
  | (sleep) e where "p = WaitCheck e" "p' = Blocked e" "e = w_epoch s" "s' = s"
  | (other) "w_epoch s' = w_epoch s" "w_count s' = w_count s" "outside_pc p" "\<not> will_notify n p"
      "p \<noteq> EnqNotify"
proof -
  have "(\<exists>e. p = TryLast e \<and> w_queues s' = 0 \<and> w_nulls s' = 0) \<or>
    (p = EnqCount \<and> p' = EnqSleeping (w_count s') \<and> s' = s\<lparr>w_count := w_count s + 1\<rparr>) \<or>
    (\<exists>q. p = EnqSleeping q \<and> s' = s \<and>
       p' = (if w_sleeping s > 0 \<and> q \<le> w_sleeping s then EnqEpoch else Outside)) \<or>
    (p = EnqEpoch \<and> p' = EnqNotify \<and> s' = s\<lparr>w_epoch := w_epoch s + 1\<rparr>) \<or>
    (\<exists>e. p = WaitCheck e \<and> p' = Blocked e \<and> e = w_epoch s \<and> s' = s) \<or>
    (w_epoch s' = w_epoch s \<and> w_count s' = w_count s \<and> outside_pc p \<and> \<not> will_notify n p \<and>
     p \<noteq> EnqNotify)"
    using assms by (cases p) (auto simp: wstep_simps split: wstep_splits)
  then show ?thesis by (elim disjE exE conjE) (rule that; assumption)+
qed

section \<open>Every step keeps the invariant\<close>

lemma idle_in_sleep: "idle_pc ep p \<Longrightarrow> in_sleep p \<and> \<not> holding p"
  by (cases p) auto

lemma outside_not_in_sleep: "outside_pc p \<Longrightarrow> \<not> in_sleep p \<and> \<not> holding p"
  by (cases p) auto

text \<open>When all workers are idle the counters are exact.\<close>

lemma all_idle_counters:
  assumes "\<And>t. role_ok n s t (f t)" and "counters_ok s f" and "all_idle n s f"
  shows "w_sleeping s = int n" and "w_count s = int (w_queues s) + int (w_nulls s) - num uncounted f"
proof -
  have split: "t < n \<and> idle_pc (w_epoch s) (f t) \<or> \<not> t < n \<and> outside_pc (f t)" for t
    using assms(1) [of t] assms(3) by (auto simp: role_ok_def all_idle_def)
  have "{t. in_sleep (f t)} = {..<n}" "{t. holding (f t)} = {}"
    using split idle_in_sleep outside_not_in_sleep by auto
  with assms(2) show "w_sleeping s = int n"
    and "w_count s = int (w_queues s) + int (w_nulls s) - num uncounted f"
    by (simp_all add: counters_ok_def num_def)
qed

lemma wake_pending_upd:
  assumes "wake_pending n s f" and "w_epoch s' = w_epoch s" and "f t \<noteq> EnqNotify"
    and "will_notify n (f t) \<longrightarrow> will_notify n p"
    and "t < n \<and> stale_pc (w_epoch s) (f t) \<longrightarrow> stale_pc (w_epoch s) p"
  shows "wake_pending n s' (f(t := p))"
proof -
  consider u where "will_notify n (f u)" | u where "f u = EnqNotify" "\<forall>v < n. stale_pc (w_epoch s) (f v)"
    using assms(1) unfolding wake_pending_def by blast
  then show ?thesis
  proof cases
    case (1 u)
    with assms(4) have "will_notify n ((f(t := p)) u)" by auto
    then show ?thesis unfolding wake_pending_def by blast
  next
    case (2 u)
    with assms have "(f(t := p)) u = EnqNotify" "\<forall>v < n. stale_pc (w_epoch s') ((f(t := p)) v)" by auto
    then show ?thesis unfolding wake_pending_def by blast
  qed
qed

lemma local_wake_pending:
  assumes st: "local_step n spin t (f t) c s = Some (p, s')" and n: "0 < n"
    and role: "\<And>u. role_ok n s u (f u)" and role': "\<And>u. role_ok n s' u ((f(t := p)) u)"
    and cnt: "counters_ok s f" and cnt': "counters_ok s' (f(t := p))"
    and inv: "all_idle n s f \<Longrightarrow> w_count s \<ge> 1 \<Longrightarrow> wake_pending n s f"
    and run: "w_running s'" and idle: "all_idle n s' (f(t := p))" and pos: "w_count s' \<ge> 1"
  shows "wake_pending n s' (f(t := p))"
proof -
  have shut: "\<not> shut_pc (f t)" using role [of t] local_monotone [OF st] run by (auto simp: role_ok_def)
  have split: "outside_pc p \<or> idle_pc (w_epoch s') p"
    using role' [of t] idle by (auto simp: role_ok_def all_idle_def dest: spec [of _ t])
  have still: "all_idle n s f" if "outside_pc (f t) \<or> idle_pc (w_epoch s) (f t)" "w_epoch s' = w_epoch s"
    unfolding all_idle_def
  proof (intro allI impI)
    fix u assume "u < n"
    then show "idle_pc (w_epoch s) (f u)"
      using that idle role [of u] by (cases "u = t") (auto simp: all_idle_def role_ok_def)
  qed
  show ?thesis
    using st run shut split
  proof (cases rule: local_wakeup)
    case (empty e)
    have "w_count s' = - num uncounted (f(t := p))"
      using all_idle_counters(2) [OF role' cnt' idle] empty by simp
    with pos show ?thesis using num_nonneg [of uncounted "f(t := p)"] by linarith
  next
    case count
    show ?thesis
    proof (cases "w_count s \<ge> 1")
      case True
      have "wake_pending n s f" by (rule inv [OF still True]) (use count in auto)
      then show ?thesis by (rule wake_pending_upd) (use count in auto)
    next
      case False
      with count pos n have "will_notify n p" by simp
      then show ?thesis unfolding wake_pending_def by (metis fun_upd_same)
    qed
  next
    case (decide q)
    have all: "all_idle n s f" by (rule still) (use decide in auto)
    have "wake_pending n s f" by (rule inv [OF all]) (use decide pos in simp)
    then show ?thesis
      by (rule wake_pending_upd) (use decide n all_idle_counters(1) [OF role cnt all] in auto)
  next
    case bump
    have "stale_pc (w_epoch s') ((f(t := p)) u)" if "u < n" for u
    proof -
      have "u \<noteq> t" using that bump role [of t] by (auto simp: role_ok_def)
      then show ?thesis
        using that idle role [of u] bump(3) by (cases "f u") (auto simp: all_idle_def role_ok_def)
    qed
    with bump show ?thesis unfolding wake_pending_def by (metis fun_upd_same)
  next
    case (sleep e)
    have "wake_pending n s f" by (rule inv [OF still]) (use sleep pos in auto)
    then show ?thesis by (rule wake_pending_upd) (use sleep in auto)
  next
    case other
    have "wake_pending n s f" by (rule inv [OF still]) (use other pos in auto)
    then show ?thesis by (rule wake_pending_upd) (use other role [of t] in \<open>auto simp: role_ok_def\<close>)
  qed
qed

text \<open>\<open>notify_one\<close> wakes a worker that will go back to the loop, unless another notification is due.\<close>

lemma counters_upd:
  assumes "fin_except f Outside" and "counters_ok s f"
    and "in_sleep p = in_sleep (f t)" "holding p = holding (f t)" "uncounted p = uncounted (f t)"
  shows "counters_ok s (f(t := p))"
  using assms by (simp add: counters_ok_def num_upd [OF assms(1)])

lemma unblock_counts [simp]:
  "in_sleep (unblock p) = in_sleep p" "holding (unblock p) = holding p" "uncounted (unblock p) = uncounted p"
  by (cases p; simp)+

lemma unblock_role [simp]: "role_ok n s t (unblock p) = role_ok n s t p"
  by (simp add: role_ok_def)

lemma blocked_not_stale: "is_blocked p \<Longrightarrow> idle_pc ep (unblock p) \<Longrightarrow> \<not> stale_pc ep p"
  by (cases p) auto

lemma stale_blocked: "stale_pc ep p \<Longrightarrow> is_blocked p"
  by (cases p) auto

lemma blocked_idle: "is_blocked p \<Longrightarrow> idle_pc ep p \<and> \<not> will_notify n p \<and> \<not> outside_pc p"
  by (cases p) auto

lemma idle_inv_notify:
  assumes inv: "idle_inv n w" and "0 < n" and t: "wpcs w t = EnqNotify"
    and st: "workers_step n spin t c w = Some w'"
  shows "idle_inv n w'"
proof -
  let ?s = "wsh w" and ?f = "wpcs w" and ?g = "(wpcs w)(t := Outside)"
  have fin: "fin_except ?f Outside" and role: "\<And>u. role_ok n ?s u (?f u)" and cnt: "counters_ok ?s ?f"
    and wk: "w_running ?s \<Longrightarrow> all_idle n ?s ?f \<Longrightarrow> w_count ?s \<ge> 1 \<Longrightarrow> wake_pending n ?s ?f"
    using inv by (auto simp: idle_inv_def)
  have tn: "\<not> t < n" using role [of t] t by (simp add: role_ok_def)
  have sh: "wsh w' = ?s" using st t by (auto simp: workers_step_def split: if_splits wchoice.splits)
  have fin1: "fin_except ?g Outside" by (rule fin_except_upd [OF fin])
  have role1: "role_ok n ?s u (?g u)" for u using role [of u] tn by (cases "u = t") (auto simp: role_ok_def)
  have cnt1: "counters_ok ?s ?g" by (rule counters_upd [OF fin cnt]) (simp_all add: t)
  have keep: "\<exists>v. v \<noteq> t \<and> will_notify n (?f v)"
    if p: "wake_pending n ?s ?f" "u < n" "\<not> stale_pc (w_epoch ?s) (?f u)" for u
  proof -
    obtain v where v: "will_notify n (?f v)" using p unfolding wake_pending_def by blast
    with t have "v \<noteq> t" by auto
    with v show ?thesis by blast
  qed
  consider (wake) u where "is_blocked (?f u)" "wpcs w' = ?g(u := unblock (?f u))"
    | (none) "\<forall>u < n. \<not> is_blocked (?f u)" "wpcs w' = ?g"
    using st t by (auto simp: workers_step_def split: if_splits wchoice.splits)
  then show ?thesis
  proof cases
    case (wake u)
    then have ut: "u \<noteq> t" and un: "u < n" using t blocked_idle role [of u] by (auto simp: role_ok_def)
    have "wake_pending n ?s (wpcs w')"
      if run: "w_running ?s" "w_count ?s \<ge> 1" and idle: "all_idle n ?s (wpcs w')"
    proof -
      have "all_idle n ?s ?f" unfolding all_idle_def
      proof (intro allI impI)
        fix v assume "v < n"
        with idle wake tn blocked_idle show "idle_pc (w_epoch ?s) (?f v)"
          by (cases "v = u") (auto simp: all_idle_def)
      qed
      moreover have "\<not> stale_pc (w_epoch ?s) (?f u)"
        using idle un wake by (intro blocked_not_stale) (auto simp: all_idle_def)
      ultimately obtain v where "v \<noteq> t" "will_notify n (?f v)" using keep un wk run by blast
      moreover from this have "v \<noteq> u" using blocked_idle wake(1) by blast
      ultimately have "will_notify n (wpcs w' v)" using wake(2) by simp
      then show ?thesis unfolding wake_pending_def by blast
    qed
    moreover have "role_ok n ?s v (wpcs w' v)" for v
      using role1 [of v] role [of u] wake(2) by (cases "v = u") auto
    moreover have "counters_ok ?s (wpcs w')"
      unfolding wake(2) by (rule counters_upd [OF fin1 cnt1]) (simp_all add: ut)
    moreover have "fin_except (wpcs w') Outside" unfolding wake(2) by (rule fin_except_upd [OF fin1])
    ultimately show ?thesis unfolding idle_inv_def sh by blast
  next
    case none
    have "wake_pending n ?s ?g" if run: "w_running ?s" "w_count ?s \<ge> 1" and idle: "all_idle n ?s ?g"
    proof -
      have "all_idle n ?s ?f" using idle tn by (auto simp: all_idle_def split: if_splits)
      moreover have "\<not> stale_pc (w_epoch ?s) (?f 0)" using none \<open>0 < n\<close> stale_blocked by blast
      ultimately obtain v where "v \<noteq> t" "will_notify n (?f v)" using keep \<open>0 < n\<close> wk run by blast
      then have "will_notify n (?g v)" by simp
      then show ?thesis unfolding wake_pending_def by blast
    qed
    with fin1 role1 cnt1 show ?thesis unfolding idle_inv_def sh none(2) by blast
  qed
qed

lemma num_unblock:
  assumes "\<And>p. P (unblock p) = P p"
  shows "num P (\<lambda>u. unblock (f u)) = num P f"
  using assms by (simp add: num_def)

lemma idle_inv_notify_all:
  assumes inv: "idle_inv n w" and t: "wpcs w t = ShutNotify"
    and st: "workers_step n spin t c w = Some w'"
  shows "idle_inv n w'"
proof -
  let ?s = "wsh w" and ?g = "(wpcs w)(t := Outside)"
  have fin: "fin_except (wpcs w) Outside" and role: "\<And>u. role_ok n ?s u (wpcs w u)"
    and cnt: "counters_ok ?s (wpcs w)"
    using inv by (auto simp: idle_inv_def)
  have stop: "\<not> w_running ?s" and tn: "\<not> t < n" using role [of t] t by (auto simp: role_ok_def)
  have w': "wsh w' = ?s\<lparr>w_notified := True\<rparr>" "wpcs w' = (\<lambda>u. unblock (?g u))"
    using st t by (auto simp: workers_step_def)
  have "fin_except ?g Outside" by (rule fin_except_upd [OF fin])
  moreover have "unblock p = Outside \<longleftrightarrow> p = Outside" for p by (cases p) auto
  ultimately have fin': "fin_except (wpcs w') Outside" by (simp add: w' fin_except_def)
  have role': "role_ok n (wsh w') u (wpcs w' u)" for u
    using role [of u] tn by (cases "u = t") (auto simp: w' role_ok_def)
  have "counters_ok ?s ?g" by (rule counters_upd [OF fin cnt]) (simp_all add: t)
  moreover have "num P (wpcs w') = num P ?g" if "\<And>p. P (unblock p) = P p" for P
    unfolding w' by (rule num_unblock) (rule that)
  ultimately have "counters_ok (wsh w') (wpcs w')" by (simp add: counters_ok_def w'(1) del: fun_upd_apply)
  with fin' role' stop show ?thesis unfolding idle_inv_def by (simp add: w'(1))
qed

lemma idle_inv_step:
  assumes "0 < n" and inv: "idle_inv n w" and "wstep n spin w w'"
  shows "idle_inv n w'"
proof -
  obtain t c where st: "workers_step n spin t c w = Some w'" using assms(3) by (auto elim: wstep.cases)
  have fin: "fin_except (wpcs w) Outside" and role: "\<And>u. role_ok n (wsh w) u (wpcs w u)"
    and cnt: "counters_ok (wsh w) (wpcs w)"
    and wk: "w_running (wsh w) \<Longrightarrow> all_idle n (wsh w) (wpcs w) \<Longrightarrow> w_count (wsh w) \<ge> 1 \<Longrightarrow>
      wake_pending n (wsh w) (wpcs w)"
    using inv by (auto simp: idle_inv_def)
  consider "wpcs w t = EnqNotify" | "wpcs w t = ShutNotify"
    | p s' where "local_step n spin t (wpcs w t) c (wsh w) = Some (p, s')"
        "w' = \<lparr>wsh = s', wpcs = (wpcs w)(t := p)\<rparr>"
    using st by (auto simp: workers_step_def split: if_splits option.splits)
  then show ?thesis
  proof cases
    case 1
    with idle_inv_notify [OF inv \<open>0 < n\<close>] st show ?thesis by blast
  next
    case 2
    with idle_inv_notify_all [OF inv] st show ?thesis by blast
  next
    case 3
    let ?f = "(wpcs w)(t := p)"
    have mono: "w_epoch (wsh w) \<le> w_epoch s'" "w_running s' \<Longrightarrow> w_running (wsh w)"
      using local_monotone [OF 3(1)] by auto
    have role': "role_ok n s' u (?f u)" for u
    proof (cases "u = t")
      case True
      with local_role [OF 3(1) role] show ?thesis by simp
    next
      case False
      with role [of u] mono show ?thesis by (auto simp: role_ok_def intro: order_trans)
    qed
    have cnt': "counters_ok s' ?f"
      using local_counters [OF 3(1)] cnt by (simp add: counters_ok_def num_upd [OF fin])
    have "wake_pending n s' ?f" if "w_running s'" "all_idle n s' ?f" "w_count s' \<ge> 1"
      using local_wake_pending [OF 3(1) \<open>0 < n\<close> role role' cnt cnt'] wk mono(2) that by blast
    with role' cnt' fin_except_upd [OF fin] show ?thesis
      unfolding idle_inv_def 3(2) workers.simps by blast
  qed
qed

lemma idle_inv_init:
  assumes "0 < n"
  shows "idle_inv n (workers_init n)"
proof -
  have "fin_except (wpcs (workers_init n)) Outside"
    unfolding fin_except_def by (rule finite_subset [of _ "{..<n}"]) (auto simp: workers_init_def)
  with assms show ?thesis
    by (auto simp: idle_inv_def workers_init_def role_ok_def counters_ok_def num_def card_eq_0_iff)
qed

interpretation wakeup: invariant_system "\<lambda>w. w = workers_init n" "wstep n spin" "\<lambda>w. 0 < n \<longrightarrow> idle_inv n w"
  by unfold_locales (auto intro: idle_inv_init idle_inv_step)

section \<open>What a pending notification leads to\<close>

text \<open>Thread \<open>u\<close> alone, in at most \<open>k\<close> steps, makes some worker not idle.\<close>

definition woken :: "nat \<Rightarrow> nat \<Rightarrow> workers \<Rightarrow> nat \<Rightarrow> nat \<Rightarrow> bool" where
  "woken n spin w u k \<longleftrightarrow> (\<exists>cs w'. set cs \<subseteq> {Run, Wake 0} \<and> length cs \<le> k \<and>
     run_workers n spin (map (Pair u) cs) w = Some w' \<and> \<not> all_idle n (wsh w') (wpcs w'))"

lemma woken_step:
  assumes "workers_step n spin u c w = Some w1" and "c \<in> {Run, Wake 0}"
    and "woken n spin w1 u k"
  shows "woken n spin w u (Suc k)"
proof -
  obtain cs w' where "set cs \<subseteq> {Run, Wake 0}" "length cs \<le> k"
    "run_workers n spin (map (Pair u) cs) w1 = Some w'" "\<not> all_idle n (wsh w') (wpcs w')"
    using assms(3) unfolding woken_def by blast
  with assms(1,2) show ?thesis unfolding woken_def by (intro exI [of _ "c # cs"] exI [of _ w']) auto
qed

lemma woken_now: "\<not> all_idle n (wsh w) (wpcs w) \<Longrightarrow> woken n spin w u k"
  unfolding woken_def by (intro exI [of _ "[]"] exI [of _ w]) simp

lemma woken_notify:
  assumes "wpcs w u = EnqNotify" and "stale_pc (w_epoch (wsh w)) (wpcs w 0)" and "0 < n"
  shows "woken n spin w u 1"
proof -
  obtain e where e: "wpcs w 0 = Blocked e" "e < w_epoch (wsh w)"
    using assms(2) by (cases "wpcs w 0") auto
  have u: "u \<noteq> 0"
  proof
    assume "u = 0"
    with assms(1) e show False by simp
  qed
  have st: "workers_step n spin u (Wake 0) w = Some (w\<lparr>wpcs := (wpcs w)(u := Outside, 0 := WaitCheck e)\<rparr>)"
    using assms(1) e by (simp add: workers_step_def)
  show ?thesis unfolding One_nat_def
    by (rule woken_step [OF st])
      (use e u assms(3) in \<open>auto simp: all_idle_def intro!: woken_now dest!: spec [of _ 0]\<close>)
qed

lemma woken_epoch:
  assumes "wpcs w u = EnqEpoch" and "\<And>t. role_ok n (wsh w) t (wpcs w t)" and "0 < n"
  shows "woken n spin w u 2"
proof -
  define w1 where "w1 = \<lparr>wsh = (wsh w)\<lparr>w_epoch := w_epoch (wsh w) + 1\<rparr>, wpcs = (wpcs w)(u := EnqNotify)\<rparr>"
  have st: "workers_step n spin u Run w = Some w1"
    using assms(1) by (simp add: workers_step_def local_step_def w1_def)
  have u: "u \<noteq> 0" using assms(1) assms(2) [of u] assms(3) by (auto simp: role_ok_def)
  have "woken n spin w1 u 1"
  proof (cases "idle_pc (w_epoch (wsh w1)) (wpcs w1 0)")
    case True
    then have "stale_pc (w_epoch (wsh w1)) (wpcs w1 0)"
      using u assms(2) [of 0] by (cases "wpcs w 0") (auto simp: w1_def role_ok_def)
    then show ?thesis by (rule woken_notify [OF _ _ assms(3), rotated]) (simp add: w1_def)
  next
    case False
    with assms(3) show ?thesis by (intro woken_now) (auto simp: all_idle_def)
  qed
  from woken_step [OF st _ this] show ?thesis by (simp add: numeral_2_eq_2)
qed

lemma woken_sleeping:
  assumes "wpcs w u = EnqSleeping q" and "q \<le> w_sleeping (wsh w)" and "0 < w_sleeping (wsh w)"
    and "\<And>t. role_ok n (wsh w) t (wpcs w t)" and "0 < n"
  shows "woken n spin w u 3"
proof -
  define w1 where "w1 = w\<lparr>wpcs := (wpcs w)(u := EnqEpoch)\<rparr>"
  have st: "workers_step n spin u Run w = Some w1"
    using assms(1-3) by (simp add: workers_step_def local_step_def w1_def)
  have "role_ok n (wsh w1) t (wpcs w1 t)" for t
    using assms(4) [of t] assms(1) by (cases "t = u") (auto simp: w1_def role_ok_def)
  then have "woken n spin w1 u 2" by (intro woken_epoch) (simp_all add: w1_def assms(5))
  from woken_step [OF st _ this] show ?thesis by (simp add: numeral_3_eq_3 numeral_2_eq_2)
qed

lemma woken_count:
  assumes "wpcs w u = EnqCount" and "w_count (wsh w) < w_sleeping (wsh w)" and "0 < w_sleeping (wsh w)"
    and "\<And>t. role_ok n (wsh w) t (wpcs w t)" and "0 < n"
  shows "woken n spin w u 4"
proof -
  define w1 where "w1 = \<lparr>wsh = (wsh w)\<lparr>w_count := w_count (wsh w) + 1\<rparr>,
    wpcs = (wpcs w)(u := EnqSleeping (w_count (wsh w) + 1))\<rparr>"
  have st: "workers_step n spin u Run w = Some w1"
    using assms(1) by (simp add: workers_step_def local_step_def w1_def)
  have "role_ok n (wsh w1) t (wpcs w1 t)" for t
    using assms(4) [of t] assms(1) by (cases "t = u") (auto simp: w1_def role_ok_def)
  moreover have "w_count (wsh w) + 1 \<le> w_sleeping (wsh w)" using assms(2) by linarith
  ultimately have "woken n spin w1 u 3"
    by (intro woken_sleeping [where q = "w_count (wsh w) + 1"]) (simp_all add: w1_def assms(3,5))
  from woken_step [OF st _ this] show ?thesis by (simp add: eval_nat_numeral)
qed

lemma woken_mono: "woken n spin w u j \<Longrightarrow> j \<le> k \<Longrightarrow> woken n spin w u k"
  unfolding woken_def by (meson order_trans)

lemma will_notify_cases: "will_notify n p \<Longrightarrow> (\<exists>q. p = EnqSleeping q \<and> q \<le> int n) \<or> p = EnqEpoch"
  by (cases p) auto

lemma woken_pending:
  assumes "idle_inv n w" and "0 < n" and "w_running (wsh w)" and "w_queues (wsh w) > 0"
    and idle: "all_idle n (wsh w) (wpcs w)"
  obtains u where "n \<le> u" and "woken n spin w u 4"
proof -
  have role: "\<And>u. role_ok n (wsh w) u (wpcs w u)" and cnt: "counters_ok (wsh w) (wpcs w)"
    using assms(1) by (auto simp: idle_inv_def)
  note exact = all_idle_counters [OF role cnt idle]
  have outside: "n \<le> u" if "outside_pc (wpcs w u)" for u
    using role [of u] that by (auto simp: role_ok_def)
  consider "w_count (wsh w) \<ge> 1" | "w_count (wsh w) < 1" "num uncounted (wpcs w) \<noteq> 0"
    using exact(2) assms(4) by fastforce
  then show ?thesis
  proof cases
    case 1
    then have "wake_pending n (wsh w) (wpcs w)" using assms by (auto simp: idle_inv_def)
    then consider u q where "wpcs w u = EnqSleeping q" "q \<le> int n" | u where "wpcs w u = EnqEpoch"
      | u where "wpcs w u = EnqNotify" "stale_pc (w_epoch (wsh w)) (wpcs w 0)"
      unfolding wake_pending_def using assms(2) will_notify_cases by blast
    then show ?thesis
    proof cases
      case (1 u q)
      then have "woken n spin w u 3" using exact(1) assms(2) role by (intro woken_sleeping) auto
      then have "woken n spin w u 4" by (rule woken_mono) simp
      moreover have "n \<le> u" by (rule outside) (simp add: 1(1))
      ultimately show ?thesis by (rule that [rotated])
    next
      case (2 u)
      then have "woken n spin w u 2" using assms(2) role by (intro woken_epoch) auto
      then have "woken n spin w u 4" by (rule woken_mono) simp
      moreover have "n \<le> u" by (rule outside) (simp add: 2(1))
      ultimately show ?thesis by (rule that [rotated])
    next
      case (3 u)
      then have "woken n spin w u 1" using assms(2) by (intro woken_notify) auto
      then have "woken n spin w u 4" by (rule woken_mono) simp
      moreover have "n \<le> u" by (rule outside) (simp add: 3(1))
      ultimately show ?thesis by (rule that [rotated])
    qed
  next
    case 2
    then obtain u where u: "uncounted (wpcs w u)" using num_ex by blast
    have "\<not> shut_pc (wpcs w u)" using role [of u] assms(3) by (auto simp: role_ok_def)
    with u have c: "wpcs w u = EnqCount" by (cases "wpcs w u") auto
    then have "woken n spin w u 4" using 2(1) exact(1) assms(2) role by (intro woken_count) auto
    moreover have "n \<le> u" by (rule outside) (simp add: c)
    ultimately show ?thesis by (rule that [rotated])
  qed
qed

section \<open>Properties\<close>

text \<open>
  C35.  However workers and producers interleave and however long the workers spin, a queue is not left in
  the global queue while everyone sleeps: if the process runs, a queue waits and every worker is asleep or
  about to be, then some thread is inside \<open>enqueue_global\<close> whose remaining steps, four at most and on its own,
  send a worker back to the loop.
\<close>

theorem waiting_queue_wakes_worker:
  assumes "workers_reach n w" and "0 < n" and "w_running (wsh w)" and "w_queues (wsh w) > 0"
    and "all_idle n (wsh w) (wpcs w)"
  shows "\<exists>u cs w'. n \<le> u \<and> set cs \<subseteq> {Run, Wake 0} \<and> length cs \<le> 4 \<and>
    run_workers n (idle_spin n) (map (Pair u) cs) w = Some w' \<and> \<not> all_idle n (wsh w') (wpcs w')"
proof -
  have "idle_inv n w" using wakeup.reach_inv [OF assms(1)] assms(2) by blast
  then obtain u where "n \<le> u" "woken n (idle_spin n) w u 4" by (rule woken_pending [OF _ assms(2-5)])
  then show ?thesis unfolding woken_def by blast
qed

text \<open>The spinning loop runs out when the queue stays empty.\<close>

lemma spin_out:
  assumes "reach I (wstep n spin) w" and "wpcs w t = Spin k"
    and "w_running (wsh w)" and "w_queues (wsh w) = 0" and "w_nulls (wsh w) = 0"
  shows "reach I (wstep n spin) (w\<lparr>wpcs := (wpcs w)(t := Spin 0)\<rparr>)"
  using assms
proof (induction k arbitrary: w)
  case 0
  then have "w\<lparr>wpcs := (wpcs w)(t := Spin 0)\<rparr> = w" by (simp add: fun_upd_idem)
  with 0 show ?case by (simp del: fun_upd_apply)
next
  case (Suc k)
  let ?w = "w\<lparr>wpcs := (wpcs w)(t := Spin k)\<rparr>"
  have "run_workers n spin [(t, Run), (t, PickNone)] w = Some ?w"
    using Suc.prems by (simp add: workers_step_def local_step_def take_global_def)
  then have reached: "reach I (wstep n spin) ?w" by (rule run_workers_reach [OF Suc.prems(1)])
  have "reach I (wstep n spin) (?w\<lparr>wpcs := (wpcs ?w)(t := Spin 0)\<rparr>)"
    by (rule Suc.IH [OF reached]) (use Suc.prems in simp_all)
  then show ?case by (simp del: fun_upd_apply)
qed

text \<open>One worker has spun and fallen asleep, and thread \<open>1\<close> has just counted a queue.\<close>

definition spinning :: workers where
  "spinning = the (run_workers 1 256 [(0, Run), (0, PickNone)] (workers_init 1))"

definition asleep :: workers where
  "asleep = the (run_workers 1 256
     (map (Pair 0) [Run, Run, Run, PickNone, Run] @ map (Pair 1) [CallEnqueue, Run, Run])
     (spinning\<lparr>wpcs := (wpcs spinning)(0 := Spin 0)\<rparr>))"

lemma spinning_run:
  "run_workers 1 256 [(0, Run), (0, PickNone)] (workers_init 1) \<noteq> None"
  "wpcs spinning 0 = Spin 256" "w_running (wsh spinning)" "w_queues (wsh spinning) = 0" "w_nulls (wsh spinning) = 0"
  by code_simp+

lemma asleep_run:
  "run_workers 1 256
     (map (Pair 0) [Run, Run, Run, PickNone, Run] @ map (Pair 1) [CallEnqueue, Run, Run])
     (spinning\<lparr>wpcs := (wpcs spinning)(0 := Spin 0)\<rparr>) \<noteq> None"
  "w_running (wsh asleep)" "w_queues (wsh asleep) = 1" "all_idle 1 (wsh asleep) (wpcs asleep)"
  by code_simp+

lemma asleep_reached: "reach (\<lambda>w. w = workers_init 1) (wstep 1 256) asleep"
proof -
  have "reach (\<lambda>w. w = workers_init 1) (wstep 1 256) spinning"
    by (rule run_workers_reach [OF reach_init])
      (use spinning_run(1) in \<open>simp_all add: spinning_def option.collapse del: run_workers.simps One_nat_def\<close>)
  from spin_out [OF this spinning_run(2-5)] show ?thesis
    by (rule run_workers_reach)
      (use asleep_run(1) in \<open>simp add: asleep_def option.collapse del: run_workers.simps One_nat_def list.map append.simps\<close>)
qed

theorem waiting_queue_wakes_worker_witness:
  "\<exists>u cs w'. 1 \<le> u \<and> set cs \<subseteq> {Run, Wake 0} \<and> length cs \<le> 4 \<and>
    run_workers 1 (idle_spin 1) (map (Pair u) cs) asleep = Some w' \<and> \<not> all_idle 1 (wsh w') (wpcs w')"
  by (rule waiting_queue_wakes_worker)
    (use asleep_reached asleep_run in \<open>simp_all add: idle_spin_def del: One_nat_def\<close>)

section \<open>A queue that waits although a worker sleeps\<close>

text \<open>
  A worker that has dequeued but not yet decremented \<open>global_queue_count_\<close> makes \<open>enqueue_global\<close> see more
  queues than sleepers and skip the notification: the new queue then waits until the busy worker is done
  with its batch, while the other worker sleeps.
\<close>

lemma notification_skipped:
  "\<exists>w. workers_reach 2 w \<and> w_running (wsh w) \<and> w_queues (wsh w) = 1 \<and> w_sleeping (wsh w) = 1 \<and>
     wpcs w = (\<lambda>t. Outside)(0 := Dispatch, 1 := Blocked (w_epoch (wsh w)))"
proof -
  let ?xs = "[(0, Run), (1, Run), (1, PickNone), (2, CallEnqueue), (2, Run), (2, Run), (2, Run), (0, PickQueue)]"
  let ?ys = "[(1, Run), (1, Run), (1, Run), (1, PickNone), (1, Run), (2, CallEnqueue), (2, Run), (2, Run),
    (2, Run), (0, Run)]"
  let ?init = "\<lambda>w. w = workers_init 2"
  define w1 where "w1 = workers_init 2 \<lparr>wsh := (wsh (workers_init 2))\<lparr>w_count := 1\<rparr>,
    wpcs := (\<lambda>t. Outside)(0 := GotQueue, 1 := Spin 256)\<rparr>"
  define w2 where "w2 = workers_init 2 \<lparr>wsh := (wsh (workers_init 2))\<lparr>w_queues := 1, w_count := 1, w_sleeping := 1\<rparr>,
    wpcs := (\<lambda>t. Outside)(0 := Dispatch, 1 := Blocked 0)\<rparr>"
  note ev = workers_step_def local_step_def take_global_def less_count_def workers_init_def fun_eq_iff
  have "run_workers 2 256 ?xs (workers_init 2) = Some w1" by (auto simp: ev w1_def)
  then have "reach ?init (wstep 2 256) w1" by (rule run_workers_reach [OF reach_init, rotated]) simp
  from spin_out [OF this, of 1 256]
  have "reach ?init (wstep 2 256) (w1\<lparr>wpcs := (wpcs w1)(1 := Spin 0)\<rparr>)"
    by (simp add: w1_def workers_init_def)
  moreover have "run_workers 2 256 ?ys (w1\<lparr>wpcs := (wpcs w1)(1 := Spin 0)\<rparr>) = Some w2"
    by (auto simp: ev w1_def w2_def)
  ultimately have "reach ?init (wstep 2 256) w2" by (rule run_workers_reach)
  then show ?thesis by (intro exI [of _ w2]) (simp add: idle_spin_def w2_def workers_init_def)
qed

end
