(* ===== verification/Network.thy ===== *)
theory Network
  imports Actor_System
begin

text \<open>
  TCP connections, listeners and connectors and UDP sockets, \<open>src/src/network.cpp\<close> and
  \<open>src/src/network.h\<close>, on top of the actor system they report to.

  The objects are shared through \<open>shared_ptr\<close> and live in stores indexed by identity.  Everything
  after \<open>asio::post\<close> and every completion handler runs on the one thread of the \<open>io_context\<close>: a call
  of \<open>send\<close>, \<open>close\<close>, \<open>pause\<close>, \<open>resume\<close>, \<open>shutdown_write\<close> or \<open>stop\<close> appends a task, and \<open>run_task\<close> runs the
  oldest one.  An asynchronous operation that has been started and has not completed is counted;
  what it completes with (an error, or the bytes read, or the peer's address) is an input of the
  completion handler.  Address parsing, binding and resolving are results of \<open>asio\<close> and inputs too.
\<close>

section \<open>State\<close>

record tcp_connection =
  c_owner :: u32
  c_listener_id :: i32
  c_id :: i32
  c_open :: bool                   \<comment> \<open>\<open>socket_\<close> has not been closed\<close>
  c_send_shut :: bool              \<comment> \<open>shut down for sending\<close>
  c_write_queue :: "string list"
  c_is_writing :: bool
  c_is_paused :: bool
  c_pending_bytes :: u64
  c_warned :: bool
  c_reads :: nat                   \<comment> \<open>\<open>async_read_some\<close> in progress, all into \<open>read_buf_\<close>\<close>
  c_writes :: nat                  \<comment> \<open>\<open>async_write\<close> in progress\<close>
  c_accepted :: "string list"      \<comment> \<open>history: data that reached \<open>write_queue_\<close>\<close>
  c_written :: "string list"       \<comment> \<open>history: data whose write completed\<close>
  c_failed :: bool                 \<comment> \<open>history: a write completed with an error\<close>

record tcp_listener =
  l_owner :: u32
  l_id :: i32
  l_connections :: "i32 \<rightharpoonup> obj"
  l_open :: bool
  l_accepting :: bool              \<comment> \<open>\<open>async_accept\<close> in progress\<close>

datatype connector_state = Fresh | Resolving | Connecting | Done

record tcp_connector =
  n_owner :: u32
  n_id :: i32
  n_state :: connector_state
  n_conn :: "obj option"

record udp_socket =
  u_owner :: u32
  u_id :: i32
  u_open :: bool
  u_receiving :: bool              \<comment> \<open>\<open>async_receive_from\<close> in progress\<close>
  u_sent :: "(string \<times> string \<times> u16) list"  \<comment> \<open>history: datagrams handed to the socket\<close>

datatype task =
    TaskSend obj string
  | TaskClose obj
  | TaskPause obj
  | TaskResume obj
  | TaskShutdownWrite obj
  | TaskStopListener obj
  | TaskStopUdp obj

record net =
  sys :: system
  conns :: "obj \<Rightarrow> tcp_connection"
  listeners :: "obj \<Rightarrow> tcp_listener"
  connectors :: "obj \<Rightarrow> tcp_connector"
  udps :: "obj \<Rightarrow> udp_socket"
  next_id :: obj                   \<comment> \<open>identity of the next object\<close>
  next_accepted_connection_id :: i32
  next_connector_id :: i32
  tasks :: "task list"
  terminated :: bool               \<comment> \<open>an exception left a handler: \<open>std::terminate\<close>\<close>

definition new_net :: "system \<Rightarrow> net" where
  "new_net s =
     \<lparr>sys = s,
      conns = (\<lambda>i. \<lparr>c_owner = 0, c_listener_id = 0, c_id = 0, c_open = False, c_send_shut = False, c_write_queue = [],
         c_is_writing = False, c_is_paused = False, c_pending_bytes = 0, c_warned = False,
         c_reads = 0, c_writes = 0, c_accepted = [], c_written = [], c_failed = False\<rparr>),
      listeners = (\<lambda>i. \<lparr>l_owner = 0, l_id = 0, l_connections = Map.empty, l_open = False, l_accepting = False\<rparr>),
      connectors = (\<lambda>i. \<lparr>n_owner = 0, n_id = 0, n_state = Done, n_conn = None\<rparr>),
      udps = (\<lambda>i. \<lparr>u_owner = 0, u_id = 0, u_open = False, u_receiving = False, u_sent = []\<rparr>),
      next_id = 0, next_accepted_connection_id = 1, next_connector_id = 1000000, tasks = [],
      terminated = False\<rparr>"

definition upd_conn :: "obj \<Rightarrow> (tcp_connection \<Rightarrow> tcp_connection) \<Rightarrow> net \<Rightarrow> net" where
  "upd_conn i f n = n\<lparr>conns := (conns n)(i := f (conns n i))\<rparr>"

definition upd_listener :: "obj \<Rightarrow> (tcp_listener \<Rightarrow> tcp_listener) \<Rightarrow> net \<Rightarrow> net" where
  "upd_listener i f n = n\<lparr>listeners := (listeners n)(i := f (listeners n i))\<rparr>"

definition upd_connector :: "obj \<Rightarrow> (tcp_connector \<Rightarrow> tcp_connector) \<Rightarrow> net \<Rightarrow> net" where
  "upd_connector i f n = n\<lparr>connectors := (connectors n)(i := f (connectors n i))\<rparr>"

definition upd_udp :: "obj \<Rightarrow> (udp_socket \<Rightarrow> udp_socket) \<Rightarrow> net \<Rightarrow> net" where
  "upd_udp i f n = n\<lparr>udps := (udps n)(i := f (udps n i))\<rparr>"

definition post :: "task \<Rightarrow> net \<Rightarrow> net" where
  "post t n = n\<lparr>tasks := tasks n @ [t]\<rparr>"

text \<open>\<open>system_.send(0, owner_, PTYPE_SOCKET, 0, payload)\<close>.\<close>

definition notify :: "u32 \<Rightarrow> payload \<Rightarrow> net \<Rightarrow> net" where
  "notify owner_handle p n = n\<lparr>sys := send 0 owner_handle PTYPE_SOCKET 0 p (sys n)\<rparr>"

section \<open>Connections\<close>

abbreviation (input) SEND_BUFFER_WARNING :: u64 where "SEND_BUFFER_WARNING \<equiv> 1048576"

definition new_connection :: "u32 \<Rightarrow> i32 \<Rightarrow> i32 \<Rightarrow> tcp_connection" where
  "new_connection owner_handle lid cid =
     \<lparr>c_owner = owner_handle, c_listener_id = lid, c_id = cid, c_open = True, c_send_shut = False, c_write_queue = [],
      c_is_writing = False, c_is_paused = False, c_pending_bytes = 0, c_warned = False,
      c_reads = 0, c_writes = 0, c_accepted = [], c_written = [], c_failed = False\<rparr>"

definition do_read :: "obj \<Rightarrow> net \<Rightarrow> net" where
  "do_read i n = (if c_is_paused (conns n i) then n else upd_conn i (\<lambda>c. c\<lparr>c_reads := c_reads c + 1\<rparr>) n)"

text \<open>The completion of \<open>async_read_some\<close>: \<open>None\<close> is an error.\<close>

definition read_done :: "obj \<Rightarrow> string option \<Rightarrow> net \<Rightarrow> net" where
  "read_done i res n =
     (let n1 = upd_conn i (\<lambda>c. c\<lparr>c_reads := c_reads c - 1\<rparr>) n;
          c = conns n1 i
      in case res of
           None \<Rightarrow> notify (c_owner c) (SocketClose (c_listener_id c) (c_id c)) n1
         | Some bytes \<Rightarrow>
             do_read i (notify (c_owner c) (SocketData (c_listener_id c) (c_id c) bytes) n1))"

definition do_write :: "obj \<Rightarrow> net \<Rightarrow> net" where
  "do_write i n =
     (if c_write_queue (conns n i) = [] then upd_conn i (\<lambda>c. c\<lparr>c_is_writing := False\<rparr>) n
      else upd_conn i (\<lambda>c. c\<lparr>c_is_writing := True, c_writes := c_writes c + 1\<rparr>) n)"

text \<open>The completion of \<open>async_write\<close>.\<close>

definition write_done :: "obj \<Rightarrow> bool \<Rightarrow> net \<Rightarrow> net" where
  "write_done i ok n =
     (let n1 = upd_conn i (\<lambda>c. c\<lparr>c_writes := c_writes c - 1\<rparr>) n;
          c = conns n1 i
      in if \<not> ok then
           notify (c_owner c) (SocketClose (c_listener_id c) (c_id c))
             (upd_conn i (\<lambda>c. c\<lparr>c_failed := True\<rparr>) n1)
         else
           do_write i
             (upd_conn i (\<lambda>c. c\<lparr>c_pending_bytes := c_pending_bytes c - of_nat (length (hd (c_write_queue c))),
                c_warned := False, c_written := c_written c @ [hd (c_write_queue c)],
                c_write_queue := tl (c_write_queue c)\<rparr>) n1))"

definition check_send_warning :: "obj \<Rightarrow> net \<Rightarrow> net" where
  "check_send_warning i n =
     (let c = conns n i
      in if \<not> c_warned c \<and> c_pending_bytes c \<ge> SEND_BUFFER_WARNING
         then notify (c_owner c) (SocketWarning (c_listener_id c) (c_id c) (c_pending_bytes c))
                (upd_conn i (\<lambda>c. c\<lparr>c_warned := True\<rparr>) n)
         else n)"

text \<open>The task of \<open>TcpConnection::send\<close>.\<close>

definition send_task :: "obj \<Rightarrow> string \<Rightarrow> net \<Rightarrow> net" where
  "send_task i d n =
     (let n1 = upd_conn i (\<lambda>c. c\<lparr>c_pending_bytes := c_pending_bytes c + of_nat (length d),
                 c_write_queue := c_write_queue c @ [d], c_accepted := c_accepted c @ [d]\<rparr>) n;
          n2 = check_send_warning i n1
      in if \<not> c_is_writing (conns n2 i) then do_write i n2 else n2)"

definition resume_task :: "obj \<Rightarrow> net \<Rightarrow> net" where
  "resume_task i n =
     (if c_is_paused (conns n i) then do_read i (upd_conn i (\<lambda>c. c\<lparr>c_is_paused := False\<rparr>) n) else n)"

fun exec_task :: "task \<Rightarrow> net \<Rightarrow> net" where
  "exec_task (TaskSend i d) n = send_task i d n"
| "exec_task (TaskClose i) n = upd_conn i (\<lambda>c. c\<lparr>c_open := False\<rparr>) n"
| "exec_task (TaskPause i) n = upd_conn i (\<lambda>c. c\<lparr>c_is_paused := True\<rparr>) n"
| "exec_task (TaskResume i) n = resume_task i n"
| "exec_task (TaskShutdownWrite i) n = upd_conn i (\<lambda>c. c\<lparr>c_send_shut := True\<rparr>) n"
| "exec_task (TaskStopListener i) n = upd_listener i (\<lambda>l. l\<lparr>l_open := False\<rparr>) n"
| "exec_task (TaskStopUdp i) n = upd_udp i (\<lambda>u. u\<lparr>u_open := False\<rparr>) n"

definition run_task :: "net \<Rightarrow> net" where
  "run_task n = (case tasks n of [] \<Rightarrow> n | t # ts \<Rightarrow> exec_task t (n\<lparr>tasks := ts\<rparr>))"

definition conn_send :: "obj \<Rightarrow> string \<Rightarrow> net \<Rightarrow> net" where
  "conn_send i d = post (TaskSend i d)"

definition conn_close :: "obj \<Rightarrow> net \<Rightarrow> net" where
  "conn_close i = post (TaskClose i)"

definition conn_pause :: "obj \<Rightarrow> net \<Rightarrow> net" where
  "conn_pause i = post (TaskPause i)"

definition conn_resume :: "obj \<Rightarrow> net \<Rightarrow> net" where
  "conn_resume i = post (TaskResume i)"

definition conn_shutdown_write :: "obj \<Rightarrow> net \<Rightarrow> net" where
  "conn_shutdown_write i = post (TaskShutdownWrite i)"

text \<open>\<open>make_shared<TcpConnection>\<close> followed by \<open>start\<close>.\<close>

definition make_connection :: "u32 \<Rightarrow> i32 \<Rightarrow> i32 \<Rightarrow> net \<Rightarrow> obj \<times> net" where
  "make_connection owner_handle lid cid n =
     (next_id n, n\<lparr>next_id := next_id n + 1, conns := (conns n)(next_id n := new_connection owner_handle lid cid)\<rparr>)"

section \<open>Listeners\<close>

text \<open>The constructor: parsing the address, opening, binding or listening may throw.\<close>

definition make_listener :: "u32 \<Rightarrow> i32 \<Rightarrow> bool \<Rightarrow> net \<Rightarrow> (obj \<times> net) option" where
  "make_listener owner_handle lid bound n =
     (if \<not> bound then None
      else Some (next_id n,
        n\<lparr>next_id := next_id n + 1,
          listeners := (listeners n)(next_id n := \<lparr>l_owner = owner_handle, l_id = lid,
            l_connections = Map.empty, l_open = True, l_accepting = False\<rparr>)\<rparr>))"

definition do_accept :: "obj \<Rightarrow> net \<Rightarrow> net" where
  "do_accept i = upd_listener i (\<lambda>l. l\<lparr>l_accepting := True\<rparr>)"

definition listener_stop :: "obj \<Rightarrow> net \<Rightarrow> net" where
  "listener_stop i = post (TaskStopListener i)"

definition get_connection :: "obj \<Rightarrow> i32 \<Rightarrow> net \<Rightarrow> obj option" where
  "get_connection i cid n = l_connections (listeners n i) cid"

definition listener_send :: "obj \<Rightarrow> i32 \<Rightarrow> string \<Rightarrow> net \<Rightarrow> net" where
  "listener_send i cid d n = (case get_connection i cid n of None \<Rightarrow> n | Some c \<Rightarrow> conn_send c d n)"

definition close_connection :: "obj \<Rightarrow> i32 \<Rightarrow> net \<Rightarrow> net" where
  "close_connection i cid n =
     (case get_connection i cid n of
        None \<Rightarrow> n
      | Some c \<Rightarrow> conn_close c (upd_listener i (\<lambda>l. l\<lparr>l_connections := (l_connections l)(cid := None)\<rparr>) n))"

text \<open>
  The completion of \<open>async_accept\<close>.  \<open>socket.remote_endpoint()\<close> throws if the peer has gone
  already; nothing catches it on the \<open>io_context\<close> thread.
\<close>

datatype accept_result = AcceptError | AcceptPeerGone | Accepted string u16

definition accept_done :: "obj \<Rightarrow> accept_result \<Rightarrow> net \<Rightarrow> net" where
  "accept_done i res n =
     (let n1 = upd_listener i (\<lambda>l. l\<lparr>l_accepting := False\<rparr>) n
      in case res of
           AcceptError \<Rightarrow> n1
         | AcceptPeerGone \<Rightarrow>
             n1\<lparr>next_accepted_connection_id := next_accepted_connection_id n1 + 1, terminated := True\<rparr>
         | Accepted addr port \<Rightarrow>
             (let cid = next_accepted_connection_id n1;
                  n2 = n1\<lparr>next_accepted_connection_id := cid + 1\<rparr>;
                  l = listeners n2 i;
                  (c, n3) = make_connection (l_owner l) (l_id l) cid n2;
                  n4 = upd_listener i (\<lambda>l. l\<lparr>l_connections := (l_connections l)(cid \<mapsto> c)\<rparr>) n3;
                  n5 = do_read c n4;
                  n6 = notify (l_owner l) (SocketAccept (l_id l) cid addr port) n5
              in do_accept i n6))"

section \<open>Connectors\<close>

definition make_connector :: "u32 \<Rightarrow> net \<Rightarrow> obj \<times> net" where
  "make_connector owner_handle n =
     (next_id n,
      n\<lparr>next_id := next_id n + 1, next_connector_id := next_connector_id n + 1,
        connectors := (connectors n)(next_id n :=
          \<lparr>n_owner = owner_handle, n_id = next_connector_id n, n_state = Fresh, n_conn = None\<rparr>)\<rparr>)"

definition connector_start :: "obj \<Rightarrow> net \<Rightarrow> net" where
  "connector_start i = upd_connector i (\<lambda>x. x\<lparr>n_state := Resolving\<rparr>)"

text \<open>The completions of \<open>async_resolve\<close> and \<open>async_connect\<close>.\<close>

definition resolve_done :: "obj \<Rightarrow> bool \<Rightarrow> net \<Rightarrow> net" where
  "resolve_done i ok n =
     (let x = connectors n i
      in if \<not> ok then notify (n_owner x) (SocketClose 0 (n_id x)) (upd_connector i (\<lambda>x. x\<lparr>n_state := Done\<rparr>) n)
         else upd_connector i (\<lambda>x. x\<lparr>n_state := Connecting\<rparr>) n)"

definition connect_done :: "obj \<Rightarrow> (string \<times> u16) option \<Rightarrow> net \<Rightarrow> net" where
  "connect_done i res n =
     (let x = connectors n i; n1 = upd_connector i (\<lambda>x. x\<lparr>n_state := Done\<rparr>) n
      in case res of
           None \<Rightarrow> notify (n_owner x) (SocketClose 0 (n_id x)) n1
         | Some (addr, port) \<Rightarrow>
             (let (c, n2) = make_connection (n_owner x) 0 (n_id x) n1;
                  n3 = do_read c (upd_connector i (\<lambda>x. x\<lparr>n_conn := Some c\<rparr>) n2)
              in notify (n_owner x) (SocketOpen (n_id x) addr port) n3))"

definition connector_send :: "obj \<Rightarrow> string \<Rightarrow> net \<Rightarrow> net" where
  "connector_send i d n = (case n_conn (connectors n i) of None \<Rightarrow> n | Some c \<Rightarrow> conn_send c d n)"

definition connector_close :: "obj \<Rightarrow> net \<Rightarrow> net" where
  "connector_close i n = (case n_conn (connectors n i) of None \<Rightarrow> n | Some c \<Rightarrow> conn_close c n)"

section \<open>UDP sockets\<close>

definition make_udp :: "u32 \<Rightarrow> i32 \<Rightarrow> bool \<Rightarrow> net \<Rightarrow> (obj \<times> net) option" where
  "make_udp owner_handle uid bound n =
     (if \<not> bound then None
      else Some (next_id n,
        n\<lparr>next_id := next_id n + 1,
          udps := (udps n)(next_id n := \<lparr>u_owner = owner_handle, u_id = uid, u_open = True,
            u_receiving = False, u_sent = []\<rparr>)\<rparr>))"

definition do_receive :: "obj \<Rightarrow> net \<Rightarrow> net" where
  "do_receive i = upd_udp i (\<lambda>u. u\<lparr>u_receiving := True\<rparr>)"

definition receive_done :: "obj \<Rightarrow> (string \<times> string \<times> u16) option \<Rightarrow> net \<Rightarrow> net" where
  "receive_done i res n =
     (let n1 = upd_udp i (\<lambda>u. u\<lparr>u_receiving := False\<rparr>) n; u = udps n1 i
      in case res of
           None \<Rightarrow> n1
         | Some (d, addr, port) \<Rightarrow> do_receive i (notify (u_owner u) (SocketUDP (u_id u) d addr port) n1))"

definition udp_stop :: "obj \<Rightarrow> net \<Rightarrow> net" where
  "udp_stop i = post (TaskStopUdp i)"

text \<open>\<open>send_to\<close>: \<open>make_address\<close> throws if the host is not a numeric address.\<close>

definition send_to :: "(string \<Rightarrow> bool) \<Rightarrow> obj \<Rightarrow> string \<Rightarrow> string \<Rightarrow> u16 \<Rightarrow> net \<Rightarrow> net option" where
  "send_to is_address i d host port n =
     (if \<not> is_address host then None
      else Some (upd_udp i (\<lambda>u. u\<lparr>u_sent := u_sent u @ [(d, host, port)]\<rparr>) n))"

end
