(* ===== verification/Network_Props.thy ===== *)
theory Network_Props
  imports Network
begin

text \<open>
  The invariant of TCP connections under every order of calls, tasks and completions: data is
  written in the order it was accepted, one write at a time, and \<open>pending_bytes_\<close> is exact.
\<close>

section \<open>Steps of the network layer\<close>

text \<open>
  A call from any thread, the next posted task, the completion of an operation in progress, or
  anything the rest of the runtime does to the actor system.
\<close>

text \<open>
  A call of \<open>send\<close>, by itself or through the listener or the connector of the connection.  The label is what has
  been sent on which connection.
\<close>

inductive net_call :: "(obj \<times> string) list \<Rightarrow> net \<Rightarrow> net \<Rightarrow> bool" where
  call_send: "i < next_id n \<Longrightarrow> net_call [(i, d)] n (conn_send i d n)"
| call_listener_send:
    "net_call (case get_connection l cid n of None \<Rightarrow> [] | Some c \<Rightarrow> [(c, d)]) n (listener_send l cid d n)"
| call_connector_send:
    "net_call (case n_conn (connectors n x) of None \<Rightarrow> [] | Some c \<Rightarrow> [(c, d)]) n (connector_send x d n)"

text \<open>Everything else: the other calls, tasks, and completions of asynchronous operations.\<close>

inductive net_event :: "net \<Rightarrow> net \<Rightarrow> bool" where
  net_close: "net_event n (conn_close i n)"
| net_pause: "net_event n (conn_pause i n)"
| net_resume: "net_event n (conn_resume i n)"
| net_shutdown_write: "net_event n (conn_shutdown_write i n)"
| net_close_connection: "net_event n (close_connection i cid n)"
| net_connector_close: "net_event n (connector_close i n)"
| net_listener_stop: "net_event n (listener_stop i n)"
| net_udp_stop: "net_event n (udp_stop i n)"
| net_make_listener: "make_listener h lid bound n = Some (i, n') \<Longrightarrow> net_event n n'"
| net_make_connector: "net_event n (snd (make_connector h n))"
| net_make_udp: "make_udp h uid bound n = Some (i, n') \<Longrightarrow> net_event n n'"
| net_do_accept: "i < next_id n \<Longrightarrow> \<not> l_accepting (listeners n i) \<Longrightarrow> net_event n (do_accept i n)"
| net_connector_start: "n_state (connectors n i) = Fresh \<Longrightarrow> net_event n (connector_start i n)"
| net_do_receive: "\<not> u_receiving (udps n i) \<Longrightarrow> net_event n (do_receive i n)"
| net_send_to: "send_to is_address i d host port n = Some n' \<Longrightarrow> net_event n n'"
| net_run_task: "\<not> terminated n \<Longrightarrow> net_event n (run_task n)"
| net_read_done: "\<not> terminated n \<Longrightarrow> c_reads (conns n i) > 0 \<Longrightarrow> net_event n (read_done i res n)"
| net_write_done: "\<not> terminated n \<Longrightarrow> c_writes (conns n i) > 0 \<Longrightarrow> net_event n (write_done i ok n)"
| net_accept_done: "\<not> terminated n \<Longrightarrow> l_accepting (listeners n i) \<Longrightarrow> net_event n (accept_done i ares n)"
| net_resolve_done: "\<not> terminated n \<Longrightarrow> n_state (connectors n i) = Resolving \<Longrightarrow> net_event n (resolve_done i ok n)"
| net_connect_done: "\<not> terminated n \<Longrightarrow> n_state (connectors n i) = Connecting \<Longrightarrow> net_event n (connect_done i cres n)"
| net_receive_done: "\<not> terminated n \<Longrightarrow> u_receiving (udps n i) \<Longrightarrow> net_event n (receive_done i ures n)"
| net_system: "net_event n (n\<lparr>sys := s\<rparr>)"

inductive net_step :: "net \<Rightarrow> net \<Rightarrow> bool" where
  net_by_call: "net_call ds n n' \<Longrightarrow> net_step n n'"
| net_by_event: "net_event n n' \<Longrightarrow> net_step n n'"

definition is_new_net :: "net \<Rightarrow> bool" where
  "is_new_net n \<longleftrightarrow> (\<exists>s. n = new_net s)"

section \<open>The invariant of a connection\<close>

definition conn_ok :: "tcp_connection \<Rightarrow> bool" where
  "conn_ok c \<longleftrightarrow>
     c_accepted c = c_written c @ c_write_queue c \<and>
     c_pending_bytes c = of_nat (sum_list (map length (c_write_queue c))) \<and>
     c_is_writing c = (c_write_queue c \<noteq> []) \<and>
     c_writes c = (if c_is_writing c \<and> \<not> c_failed c then 1 else 0) \<and>
     (c_failed c \<longrightarrow> c_is_writing c)"

text \<open>The part of a connection the invariant is about.\<close>

definition conn_view ::
    "tcp_connection \<Rightarrow> string list \<times> string list \<times> string list \<times> u64 \<times> bool \<times> nat \<times> bool" where
  "conn_view c = (c_accepted c, c_written c, c_write_queue c, c_pending_bytes c, c_is_writing c,
     c_writes c, c_failed c)"

lemma conn_ok_view: "conn_view c = conn_view c' \<Longrightarrow> conn_ok c = conn_ok c'"
  by (simp add: conn_view_def conn_ok_def)

definition conns_ok :: "net \<Rightarrow> bool" where
  "conns_ok n \<longleftrightarrow> (\<forall>i. conn_ok (conns n i))"

named_theorems net_simps

lemma conns_frames [net_simps]:
  "conns (notify h p n) = conns n" "conns (post t n) = conns n"
  "conns (upd_listener i f n) = conns n" "conns (upd_connector i g n) = conns n"
  "conns (upd_udp i k n) = conns n"
  "conns (upd_conn i u n) = (conns n)(i := u (conns n i))"
  by (simp_all add: notify_def post_def upd_listener_def upd_connector_def upd_udp_def upd_conn_def)

lemmas call_defs = conn_send_def conn_close_def conn_pause_def conn_resume_def conn_shutdown_write_def
  listener_stop_def udp_stop_def do_accept_def connector_start_def do_receive_def

lemma conns_ok_same: "conns n' = conns n \<Longrightarrow> conns_ok n \<Longrightarrow> conns_ok n'"
  by (simp add: conns_ok_def)

lemma conns_ok_upd: "conns_ok n \<Longrightarrow> conn_ok (f (conns n i)) \<Longrightarrow> conns_ok (upd_conn i f n)"
  by (simp add: conns_ok_def net_simps)

lemma conns_ok_frame:
  "conns_ok n \<Longrightarrow> conns_ok (notify h p n)" "conns_ok n \<Longrightarrow> conns_ok (upd_listener i f n)"
  "conns_ok n \<Longrightarrow> conns_ok (upd_connector i g n)" "conns_ok n \<Longrightarrow> conns_ok (upd_udp i k n)"
  "conns_ok n \<Longrightarrow> conns_ok (post t n)"
  by (simp_all add: conns_ok_def net_simps)

lemma conns_ok_view:
  "conns_ok n \<Longrightarrow> conn_view (f (conns n i)) = conn_view (conns n i) \<Longrightarrow> conns_ok (upd_conn i f n)"
  by (rule conns_ok_upd) (auto simp: conns_ok_def conn_ok_view [of "f (conns n i)" "conns n i"])

lemma conns_okD: "conns_ok n \<Longrightarrow> conn_ok (conns n i)"
  by (simp add: conns_ok_def)

lemma conns_ok_fun:
  "conns n' = (conns n)(i := c) \<Longrightarrow> conns_ok n \<Longrightarrow> conn_ok c \<Longrightarrow> conns_ok n'"
  by (simp add: conns_ok_def)

lemma conns_ok_fields:
  "conns_ok (n\<lparr>tasks := ts\<rparr>) = conns_ok n" "conns_ok (n\<lparr>sys := s\<rparr>) = conns_ok n"
  "conns_ok (n\<lparr>next_accepted_connection_id := k\<rparr>) = conns_ok n"
  "conns_ok (n\<lparr>terminated := b\<rparr>) = conns_ok n"
  by (simp_all add: conns_ok_def)

lemma do_read_ok: "conns_ok n \<Longrightarrow> conns_ok (do_read i n)"
  by (simp add: do_read_def conns_ok_view conn_view_def)

lemma read_done_ok: "conns_ok n \<Longrightarrow> conns_ok (read_done i res n)"
  by (auto simp: read_done_def Let_def conn_view_def
      intro!: do_read_ok conns_ok_frame conns_ok_view split: option.split)

text \<open>The effect of starting the next write on the connection alone.\<close>

definition next_write :: "tcp_connection \<Rightarrow> tcp_connection" where
  "next_write c = (if c_write_queue c = [] then c\<lparr>c_is_writing := False\<rparr>
     else c\<lparr>c_is_writing := True, c_writes := c_writes c + 1\<rparr>)"

lemma conns_do_write: "conns (do_write i n) = (conns n)(i := next_write (conns n i))"
  by (simp add: do_write_def next_write_def net_simps)

lemma write_done_ok:
  assumes "conns_ok n" and "c_writes (conns n i) > 0"
  shows "conns_ok (write_done i ok n)"
proof -
  note c = conns_okD [OF assms(1), of i]
  with assms(2) obtain d ds where q: "c_write_queue (conns n i) = d # ds" "c_writes (conns n i) = 1"
      "\<not> c_failed (conns n i)"
    by (cases "c_write_queue (conns n i)") (auto simp: conn_ok_def split: if_splits)
  let ?c = "if ok then next_write ((conns n i)\<lparr>c_writes := 0, c_pending_bytes := c_pending_bytes (conns n i) -
        of_nat (length d), c_warned := False, c_written := c_written (conns n i) @ [d], c_write_queue := ds\<rparr>)
      else (conns n i)\<lparr>c_writes := 0, c_failed := True\<rparr>"
  show ?thesis
  proof (rule conns_ok_fun [OF _ assms(1)])
    show "conns (write_done i ok n) = (conns n)(i := ?c)"
      using q by (simp add: write_done_def Let_def net_simps conns_do_write)
    have "c_pending_bytes (conns n i) = of_nat (sum_list (map length (d # ds)))"
      and acc: "c_accepted (conns n i) = c_written (conns n i) @ d # ds"
      using c q(1) by (simp_all only: conn_ok_def)
    then have e: "c_pending_bytes (conns n i) - of_nat (length d) = of_nat (sum_list (map length ds))"
      by (simp only: list.map sum_list.Cons of_nat_add add_diff_cancel_left')
    have "conn_ok (next_write ((conns n i)\<lparr>c_writes := 0, c_pending_bytes := c_pending_bytes (conns n i) -
        of_nat (length d), c_warned := False, c_written := c_written (conns n i) @ [d], c_write_queue := ds\<rparr>))"
      unfolding e using acc q(3) by (simp add: conn_ok_def next_write_def)
    moreover have "conn_ok ((conns n i)\<lparr>c_writes := 0, c_failed := True\<rparr>)"
      using c q(1) unfolding conn_ok_def by auto
    ultimately show "conn_ok ?c" by simp
  qed
qed

lemma conns_check_send_warning:
  "\<exists>b. conns (check_send_warning i n) = (conns n)(i := (conns n i)\<lparr>c_warned := b\<rparr>)"
proof (cases "\<not> c_warned (conns n i) \<and> c_pending_bytes (conns n i) \<ge> SEND_BUFFER_WARNING")
  case True
  then have "conns (check_send_warning i n) = (conns n)(i := (conns n i)\<lparr>c_warned := True\<rparr>)"
    by (simp add: check_send_warning_def Let_def net_simps)
  then show ?thesis ..
next
  case False
  then have "conns (check_send_warning i n) = (conns n)(i := (conns n i)\<lparr>c_warned := c_warned (conns n i)\<rparr>)"
    by (auto simp: check_send_warning_def Let_def)
  then show ?thesis ..
qed

text \<open>What \<open>send\<close> does to its connection, up to the warning flag.\<close>

definition enqueue_write :: "string \<Rightarrow> bool \<Rightarrow> tcp_connection \<Rightarrow> tcp_connection" where
  "enqueue_write d warn c =
     (let c1 = c\<lparr>c_pending_bytes := c_pending_bytes c + of_nat (length d),
        c_write_queue := c_write_queue c @ [d], c_accepted := c_accepted c @ [d], c_warned := warn\<rparr>
      in if c_is_writing c then c1 else next_write c1)"

lemma conns_send_task:
  "\<exists>b. conns (send_task i d n) = (conns n)(i := enqueue_write d b (conns n i))"
proof -
  let ?n1 = "upd_conn i (\<lambda>c. c\<lparr>c_pending_bytes := c_pending_bytes c + of_nat (length d),
      c_write_queue := c_write_queue c @ [d], c_accepted := c_accepted c @ [d]\<rparr>) n"
  obtain b where "conns (check_send_warning i ?n1) = (conns ?n1)(i := (conns ?n1 i)\<lparr>c_warned := b\<rparr>)"
    using conns_check_send_warning by blast
  then have "conns (send_task i d n) = (conns n)(i := enqueue_write d b (conns n i))"
    by (simp add: send_task_def Let_def net_simps conns_do_write next_write_def enqueue_write_def)
  then show ?thesis ..
qed

lemma send_task_ok:
  assumes "conns_ok n"
  shows "conns_ok (send_task i d n)"
proof -
  obtain b where "conns (send_task i d n) = (conns n)(i := enqueue_write d b (conns n i))"
    using conns_send_task by blast
  moreover have "conn_ok (enqueue_write d b (conns n i))"
    using conns_okD [OF assms, of i] by (auto simp: conn_ok_def enqueue_write_def next_write_def Let_def)
  ultimately show ?thesis by (rule conns_ok_fun [OF _ assms])
qed

lemma make_connection_ok:
  assumes "make_connection h lid cid n = (c, n')" and "conns_ok n"
  shows "conns_ok n'"
proof (rule conns_ok_fun [OF _ assms(2)])
  show "conns n' = (conns n)(next_id n := new_connection h lid cid)"
    using assms(1) by (auto simp: make_connection_def)
  show "conn_ok (new_connection h lid cid)" by (simp add: new_connection_def conn_ok_def)
qed

lemma exec_task_ok: "conns_ok n \<Longrightarrow> conns_ok (exec_task t n)"
  by (cases t) (auto simp: resume_task_def conn_view_def
      intro!: send_task_ok do_read_ok conns_ok_view conns_ok_frame)

lemma run_task_ok: "conns_ok n \<Longrightarrow> conns_ok (run_task n)"
  by (auto simp: run_task_def conns_ok_fields intro!: exec_task_ok split: list.split)

lemma accept_done_ok: "conns_ok n \<Longrightarrow> conns_ok (accept_done i res n)"
  by (auto simp: accept_done_def Let_def do_accept_def conns_ok_fields split: accept_result.split prod.split
      intro!: conns_ok_frame do_read_ok elim!: make_connection_ok)

lemma connect_done_ok: "conns_ok n \<Longrightarrow> conns_ok (connect_done i res n)"
  by (auto simp: connect_done_def Let_def split: option.split prod.split
      intro!: conns_ok_frame do_read_ok elim!: make_connection_ok)

lemma net_call_conns: "net_call ds n n' \<Longrightarrow> conns n' = conns n"
  by (cases rule: net_call.cases) (auto simp: conn_send_def listener_send_def connector_send_def net_simps
      split: option.split)

lemma net_event_ok:
  assumes "conns_ok n" and "net_event n n'"
  shows "conns_ok n'"
  using assms(2,1)
proof cases
  case (net_write_done i ok)
  then show ?thesis using assms(1) by (simp add: write_done_ok)
qed (auto simp: call_defs close_connection_def connector_close_def
    make_listener_def make_connector_def make_udp_def send_to_def resolve_done_def receive_done_def Let_def
    conns_ok_fields split: if_splits option.splits
    intro: conns_ok_frame read_done_ok run_task_ok accept_done_ok connect_done_ok
    conns_ok_same [rotated])

lemma net_step_ok: "conns_ok n \<Longrightarrow> net_step n n' \<Longrightarrow> conns_ok n'"
  by (erule net_step.cases) (blast intro: net_event_ok conns_ok_same [OF net_call_conns])+

lemma new_net_ok: "is_new_net n \<Longrightarrow> conns_ok n"
  by (auto simp: is_new_net_def new_net_def conns_ok_def conn_ok_def)

interpretation tcp: invariant_system is_new_net net_step conns_ok
  by unfold_locales (rule new_net_ok, assumption, rule net_step_ok)

end
