(* ===== verification/Socket_Store.thy ===== *)
theory Socket_Store
  imports Network_Props
begin

text \<open>
  The \<open>socketdriver\<close> module of a Lua actor, \<open>src/src/lua_socket_binding.cpp\<close>: the per-actor table of
  sockets and the operations on it.  Arguments are the values \<open>luaL_checkinteger\<close> and
  \<open>luaL_checkstring\<close> return (64-bit integers and strings); the failed checks raise before anything
  has changed.  Whether a port can be bound and whether a host is a numeric address are functions
  of the environment.
\<close>

section \<open>State\<close>

datatype socket_entry = LISTENER obj | CONNECTOR obj | UDP obj

record socket_store =
  sockets :: "i32 \<rightharpoonup> socket_entry"
  store_next_id :: i32

text \<open>The actor and the store in the registry of the Lua state, and the network layer.\<close>

record socket_state =
  sk_actor :: "u32 option"
  sk_store :: "socket_store option"
  sk_net :: net

datatype socket_result = NoContext | Throws | RInt i32 | RBool bool | RNone

definition new_store :: socket_store where
  "new_store = \<lparr>sockets = Map.empty, store_next_id = 1\<rparr>"

definition luaopen_socketdriver :: "socket_state \<Rightarrow> socket_state" where
  "luaopen_socketdriver s = (case sk_store s of None \<Rightarrow> s\<lparr>sk_store := Some new_store\<rparr> | Some st \<Rightarrow> s)"

definition alloc_id :: "socket_store \<Rightarrow> i32 \<times> socket_store" where
  "alloc_id st = (store_next_id st, st\<lparr>store_next_id := store_next_id st + 1\<rparr>)"

definition put_entry :: "i32 \<Rightarrow> socket_entry \<Rightarrow> socket_store \<Rightarrow> socket_store" where
  "put_entry i e st = st\<lparr>sockets := (sockets st)(i \<mapsto> e)\<rparr>"

definition find_listener :: "socket_store \<Rightarrow> i32 \<Rightarrow> obj option" where
  "find_listener st i = (case sockets st i of Some (LISTENER l) \<Rightarrow> Some l | _ \<Rightarrow> None)"

definition find_connector :: "socket_store \<Rightarrow> i32 \<Rightarrow> obj option" where
  "find_connector st i = (case sockets st i of Some (CONNECTOR x) \<Rightarrow> Some x | _ \<Rightarrow> None)"

definition find_udp :: "socket_store \<Rightarrow> i32 \<Rightarrow> obj option" where
  "find_udp st i = (case sockets st i of Some (UDP u) \<Rightarrow> Some u | _ \<Rightarrow> None)"

section \<open>Operations\<close>

definition llisten ::
    "(string \<Rightarrow> u16 \<Rightarrow> bool) \<Rightarrow> string \<Rightarrow> u64 \<Rightarrow> socket_state \<Rightarrow> socket_result \<times> socket_state" where
  "llisten can_bind host port s =
     (case (sk_actor s, sk_store s) of
        (Some h, Some st) \<Rightarrow>
          (let (i, st1) = alloc_id st
           in case make_listener h i (can_bind host (ucast (ucast port :: i32))) (sk_net s) of
                None \<Rightarrow> (Throws, s\<lparr>sk_store := Some st1\<rparr>)
              | Some (l, n1) \<Rightarrow>
                  (RInt i, s\<lparr>sk_store := Some (put_entry i (LISTENER l) st1), sk_net := do_accept l n1\<rparr>))
      | _ \<Rightarrow> (NoContext, s))"

definition lconnect :: "string \<Rightarrow> u64 \<Rightarrow> socket_state \<Rightarrow> socket_result \<times> socket_state" where
  "lconnect host port s =
     (case (sk_actor s, sk_store s) of
        (Some h, Some st) \<Rightarrow>
          (let (x, n1) = make_connector h (sk_net s);
               i = n_id (connectors n1 x);
               n2 = connector_start x n1
           in (RInt i, s\<lparr>sk_store := Some (put_entry i (CONNECTOR x) st), sk_net := n2\<rparr>))
      | _ \<Rightarrow> (NoContext, s))"

definition lsocketsend :: "u64 \<Rightarrow> string \<Rightarrow> socket_state \<Rightarrow> socket_result \<times> socket_state" where
  "lsocketsend i d s =
     (case sk_store s of
        None \<Rightarrow> (NoContext, s)
      | Some st \<Rightarrow>
          (case find_connector st (ucast i) of
             Some x \<Rightarrow> (RBool True, s\<lparr>sk_net := connector_send x d (sk_net s)\<rparr>)
           | None \<Rightarrow> (RBool False, s)))"

definition lwrite :: "u64 \<Rightarrow> u64 \<Rightarrow> string \<Rightarrow> socket_state \<Rightarrow> socket_result \<times> socket_state" where
  "lwrite lid cid d s =
     (case sk_store s of
        None \<Rightarrow> (NoContext, s)
      | Some st \<Rightarrow>
          (case find_listener st (ucast lid) of
             None \<Rightarrow> (RBool False, s)
           | Some l \<Rightarrow> (RBool True, s\<lparr>sk_net := listener_send l (ucast cid) d (sk_net s)\<rparr>)))"

definition lclose :: "u64 \<Rightarrow> u64 option \<Rightarrow> socket_state \<Rightarrow> socket_result \<times> socket_state" where
  "lclose i cid s =
     (case sk_store s of
        None \<Rightarrow> (NoContext, s)
      | Some st \<Rightarrow>
          (case cid of
             Some c \<Rightarrow>
               (case find_listener st (ucast i) of
                  Some l \<Rightarrow> (RNone, s\<lparr>sk_net := close_connection l (ucast c) (sk_net s)\<rparr>)
                | None \<Rightarrow> (RNone, s))
           | None \<Rightarrow>
               (case sockets st (ucast i) of
                  None \<Rightarrow> (RNone, s)
                | Some e \<Rightarrow>
                    (let s1 = s\<lparr>sk_store := Some (st\<lparr>sockets := (sockets st)(ucast i := None)\<rparr>)\<rparr>
                     in (RNone, s1\<lparr>sk_net :=
                          (case e of LISTENER l \<Rightarrow> listener_stop l (sk_net s1)
                           | CONNECTOR x \<Rightarrow> connector_close x (sk_net s1)
                           | UDP u \<Rightarrow> udp_stop u (sk_net s1))\<rparr>)))))"

definition on_connection ::
    "(obj \<Rightarrow> net \<Rightarrow> net) \<Rightarrow> u64 \<Rightarrow> u64 \<Rightarrow> socket_state \<Rightarrow> socket_result \<times> socket_state" where
  "on_connection f lid cid s =
     (case sk_store s of
        None \<Rightarrow> (NoContext, s)
      | Some st \<Rightarrow>
          (case find_listener st (ucast lid) of
             None \<Rightarrow> (RNone, s)
           | Some l \<Rightarrow>
               (case get_connection l (ucast cid) (sk_net s) of
                  None \<Rightarrow> (RNone, s)
                | Some c \<Rightarrow> (RNone, s\<lparr>sk_net := f c (sk_net s)\<rparr>))))"

definition lpause :: "u64 \<Rightarrow> u64 \<Rightarrow> socket_state \<Rightarrow> socket_result \<times> socket_state" where
  "lpause = on_connection conn_pause"

definition lresume :: "u64 \<Rightarrow> u64 \<Rightarrow> socket_state \<Rightarrow> socket_result \<times> socket_state" where
  "lresume = on_connection conn_resume"

definition ludp ::
    "(string \<Rightarrow> u16 \<Rightarrow> bool) \<Rightarrow> string \<Rightarrow> u64 \<Rightarrow> socket_state \<Rightarrow> socket_result \<times> socket_state" where
  "ludp can_bind host port s =
     (case (sk_actor s, sk_store s) of
        (Some h, Some st) \<Rightarrow>
          (let (i, st1) = alloc_id st
           in case make_udp h i (can_bind host (ucast (ucast port :: i32))) (sk_net s) of
                None \<Rightarrow> (Throws, s\<lparr>sk_store := Some st1\<rparr>)
              | Some (u, n1) \<Rightarrow>
                  (RInt i, s\<lparr>sk_store := Some (put_entry i (UDP u) st1), sk_net := do_receive u n1\<rparr>))
      | _ \<Rightarrow> (NoContext, s))"

definition ludp_send ::
    "(string \<Rightarrow> bool) \<Rightarrow> u64 \<Rightarrow> string \<Rightarrow> string \<Rightarrow> u64 \<Rightarrow> socket_state \<Rightarrow> socket_result \<times> socket_state" where
  "ludp_send is_address i d host port s =
     (case sk_store s of
        None \<Rightarrow> (NoContext, s)
      | Some st \<Rightarrow>
          (case find_udp st (ucast i) of
             None \<Rightarrow> (RNone, s)
           | Some u \<Rightarrow>
               (case send_to is_address u d host (ucast (ucast port :: i32)) (sk_net s) of
                  None \<Rightarrow> (Throws, s)
                | Some n \<Rightarrow> (RNone, s\<lparr>sk_net := n\<rparr>))))"

text \<open>What \<open>unpackevent\<close> pushes: the tag, integers and strings of the event.\<close>

datatype event_value = EInt int | EStr string

fun lunpack_event :: "payload option \<Rightarrow> event_value list" where
  "lunpack_event (Some (SocketAccept lid cid addr port)) =
     [EStr ''accept'', EInt (sint lid), EInt (sint cid), EStr addr, EInt (uint port)]"
| "lunpack_event (Some (SocketData lid cid d)) = [EStr ''data'', EInt (sint lid), EInt (sint cid), EStr d]"
| "lunpack_event (Some (SocketClose lid cid)) = [EStr ''close'', EInt (sint lid), EInt (sint cid)]"
| "lunpack_event (Some (SocketOpen cid addr port)) =
     [EStr ''open'', EInt (sint cid), EStr addr, EInt (uint port)]"
| "lunpack_event (Some (SocketWarning lid cid n)) =
     [EStr ''warning'', EInt (sint lid), EInt (sint cid), EInt (sint n)]"
| "lunpack_event (Some (SocketUDP i d addr port)) =
     [EStr ''udp'', EInt (sint i), EStr addr, EInt (uint port), EStr d]"
| "lunpack_event _ = [EStr ''unknown'']"

end
