(* ===== verification/Socket_Props.thy ===== *)
theory Socket_Props
  imports Socket_Store
begin

text \<open>
  The sockets of an actor: every entry of its table leads to an object that reports to the actor
  under the identifier of the entry, whatever the network layer does in between.
\<close>

section \<open>Identities are stable\<close>

definition conn_ident :: "tcp_connection \<Rightarrow> u32 \<times> i32 \<times> i32" where
  "conn_ident c = (c_owner c, c_listener_id c, c_id c)"

definition same_ids :: "net \<Rightarrow> net \<Rightarrow> bool" where
  "same_ids n n' \<longleftrightarrow> next_id n \<le> next_id n' \<and>
     (\<forall>i < next_id n. conn_ident (conns n' i) = conn_ident (conns n i) \<and>
        l_owner (listeners n' i) = l_owner (listeners n i) \<and> l_id (listeners n' i) = l_id (listeners n i) \<and>
        n_owner (connectors n' i) = n_owner (connectors n i) \<and> n_id (connectors n' i) = n_id (connectors n i) \<and>
        u_owner (udps n' i) = u_owner (udps n i) \<and> u_id (udps n' i) = u_id (udps n i))"

text \<open>The connections a listener or a connector knows carry its owner and identifiers.\<close>

definition links_ok :: "net \<Rightarrow> bool" where
  "links_ok n \<longleftrightarrow>
     (\<forall>l cid c. l_connections (listeners n l) cid = Some c \<longrightarrow>
        l < next_id n \<and> c < next_id n \<and>
        conn_ident (conns n c) = (l_owner (listeners n l), l_id (listeners n l), cid)) \<and>
     (\<forall>x c. n_conn (connectors n x) = Some c \<longrightarrow>
        x < next_id n \<and> c < next_id n \<and>
        conn_ident (conns n c) = (n_owner (connectors n x), 0, n_id (connectors n x))) \<and>
     (\<forall>x. n_state (connectors n x) \<noteq> Done \<longrightarrow> x < next_id n) \<and>
     (\<forall>l. l_accepting (listeners n l) \<longrightarrow> l < next_id n)"

lemma same_ids_refl [simp]: "same_ids n n"
  by (simp add: same_ids_def)

lemma same_ids_trans:
  assumes a: "same_ids n n'" and b: "same_ids n' n''"
  shows "same_ids n n''"
proof -
  have le: "next_id n \<le> next_id n'" "next_id n' \<le> next_id n''" using a b by (simp_all add: same_ids_def)
  have "i < next_id n'" if "i < next_id n" for i using that le by simp
  with a b le show ?thesis by (simp add: same_ids_def)
qed

text \<open>An update that leaves the identifying fields and the links alone.\<close>

definition quiet :: "net \<Rightarrow> net \<Rightarrow> bool" where
  "quiet n n' \<longleftrightarrow> next_id n' = next_id n \<and>
     (\<forall>i. conn_ident (conns n' i) = conn_ident (conns n i) \<and>
        l_owner (listeners n' i) = l_owner (listeners n i) \<and> l_id (listeners n' i) = l_id (listeners n i) \<and>
        l_connections (listeners n' i) \<subseteq>\<^sub>m l_connections (listeners n i) \<and>
        (l_accepting (listeners n' i) \<longrightarrow> l_accepting (listeners n i) \<or> i < next_id n) \<and>
        n_owner (connectors n' i) = n_owner (connectors n i) \<and> n_id (connectors n' i) = n_id (connectors n i) \<and>
        n_conn (connectors n' i) = n_conn (connectors n i) \<and>
        (n_state (connectors n' i) \<noteq> Done \<longrightarrow> n_state (connectors n i) \<noteq> Done) \<and>
        u_owner (udps n' i) = u_owner (udps n i) \<and> u_id (udps n' i) = u_id (udps n i))"

lemma quiet_refl [simp]: "quiet n n"
  by (simp add: quiet_def)

lemma quiet_trans: "quiet n n' \<Longrightarrow> quiet n' n'' \<Longrightarrow> quiet n n''"
  unfolding quiet_def using map_le_trans by (simp, blast)

lemma quiet_same_ids: "quiet n n' \<Longrightarrow> same_ids n n'"
  by (simp add: quiet_def same_ids_def)

lemma quiet_links: "quiet n n' \<Longrightarrow> links_ok n \<Longrightarrow> links_ok n'"
  unfolding quiet_def links_ok_def by (auto simp: map_le_def) (metis domI)+

text \<open>Rules that peel one update after the other off the final state.\<close>

lemma quiet_basic:
  "quiet n m \<Longrightarrow> quiet n (notify h p m)" "quiet n m \<Longrightarrow> quiet n (post t m)"
  "quiet n m \<Longrightarrow> quiet n (m\<lparr>tasks := ts\<rparr>)" "quiet n m \<Longrightarrow> quiet n (m\<lparr>sys := s\<rparr>)"
  "quiet n m \<Longrightarrow> quiet n (m\<lparr>next_accepted_connection_id := k\<rparr>)"
  "quiet n m \<Longrightarrow> quiet n (m\<lparr>terminated := b\<rparr>)"
  by (simp_all add: quiet_def notify_def post_def)

lemma quiet_conn: "quiet n m \<Longrightarrow> (\<And>c. conn_ident (f c) = conn_ident c) \<Longrightarrow> quiet n (upd_conn i f m)"
  by (simp add: quiet_def upd_conn_def)

lemma quiet_udp:
  "quiet n m \<Longrightarrow> (\<And>u. u_owner (f u) = u_owner u \<and> u_id (f u) = u_id u) \<Longrightarrow> quiet n (upd_udp i f m)"
  by (simp add: quiet_def upd_udp_def)

lemma quiet_listener:
  assumes "quiet n m" and "\<And>l. l_owner (f l) = l_owner l \<and> l_id (f l) = l_id l \<and>
      l_connections (f l) \<subseteq>\<^sub>m l_connections l \<and> (l_accepting (f l) \<longrightarrow> l_accepting l)"
  shows "quiet n (upd_listener i f m)"
  by (rule quiet_trans [OF assms(1)]) (use assms(2) in \<open>simp add: quiet_def upd_listener_def\<close>)

lemma quiet_do_read: "quiet n m \<Longrightarrow> quiet n (do_read i m)"
  by (simp add: do_read_def quiet_conn conn_ident_def)

lemma quiet_do_write: "quiet n m \<Longrightarrow> quiet n (do_write i m)"
  by (simp add: do_write_def quiet_conn conn_ident_def)

lemma quiet_check_send_warning: "quiet n m \<Longrightarrow> quiet n (check_send_warning i m)"
  by (simp add: check_send_warning_def Let_def quiet_basic quiet_conn conn_ident_def)

lemma quiet_read_done: "quiet n (read_done i res n)"
  by (cases res) (simp_all add: read_done_def Let_def quiet_basic quiet_do_read quiet_conn conn_ident_def)

lemma quiet_write_done: "quiet n (write_done i ok n)"
  by (simp add: write_done_def Let_def quiet_basic quiet_do_write quiet_conn conn_ident_def)

lemma quiet_send_task: "quiet n m \<Longrightarrow> quiet n (send_task i d m)"
  by (simp add: send_task_def Let_def quiet_check_send_warning quiet_do_write quiet_conn conn_ident_def)

lemma quiet_exec_task: "quiet n m \<Longrightarrow> quiet n (exec_task t m)"
  by (cases t) (simp_all add: resume_task_def quiet_send_task quiet_conn quiet_do_read quiet_listener quiet_udp
      conn_ident_def)

lemma quiet_run_task: "quiet n (run_task n)"
  by (simp add: run_task_def quiet_exec_task quiet_basic split: list.split)

lemma quiet_do_accept: "quiet n m \<Longrightarrow> i < next_id m \<Longrightarrow> quiet n (do_accept i m)"
  by (simp add: quiet_def do_accept_def upd_listener_def)

lemma quiet_do_receive: "quiet n m \<Longrightarrow> quiet n (do_receive i m)"
  by (simp add: do_receive_def quiet_udp)

lemma quiet_receive_done: "quiet n (receive_done i res n)"
  by (cases res) (auto simp: receive_done_def Let_def quiet_do_receive quiet_basic quiet_udp split: prod.split)

lemma quiet_connector:
  assumes "quiet n m" and "n_state (connectors m i) \<noteq> Done \<or> n_state (f (connectors m i)) = Done"
    and "\<And>x. n_owner (f x) = n_owner x \<and> n_id (f x) = n_id x \<and> n_conn (f x) = n_conn x"
  shows "quiet n (upd_connector i f m)"
  by (rule quiet_trans [OF assms(1)]) (use assms(2,3) in \<open>auto simp: quiet_def upd_connector_def\<close>)

lemma quiet_calls:
  "quiet n (listener_send i cid d n)" "quiet n (close_connection i cid n)"
  "quiet n (connector_send i d n)" "quiet n (connector_close i n)"
  by (auto simp: listener_send_def close_connection_def connector_send_def connector_close_def call_defs
      quiet_basic quiet_listener map_le_def split: option.split)

lemma next_id_frames [simp]:
  "next_id (notify h p n) = next_id n" "next_id (do_read i n) = next_id n"
  "next_id (upd_listener i f n) = next_id n"
  by (simp_all add: notify_def do_read_def upd_conn_def upd_listener_def)

text \<open>New objects.\<close>

lemma make_listener_ids:
  assumes "make_listener h lid bound n = Some (l, n')" and "links_ok n"
  shows "links_ok n'" and "same_ids n n'"
  using assms by (auto simp: make_listener_def links_ok_def same_ids_def less_Suc_eq split: if_splits)

lemma make_udp_ids:
  assumes "make_udp h uid bound n = Some (u, n')" and "links_ok n"
  shows "links_ok n'" and "same_ids n n'"
  using assms by (auto simp: make_udp_def links_ok_def same_ids_def less_Suc_eq split: if_splits)

lemma make_connector_ids:
  assumes "links_ok n"
  shows "links_ok (snd (make_connector h n))" and "same_ids n (snd (make_connector h n))"
  using assms by (auto simp: make_connector_def links_ok_def same_ids_def less_Suc_eq)

lemma links_grow:
  assumes "links_ok n" and "same_ids n n'" and "listeners n' = listeners n" and "connectors n' = connectors n"
  shows "links_ok n'"
proof -
  have c: "i < next_id n'" "conn_ident (conns n' i) = conn_ident (conns n i)" if "i < next_id n" for i
    using assms(2) that by (simp_all add: same_ids_def)
  note l = assms(1) [unfolded links_ok_def]
  show ?thesis
    unfolding links_ok_def assms(3,4) using l c by (intro conjI allI impI) (blast+, simp+)
qed

lemma make_connection_ids:
  assumes "make_connection h lid cid n = (c, n')" and "links_ok n"
  shows "links_ok n'" "same_ids n n'" "c < next_id n'" "conn_ident (conns n' c) = (h, lid, cid)"
    "listeners n' = listeners n" "connectors n' = connectors n" "next_id n \<le> next_id n'"
proof -
  show "same_ids n n'" "listeners n' = listeners n" "connectors n' = connectors n"
    using assms(1) by (auto simp: make_connection_def same_ids_def)
  then show "links_ok n'" by (rule links_grow [OF assms(2)])
qed (use assms(1) in \<open>auto simp: make_connection_def new_connection_def conn_ident_def\<close>)

lemma link_listener:
  assumes "links_ok n" and "i < next_id n" and "c < next_id n"
    and "conn_ident (conns n c) = (l_owner (listeners n i), l_id (listeners n i), cid)"
  shows "links_ok (upd_listener i (\<lambda>l. l\<lparr>l_connections := (l_connections l)(cid \<mapsto> c)\<rparr>) n)"
    and "same_ids n (upd_listener i (\<lambda>l. l\<lparr>l_connections := (l_connections l)(cid \<mapsto> c)\<rparr>) n)"
  using assms unfolding links_ok_def by (simp_all add: upd_listener_def same_ids_def)

lemma link_connector:
  assumes "links_ok n" and "i < next_id n" and "c < next_id n"
    and "conn_ident (conns n c) = (n_owner (connectors n i), 0, n_id (connectors n i))"
  shows "links_ok (upd_connector i (\<lambda>x. x\<lparr>n_conn := Some c\<rparr>) n)"
    and "same_ids n (upd_connector i (\<lambda>x. x\<lparr>n_conn := Some c\<rparr>) n)"
  using assms unfolding links_ok_def by (simp_all add: upd_connector_def same_ids_def)

text \<open>Every step keeps the links and the identities.\<close>

lemma accept_done_ids:
  assumes "links_ok n" and "i < next_id n"
  shows "links_ok (accept_done i res n) \<and> same_ids n (accept_done i res n)"
proof -
  let ?n1 = "upd_listener i (\<lambda>l. l\<lparr>l_accepting := False\<rparr>) n"
  have q1: "quiet n ?n1" by (simp add: quiet_listener)
  show ?thesis
  proof (cases res)
    case (Accepted addr port)
    let ?n2 = "?n1\<lparr>next_accepted_connection_id := next_accepted_connection_id ?n1 + 1\<rparr>"
    have q2: "quiet n ?n2" using q1 by (rule quiet_basic)
    obtain c n3 where m: "make_connection (l_owner (listeners ?n2 i)) (l_id (listeners ?n2 i))
        (next_accepted_connection_id ?n1) ?n2 = (c, n3)" by fastforce
    note ids = make_connection_ids [OF m quiet_links [OF q2 assms(1)]]
    let ?n4 = "upd_listener i (\<lambda>l. l\<lparr>l_connections := (l_connections l)(next_accepted_connection_id ?n1 \<mapsto> c)\<rparr>) n3"
    have i3: "i < next_id n3" using ids(7) q2 assms(2) by (simp add: quiet_def)
    have l4: "links_ok ?n4" "same_ids n3 ?n4"
      using link_listener [OF ids(1) i3 ids(3)] ids(4,5) by simp_all
    have "quiet ?n4 (accept_done i res n)"
      using Accepted m i3 by (simp add: accept_done_def Let_def quiet_do_accept quiet_basic quiet_do_read)
    then show ?thesis
      using quiet_links [OF _ l4(1)] quiet_same_ids same_ids_trans [OF quiet_same_ids [OF q2]] ids(2) l4(2)
        same_ids_trans by blast
  qed (use q1 assms(1) in \<open>auto simp: accept_done_def Let_def intro: quiet_links quiet_same_ids quiet_basic\<close>)
qed

lemma connect_done_ids:
  assumes "links_ok n" and "i < next_id n"
  shows "links_ok (connect_done i res n) \<and> same_ids n (connect_done i res n)"
proof -
  let ?n1 = "upd_connector i (\<lambda>x. x\<lparr>n_state := Done\<rparr>) n"
  have q1: "quiet n ?n1" by (simp add: quiet_connector)
  show ?thesis
  proof (cases res)
    case None
    then have "quiet n (connect_done i res n)" using q1 by (simp add: connect_done_def Let_def quiet_basic)
    then show ?thesis using assms(1) quiet_links quiet_same_ids by blast
  next
    case (Some r)
    obtain addr port where r: "r = (addr, port)" by fastforce
    obtain c n2 where m: "make_connection (n_owner (connectors ?n1 i)) 0 (n_id (connectors ?n1 i)) ?n1 = (c, n2)"
      by fastforce
    note ids = make_connection_ids [OF m quiet_links [OF q1 assms(1)]]
    let ?n3 = "upd_connector i (\<lambda>x. x\<lparr>n_conn := Some c\<rparr>) n2"
    have i2: "i < next_id n2" using ids(7) q1 assms(2) by (simp add: quiet_def)
    have l3: "links_ok ?n3" "same_ids n2 ?n3"
      using link_connector [OF ids(1) i2 ids(3)] ids(4,6) by simp_all
    have "quiet ?n3 (connect_done i res n)"
      using Some r m by (simp add: connect_done_def Let_def upd_connector_def quiet_basic quiet_do_read)
    then show ?thesis
      using quiet_links [OF _ l3(1)] quiet_same_ids same_ids_trans [OF quiet_same_ids [OF q1]] ids(2) l3(2)
        same_ids_trans by blast
  qed
qed

lemma quiet_ids: "quiet n n' \<Longrightarrow> links_ok n \<Longrightarrow> links_ok n' \<and> same_ids n n'"
  using quiet_links quiet_same_ids by blast

lemma net_event_ids:
  assumes "links_ok n" and "net_event n n'"
  shows "links_ok n' \<and> same_ids n n'"
  using assms(2,1)
proof cases
  case (net_make_listener h lid bound i)
  then show ?thesis using make_listener_ids assms(1) by blast
next
  case (net_make_connector h)
  then show ?thesis using make_connector_ids [OF assms(1)] by blast
next
  case (net_make_udp h uid bound i)
  then show ?thesis using make_udp_ids assms(1) by blast
next
  case (net_accept_done i ares)
  then show ?thesis using accept_done_ids [OF assms(1)] assms(1) by (simp add: links_ok_def)
next
  case (net_connect_done i cres)
  then show ?thesis using connect_done_ids [OF assms(1)] assms(1) by (simp add: links_ok_def)
next
  case (net_connector_start i)
  then show ?thesis using quiet_ids [OF _ assms(1)] by (simp add: connector_start_def quiet_connector)
next
  case (net_resolve_done i ok)
  then show ?thesis
    using quiet_ids [OF _ assms(1)] by (simp add: resolve_done_def Let_def quiet_basic quiet_connector)
next
  case (net_send_to is_address i d host port)
  then show ?thesis
    using quiet_ids [OF _ assms(1)] by (auto simp: send_to_def quiet_udp split: if_splits)
qed (auto intro!: quiet_ids quiet_basic quiet_calls quiet_do_accept quiet_do_receive quiet_run_task
    quiet_read_done quiet_write_done quiet_receive_done simp: conn_close_def conn_pause_def
    conn_resume_def conn_shutdown_write_def listener_stop_def udp_stop_def)

lemma net_call_quiet: "net_call ds n n' \<Longrightarrow> quiet n n'"
  by (erule net_call.cases) (auto intro!: quiet_calls quiet_basic simp: conn_send_def)

lemma net_step_ids: "links_ok n \<Longrightarrow> net_step n n' \<Longrightarrow> links_ok n' \<and> same_ids n n'"
  by (erule net_step.cases) (auto dest: net_event_ids net_call_quiet intro: quiet_links quiet_same_ids)

section \<open>The table of sockets\<close>

definition entry_ok :: "net \<Rightarrow> u32 \<Rightarrow> i32 \<Rightarrow> socket_entry \<Rightarrow> bool" where
  "entry_ok n h i e \<longleftrightarrow>
     (case e of
        LISTENER l \<Rightarrow> l < next_id n \<and> l_owner (listeners n l) = h \<and> l_id (listeners n l) = i
      | CONNECTOR x \<Rightarrow> x < next_id n \<and> n_owner (connectors n x) = h \<and> n_id (connectors n x) = i
      | UDP u \<Rightarrow> u < next_id n \<and> u_owner (udps n u) = h \<and> u_id (udps n u) = i)"

definition sockets_ok :: "socket_state \<Rightarrow> bool" where
  "sockets_ok s \<longleftrightarrow> links_ok (sk_net s) \<and>
     (\<forall>h st i e. sk_actor s = Some h \<longrightarrow> sk_store s = Some st \<longrightarrow> sockets st i = Some e \<longrightarrow>
        entry_ok (sk_net s) h i e) \<and>
     (sk_actor s = None \<longrightarrow> (\<forall>st. sk_store s = Some st \<longrightarrow> sockets st = Map.empty))"

lemma entry_ok_same: "same_ids n n' \<Longrightarrow> entry_ok n h i e \<Longrightarrow> entry_ok n' h i e"
  by (auto simp: entry_ok_def same_ids_def split: socket_entry.splits)

lemma sockets_ok_net:
  assumes "sockets_ok s" and "links_ok n' \<and> same_ids (sk_net s) n'"
  shows "sockets_ok (s\<lparr>sk_net := n'\<rparr>)"
proof -
  note e = entry_ok_same [OF conjunct2 [OF assms(2)]]
  show ?thesis using assms e unfolding sockets_ok_def by simp
qed

lemma sockets_ok_put:
  assumes "sockets_ok s" and "sk_actor s = Some h" and "sk_store s = Some st"
    and "links_ok n' \<and> same_ids (sk_net s) n'" and "entry_ok n' h i e"
    and "sockets st' = (sockets st)(i \<mapsto> e)"
  shows "sockets_ok (s\<lparr>sk_store := Some st', sk_net := n'\<rparr>)"
proof -
  have "entry_ok n' h j e'" if "sockets st' j = Some e'" for j e'
  proof (cases "j = i")
    case True
    with that assms(5,6) show ?thesis by simp
  next
    case False
    with that assms(6) have "sockets st j = Some e'" by simp
    then have "entry_ok (sk_net s) h j e'" using assms(1-3) unfolding sockets_ok_def by blast
    then show ?thesis by (rule entry_ok_same [OF conjunct2 [OF assms(4)]])
  qed
  with assms(2,4) show ?thesis unfolding sockets_ok_def by simp
qed

lemma sockets_ok_store:
  assumes "sockets_ok s" and "sk_store s = Some st" and "sockets st' \<subseteq>\<^sub>m sockets st"
  shows "sockets_ok (s\<lparr>sk_store := Some st'\<rparr>)"
proof -
  have sub: "sockets st j = Some e" if "sockets st' j = Some e" for j e
    using assms(3) that by (metis domI map_le_def)
  have "sockets st' = Map.empty" if "sockets st = Map.empty"
  proof (rule ext)
    show "sockets st' j = None" for j using sub [of j] that by (cases "sockets st' j") simp_all
  qed
  with sub assms(1,2) show ?thesis unfolding sockets_ok_def by simp
qed

text \<open>
  A step of the actor's sockets: one of the operations of the module, or a step of the network
  layer.
\<close>

inductive socket_step :: "socket_state \<Rightarrow> socket_state \<Rightarrow> bool" where
  sk_open: "socket_step s (luaopen_socketdriver s)"
| sk_listen: "socket_step s (snd (llisten can_bind host port s))"
| sk_connect: "socket_step s (snd (lconnect host port s))"
| sk_send: "socket_step s (snd (lsocketsend i d s))"
| sk_write: "socket_step s (snd (lwrite lid cid d s))"
| sk_close: "socket_step s (snd (lclose i oc s))"
| sk_pause: "socket_step s (snd (lpause lid cid s))"
| sk_resume: "socket_step s (snd (lresume lid cid s))"
| sk_udp: "socket_step s (snd (ludp can_bind host port s))"
| sk_udp_send: "socket_step s (snd (ludp_send is_address i d host port s))"
| sk_network: "net_step (sk_net s) n' \<Longrightarrow> socket_step s (s\<lparr>sk_net := n'\<rparr>)"

definition is_new_socket_state :: "socket_state \<Rightarrow> bool" where
  "is_new_socket_state s \<longleftrightarrow> (\<exists>h n. s = \<lparr>sk_actor = Some h, sk_store = None, sk_net = new_net n\<rparr>)"

lemma sockets_ok_quiet: "sockets_ok s \<Longrightarrow> quiet (sk_net s) n' \<Longrightarrow> sockets_ok (s\<lparr>sk_net := n'\<rparr>)"
  by (rule sockets_ok_net) (auto simp: sockets_ok_def quiet_links quiet_same_ids)

lemma sockets_ok_open:
  assumes "sockets_ok s" and "sk_actor s = Some h" and "sk_store s = Some st"
    and "links_ok n1" and "same_ids (sk_net s) n1" and "entry_ok n1 h i e" and "quiet n1 n2"
    and "sockets st' = (sockets st)(i \<mapsto> e)"
  shows "sockets_ok (s\<lparr>sk_store := Some st', sk_net := n2\<rparr>)"
proof (rule sockets_ok_put [OF assms(1-3) _ _ assms(8)])
  show "links_ok n2 \<and> same_ids (sk_net s) n2"
    using quiet_links [OF assms(7,4)] same_ids_trans [OF assms(5) quiet_same_ids [OF assms(7)]] by blast
  show "entry_ok n2 h i e" by (rule entry_ok_same [OF quiet_same_ids [OF assms(7)] assms(6)])
qed

lemma llisten_ok:
  assumes ok: "sockets_ok s"
  shows "sockets_ok (snd (llisten can_bind host port s))"
proof (cases "sk_actor s"; cases "sk_store s")
  fix h st assume *: "sk_actor s = Some h" "sk_store s = Some st"
  show ?thesis
  proof (cases "make_listener h (store_next_id st) (can_bind host (ucast (ucast port :: i32))) (sk_net s)")
    case None
    with * ok show ?thesis by (simp add: llisten_def alloc_id_def sockets_ok_store)
  next
    case (Some ln)
    obtain l n1 where ln: "ln = (l, n1)" by fastforce
    have l: "l < next_id n1" "entry_ok n1 h (store_next_id st) (LISTENER l)"
      using Some ln by (auto simp: make_listener_def entry_ok_def split: if_splits)
    have "links_ok (sk_net s)" using ok by (simp add: sockets_ok_def)
    note ids = make_listener_ids [OF Some [unfolded ln] this]
    show ?thesis
      using sockets_ok_open [OF ok * ids l(2), of "do_accept l n1"] l(1) * Some ln
      by (simp add: llisten_def alloc_id_def put_entry_def quiet_do_accept)
  qed
qed (use ok in \<open>simp_all add: llisten_def\<close>)

lemma ludp_ok:
  assumes ok: "sockets_ok s"
  shows "sockets_ok (snd (ludp can_bind host port s))"
proof (cases "sk_actor s"; cases "sk_store s")
  fix h st assume *: "sk_actor s = Some h" "sk_store s = Some st"
  show ?thesis
  proof (cases "make_udp h (store_next_id st) (can_bind host (ucast (ucast port :: i32))) (sk_net s)")
    case None
    with * ok show ?thesis by (simp add: ludp_def alloc_id_def sockets_ok_store)
  next
    case (Some ln)
    obtain u n1 where ln: "ln = (u, n1)" by fastforce
    have u: "entry_ok n1 h (store_next_id st) (UDP u)"
      using Some ln by (auto simp: make_udp_def entry_ok_def split: if_splits)
    have "links_ok (sk_net s)" using ok by (simp add: sockets_ok_def)
    note ids = make_udp_ids [OF Some [unfolded ln] this]
    show ?thesis
      using sockets_ok_open [OF ok * ids u, of "do_receive u n1"] * Some ln
      by (simp add: ludp_def alloc_id_def put_entry_def quiet_do_receive)
  qed
qed (use ok in \<open>simp_all add: ludp_def\<close>)

lemma lconnect_ok:
  assumes ok: "sockets_ok s"
  shows "sockets_ok (snd (lconnect host port s))"
proof (cases "sk_actor s"; cases "sk_store s")
  fix h st assume *: "sk_actor s = Some h" "sk_store s = Some st"
  obtain x n1 where m: "make_connector h (sk_net s) = (x, n1)" by fastforce
  then have x: "n_state (connectors n1 x) = Fresh" "entry_ok n1 h (n_id (connectors n1 x)) (CONNECTOR x)"
    by (auto simp: make_connector_def entry_ok_def)
  have "links_ok (sk_net s)" using ok by (simp add: sockets_ok_def)
  note ids = make_connector_ids [OF this, of h, unfolded m snd_conv]
  show ?thesis
    using sockets_ok_open [OF ok * ids x(2), of "connector_start x n1"] x(1) * m
    by (simp add: lconnect_def put_entry_def connector_start_def quiet_connector Let_def)
qed (use ok in \<open>simp_all add: lconnect_def\<close>)

lemma lclose_ok:
  assumes ok: "sockets_ok s"
  shows "sockets_ok (snd (lclose i cid s))"
proof (cases "sk_store s"; cases cid)
  fix st assume *: "sk_store s = Some st" "cid = None"
  let ?s1 = "s\<lparr>sk_store := Some (st\<lparr>sockets := (sockets st)(ucast i := None)\<rparr>)\<rparr>"
  have "sockets_ok ?s1" using sockets_ok_store [OF ok *(1)] by (simp add: map_le_def)
  note net = sockets_ok_quiet [OF this]
  show ?thesis
  proof (cases "sockets st (ucast i)")
    case None
    with * ok show ?thesis by (simp add: lclose_def)
  next
    case (Some e)
    with * show ?thesis
      using net [of "listener_stop l (sk_net s)" for l] net [OF quiet_calls(4)]
        net [of "udp_stop u (sk_net s)" for u]
      by (cases e) (simp_all add: lclose_def Let_def listener_stop_def udp_stop_def quiet_basic)
  qed
qed (use ok in \<open>auto simp: lclose_def intro!: sockets_ok_quiet quiet_calls split: option.split\<close>)

lemma socket_step_ok:
  assumes "sockets_ok s" and "socket_step s s'"
  shows "sockets_ok s'"
  using assms(2,1)
proof cases
  case sk_open
  then show ?thesis
    using assms(1) by (auto simp: luaopen_socketdriver_def sockets_ok_def new_store_def split: option.split)
next
  case (sk_network n')
  have "links_ok (sk_net s)" using assms(1) by (simp add: sockets_ok_def)
  then show ?thesis using sockets_ok_net [OF assms(1)] net_step_ids sk_network by blast
next
  case (sk_udp_send is_address i d host port)
  then show ?thesis
    using assms(1) by (auto simp: ludp_send_def send_to_def intro!: sockets_ok_quiet quiet_udp
        split: option.split if_splits)
qed (auto simp: llisten_ok ludp_ok lconnect_ok lclose_ok lsocketsend_def lwrite_def lpause_def lresume_def
    on_connection_def conn_pause_def conn_resume_def quiet_basic intro!: sockets_ok_quiet quiet_calls
    split: option.split)

lemma new_socket_state_ok: "is_new_socket_state s \<Longrightarrow> sockets_ok s"
  by (auto simp: is_new_socket_state_def new_net_def sockets_ok_def links_ok_def)

interpretation sockets: invariant_system is_new_socket_state socket_step sockets_ok
  by unfold_locales (rule new_socket_state_ok, assumption, rule socket_step_ok)

section \<open>Small runs\<close>

text \<open>An actor with a listener whose client has connected, and with a connector still resolving.\<close>

definition demo_sockets :: socket_state where
  "demo_sockets =
     (let s = snd (llisten (\<lambda>host port. True) ''0.0.0.0'' 8888
                (luaopen_socketdriver \<lparr>sk_actor = Some 1, sk_store = None, sk_net = new_net (new_system 4 4)\<rparr>))
      in snd (lconnect ''example.org'' 80
           (s\<lparr>sk_net := accept_done 0 (Accepted ''10.0.0.7'' 4000) (sk_net s)\<rparr>)))"

lemma demo_sockets_reachable: "reach is_new_socket_state socket_step demo_sockets"
  unfolding demo_sockets_def Let_def
proof (rule reach_step [OF reach_step [OF reach_step [OF reach_step [OF reach_init]]]])
  let ?s0 = "\<lparr>sk_actor = Some 1, sk_store = None, sk_net = new_net (new_system 4 4)\<rparr>"
  show "is_new_socket_state ?s0" by (auto simp: is_new_socket_state_def)
  show "socket_step ?s0 (luaopen_socketdriver ?s0)" by (rule sk_open)
  let ?s2 = "snd (llisten (\<lambda>host port. True) ''0.0.0.0'' 8888 (luaopen_socketdriver ?s0))"
  show "socket_step (luaopen_socketdriver ?s0) ?s2" by (rule sk_listen)
  let ?s3 = "?s2\<lparr>sk_net := accept_done 0 (Accepted ''10.0.0.7'' 4000) (sk_net ?s2)\<rparr>"
  show "socket_step ?s2 ?s3" by (rule sk_network, rule net_by_event, rule net_accept_done) code_simp+
  show "socket_step ?s3 (snd (lconnect ''example.org'' 80 ?s3))" by (rule sk_connect)
qed

lemma demo_sockets_state:
  "sk_actor demo_sockets = Some 1"
  "map_option (\<lambda>st. sockets st (ucast (1 :: u64))) (sk_store demo_sockets) = Some (Some (LISTENER 0))"
  "get_connection 0 (ucast (1 :: u64)) (sk_net demo_sockets) = Some 1"
  "map_option (\<lambda>st. find_connector st (ucast (1000000 :: u64))) (sk_store demo_sockets) = Some (Some 2)"
  "n_conn (connectors (sk_net demo_sockets) 2) = None"
  by code_simp+

section \<open>Identifiers in use\<close>











section \<open>Properties\<close>



text \<open>
  The identifiers of listeners and UDP sockets count from 1 without a limit, those of connectors from 1000000: after
  999999 calls of \<open>listen\<close>, which may fail, the next listener takes the place of a connector that is in use.
\<close>

lemma failed_listens_reach:
  assumes "reach is_new_socket_state socket_step s" and "sk_actor s = Some h" and "sk_store s = Some st"
  shows "reach is_new_socket_state socket_step (s\<lparr>sk_store := Some (st\<lparr>store_next_id := store_next_id st + of_nat k\<rparr>)\<rparr>)"
proof (induction k)
  case 0
  have "s\<lparr>sk_store := Some (st\<lparr>store_next_id := store_next_id st + of_nat 0\<rparr>)\<rparr> = s" using assms(3) by simp
  with assms(1) show ?case by metis
next
  case (Suc k)
  let ?s = "s\<lparr>sk_store := Some (st\<lparr>store_next_id := store_next_id st + of_nat k\<rparr>)\<rparr>"
  have "snd (llisten (\<lambda>host port. False) [] 0 ?s) =
      s\<lparr>sk_store := Some (st\<lparr>store_next_id := store_next_id st + of_nat (Suc k)\<rparr>)\<rparr>"
    using assms(2) by (simp add: llisten_def alloc_id_def make_listener_def algebra_simps)
  with reach_step [OF Suc sk_listen] show ?case by metis
qed

theorem listener_displaces_connector:
  "\<exists>s st s' st'. reach is_new_socket_state socket_step s \<and> sk_store s = Some st \<and>
     sockets st 1000000 = Some (CONNECTOR 2) \<and>
     llisten (\<lambda>host port. True) ''0.0.0.0'' 9999 s = (RInt 1000000, s') \<and>
     sk_store s' = Some st' \<and> sockets st' 1000000 = Some (LISTENER 3)"
proof -
  obtain st where st: "sk_store demo_sockets = Some st" "store_next_id st = 2" "sockets st 1000000 = Some (CONNECTOR 2)"
  proof -
    have "map_option (\<lambda>st. (store_next_id st, sockets st 1000000)) (sk_store demo_sockets) = Some (2, Some (CONNECTOR 2))"
      by code_simp
    then show thesis using that by (auto simp: map_option_case split: option.splits)
  qed
  have n: "next_id (sk_net demo_sockets) = 3" by code_simp
  let ?s = "demo_sockets\<lparr>sk_store := Some (st\<lparr>store_next_id := store_next_id st + of_nat 999998\<rparr>)\<rparr>"
  have "reach is_new_socket_state socket_step ?s"
    by (rule failed_listens_reach [OF demo_sockets_reachable demo_sockets_state(1) st(1)])
  moreover obtain s' st' where "llisten (\<lambda>host port. True) ''0.0.0.0'' 9999 ?s = (RInt 1000000, s')"
    "sk_store s' = Some st'" "sockets st' 1000000 = Some (LISTENER 3)"
    using demo_sockets_state(1) st(2) n by (simp add: llisten_def alloc_id_def make_listener_def put_entry_def)
  ultimately show ?thesis
    using st(3) by (intro exI [of _ ?s] exI [of _ "st\<lparr>store_next_id := store_next_id st + of_nat 999998\<rparr>"]
        exI [of _ s'] exI [of _ st']) simp
qed

text \<open>
  Data sent on an outgoing connection before it is established is lost: \<open>send\<close> answers true and
  nothing changes.
\<close>

theorem send_before_open_is_lost:
  assumes "map_option (\<lambda>st. find_connector st (ucast i)) (sk_store s) = Some (Some x)"
    and "n_conn (connectors (sk_net s) x) = None"
  shows "lsocketsend i d s = (RBool True, s)"
  using assms by (auto simp: lsocketsend_def connector_send_def)

theorem send_before_open_is_lost_witness: "lsocketsend 1000000 ''GET'' demo_sockets = (RBool True, demo_sockets)"
  by (rule send_before_open_is_lost [OF demo_sockets_state(4,5)])

end
