(* ===== verification/Tcp_Output.thy ===== *)
theory Tcp_Output
  imports Socket_Props
begin

text \<open>
  The output of a TCP connection: from the calls of \<open>send\<close> through the tasks posted to the \<open>io_context\<close> and
  \<open>write_queue_\<close> to the completed writes; and reading across \<open>pause\<close> and \<open>resume\<close>.
\<close>

section \<open>What has been sent\<close>

text \<open>\<open>sending ds n\<close>: the network layer has come to \<open>n\<close>, and \<open>ds\<close> are the calls of \<open>send\<close> on the way, in order.\<close>

inductive sending :: "(obj \<times> string) list \<Rightarrow> net \<Rightarrow> bool" where
  sending_start: "is_new_net n \<Longrightarrow> sending [] n"
| sending_call: "sending ds n \<Longrightarrow> net_call d n n' \<Longrightarrow> sending (ds @ d) n'"
| sending_event: "sending ds n \<Longrightarrow> net_event n n' \<Longrightarrow> sending ds n'"

definition sent_on :: "obj \<Rightarrow> (obj \<times> string) list \<Rightarrow> string list" where
  "sent_on i ds = map snd (filter (\<lambda>x. fst x = i) ds)"

fun posted_sends :: "obj \<Rightarrow> task list \<Rightarrow> string list" where
  "posted_sends i [] = []"
| "posted_sends i (TaskSend j d # ts) = (if j = i then d # posted_sends i ts else posted_sends i ts)"
| "posted_sends i (t # ts) = posted_sends i ts"

lemma posted_sends_append [simp]: "posted_sends i (ts @ us) = posted_sends i ts @ posted_sends i us"
  by (induction i ts rule: posted_sends.induct) simp_all

lemma sent_on_simps [simp]: "sent_on i [] = []" "sent_on i (xs @ ys) = sent_on i xs @ sent_on i ys"
    "sent_on i [(j, d)] = (if j = i then [d] else [])"
  by (simp_all add: sent_on_def)

lemma reach_sending: "sending ds n \<Longrightarrow> reach is_new_net net_step n"
  by (induction rule: sending.induct) (auto intro: reach_init reach_step net_by_call net_by_event)

interpretation ids: invariant_system is_new_net net_step links_ok
proof (unfold_locales, goal_cases)
  case (1 n)
  then show ?case by (auto simp: is_new_net_def new_net_def links_ok_def)
qed (simp add: net_step_ids)

section \<open>Where it is\<close>

text \<open>What \<open>send\<close> has been given for a connection: accepted into its queue, or in a task.\<close>

definition output_of :: "net \<Rightarrow> obj \<Rightarrow> string list" where
  "output_of n i = c_accepted (conns n i) @ posted_sends i (tasks n)"

text \<open>No output belongs to an object that does not exist.\<close>

definition no_strays :: "net \<Rightarrow> bool" where
  "no_strays n \<longleftrightarrow> (\<forall>i \<ge> next_id n. output_of n i = [])"

definition same_output :: "net \<Rightarrow> net \<Rightarrow> bool" where
  "same_output n n' \<longleftrightarrow> output_of n' = output_of n \<and> next_id n \<le> next_id n'"

lemma same_output_refl [simp]: "same_output n n"
  by (simp add: same_output_def)

lemma same_output_trans: "same_output n m \<Longrightarrow> same_output m n' \<Longrightarrow> same_output n n'"
  by (simp add: same_output_def)

lemma same_output_strays: "same_output n n' \<Longrightarrow> no_strays n \<Longrightarrow> no_strays n'"
  by (simp add: same_output_def no_strays_def)

text \<open>Rules that peel one update after the other off the final state.\<close>

lemma same_output_basic:
  "same_output n m \<Longrightarrow> same_output n (notify h p m)" "same_output n m \<Longrightarrow> same_output n (m\<lparr>sys := s\<rparr>)"
  "same_output n m \<Longrightarrow> same_output n (upd_listener i f m)"
  "same_output n m \<Longrightarrow> same_output n (upd_connector i g m)" "same_output n m \<Longrightarrow> same_output n (upd_udp i k m)"
  "same_output n m \<Longrightarrow> same_output n (m\<lparr>next_accepted_connection_id := c\<rparr>)"
  "same_output n m \<Longrightarrow> same_output n (m\<lparr>terminated := b\<rparr>)"
  "same_output n m \<Longrightarrow> (\<And>j. posted_sends j [t] = []) \<Longrightarrow> same_output n (post t m)"
  by (simp_all add: same_output_def output_of_def [abs_def] notify_def upd_listener_def upd_connector_def
      upd_udp_def post_def)

lemma same_output_conn:
  "same_output n m \<Longrightarrow> (\<And>c. c_accepted (f c) = c_accepted c) \<Longrightarrow> same_output n (upd_conn i f m)"
  by (auto simp: same_output_def output_of_def [abs_def] upd_conn_def fun_eq_iff)

lemma same_output_rw: "same_output n m \<Longrightarrow> same_output n (do_read i m)"
    "same_output n m \<Longrightarrow> same_output n (do_write i m)"
    "same_output n m \<Longrightarrow> same_output n (check_send_warning i m)"
  by (simp_all add: do_read_def do_write_def check_send_warning_def Let_def same_output_conn same_output_basic)

lemma same_output_make:
  assumes "make_connection h lid cid m = (c, n')" and "same_output n m" and "no_strays n"
  shows "same_output n n'"
proof -
  have "output_of n (next_id m) = []" using assms(2,3) by (simp add: no_strays_def same_output_def)
  then have "c_accepted (conns m (next_id m)) = [] \<and> posted_sends (next_id m) (tasks m) = []"
    using assms(2) by (metis Nil_is_append_conv output_of_def same_output_def)
  then have "output_of n' = output_of m"
    using assms(1) by (auto simp: make_connection_def output_of_def fun_eq_iff new_connection_def)
  moreover have "next_id m \<le> next_id n'" using assms(1) by (auto simp: make_connection_def)
  ultimately show ?thesis using assms(2) by (simp add: same_output_def)
qed

lemma same_output_exec:
  assumes "tasks n = t # ts"
  shows "same_output n (exec_task t (n\<lparr>tasks := ts\<rparr>))"
proof (cases t)
  case (TaskSend i d)
  let ?n1 = "upd_conn i (\<lambda>c. c\<lparr>c_pending_bytes := c_pending_bytes c + of_nat (length d),
      c_write_queue := c_write_queue c @ [d], c_accepted := c_accepted c @ [d]\<rparr>) (n\<lparr>tasks := ts\<rparr>)"
  have "same_output n ?n1"
    using assms TaskSend by (auto simp: same_output_def output_of_def fun_eq_iff upd_conn_def)
  then show ?thesis using TaskSend by (auto simp: send_task_def Let_def intro: same_output_rw)
next
  case (TaskResume i)
  with assms have "same_output n (n\<lparr>tasks := ts\<rparr>)" by (simp add: same_output_def output_of_def [abs_def])
  then show ?thesis using TaskResume by (auto simp: resume_task_def intro!: same_output_rw same_output_conn)
qed (use assms in \<open>auto simp: same_output_def output_of_def fun_eq_iff upd_conn_def upd_listener_def upd_udp_def\<close>)

lemma same_output_accept:
  assumes "no_strays n"
  shows "same_output n (accept_done i res n)"
  by (auto simp: accept_done_def do_accept_def Let_def split: accept_result.split prod.split
      intro!: same_output_basic same_output_rw elim!: same_output_make [OF _ _ assms])

lemma same_output_connect:
  assumes "no_strays n"
  shows "same_output n (connect_done i res n)"
  by (auto simp: connect_done_def Let_def split: option.split prod.split
      intro!: same_output_basic same_output_rw elim!: same_output_make [OF _ _ assms])

lemma net_event_output:
  assumes "net_event n n'" and "no_strays n"
  shows "same_output n n'"
  using assms(1)
proof cases
  case net_run_task
  then show ?thesis by (auto simp: run_task_def same_output_exec split: list.split)
next
  case (net_accept_done i ares)
  with same_output_accept [OF assms(2)] show ?thesis by simp
next
  case (net_connect_done i cres)
  with same_output_connect [OF assms(2)] show ?thesis by simp
next
  case (net_read_done i res)
  then show ?thesis
    by (auto simp: read_done_def Let_def split: option.split
        intro!: same_output_rw same_output_basic same_output_conn)
next
  case (net_write_done i ok)
  then show ?thesis
    by (auto simp: write_done_def Let_def intro!: same_output_rw same_output_basic same_output_conn)
next
  case (net_make_listener h lid bound i)
  then show ?thesis
    by (auto simp: make_listener_def same_output_def output_of_def [abs_def] split: if_splits)
next
  case (net_make_udp h uid bound i)
  then show ?thesis
    by (auto simp: make_udp_def same_output_def output_of_def [abs_def] split: if_splits)
next
  case (net_make_connector h)
  then show ?thesis by (simp add: make_connector_def same_output_def output_of_def [abs_def])
next
  case (net_send_to is_address i d host port)
  then show ?thesis by (auto simp: send_to_def same_output_basic split: if_splits)
next
  case (net_receive_done i ures)
  then show ?thesis
    by (auto simp: receive_done_def do_receive_def Let_def intro!: same_output_basic split: option.split)
qed (auto simp: conn_close_def conn_pause_def conn_resume_def conn_shutdown_write_def close_connection_def
    connector_close_def listener_stop_def udp_stop_def do_accept_def connector_start_def do_receive_def
    resolve_done_def Let_def same_output_basic split: option.split)

lemma conn_send_output:
  "output_of (conn_send i d n) j = output_of n j @ (if i = j then [d] else [])"
  "next_id (conn_send i d n) = next_id n"
  by (simp_all add: output_of_def conn_send_def post_def)

lemma net_call_output:
  assumes "net_call ds n n'" and "links_ok n" and "no_strays n"
  shows "output_of n' j = output_of n j @ sent_on j ds" and "no_strays n'"
proof -
  have "ds = [] \<and> n' = n \<or> (\<exists>i d. i < next_id n \<and> ds = [(i, d)] \<and> n' = conn_send i d n)"
    using assms(1)
  proof cases
    case (call_listener_send l cid d)
    then show ?thesis
      using assms(2) by (auto simp: links_ok_def get_connection_def listener_send_def split: option.split)
  next
    case (call_connector_send x d)
    then show ?thesis using assms(2) by (auto simp: links_ok_def connector_send_def split: option.split)
  qed auto
  with assms(3) show "output_of n' j = output_of n j @ sent_on j ds" and "no_strays n'"
    by (auto simp: conn_send_output no_strays_def)
qed

lemma sending_output:
  assumes "sending ds n"
  shows "output_of n i = sent_on i ds \<and> no_strays n"
  using assms
proof (induction rule: sending.induct)
  case (sending_start n)
  then show ?case by (auto simp: is_new_net_def new_net_def output_of_def no_strays_def)
next
  case (sending_call ds n d n')
  with net_call_output [OF sending_call.hyps(2) ids.reach_inv [OF reach_sending]] show ?case by simp
next
  case (sending_event ds n n')
  from net_event_output [OF sending_event.hyps(2)] sending_event.IH same_output_strays show ?case
    by (auto simp: same_output_def)
qed

section \<open>Small runs\<close>

text \<open>Actor 1 listens and a client connects; two strings are sent and one has been written.\<close>

definition accepted_net :: net where
  "accepted_net =
     accept_done 0 (Accepted ''10.0.0.7'' 4000) (do_accept 0
       (snd (the (make_listener 1 5 True (new_net (new_system 4 4))))))"

definition demo_net :: net where
  "demo_net =
     conn_send 1 ''!'' (write_done 1 True (run_task (conn_send 1 ''world'' (run_task (conn_send 1 ''hello'' accepted_net)))))"

lemma accepted_sending: "sending [] accepted_net"
  unfolding accepted_net_def
proof (rule sending_event [OF sending_event [OF sending_event [OF sending_start]]])
  show "is_new_net (new_net (new_system 4 4))" by (auto simp: is_new_net_def)
  show "net_event (new_net (new_system 4 4)) (snd (the (make_listener 1 5 True (new_net (new_system 4 4)))))"
    by (rule net_make_listener [of 1 5 True _ 0]) (simp add: make_listener_def new_net_def)
  let ?n = "snd (the (make_listener 1 5 True (new_net (new_system 4 4))))"
  show "net_event ?n (do_accept 0 ?n)"
    by (rule net_do_accept) (simp_all add: make_listener_def new_net_def)
  show "net_event (do_accept 0 ?n) (accept_done 0 (Accepted ''10.0.0.7'' 4000) (do_accept 0 ?n))"
    by (rule net_accept_done) (simp_all add: do_accept_def upd_listener_def make_listener_def new_net_def)
qed

lemma demo_net_sending: "sending [(1, ''hello''), (1, ''world''), (1, ''!'')] demo_net"
proof -
  have "sending (((([] @ [(1, ''hello'')]) @ [(1, ''world'')])) @ [(1, ''!'')]) demo_net"
    unfolding demo_net_def
    by (rule sending_call [OF sending_event [OF sending_event [OF sending_call [OF sending_event
          [OF sending_call [OF accepted_sending call_send] net_run_task] call_send] net_run_task] net_write_done]
          call_send]) code_simp+
  then show ?thesis by simp
qed

section \<open>Properties\<close>

text \<open>
  C34.  TCP output: for every connection, the data of the calls of \<open>send\<close> on it, in the order of the calls, is what
  has been written, followed by what waits in \<open>write_queue_\<close>, followed by what is still in tasks posted to the
  network thread.  At most one write is in progress, and one is exactly
  if data waits in the queue and no write has failed; \<open>pending_bytes_\<close> is the number of bytes waiting there.  After
  a failed write no further write is ever started.
\<close>

theorem tcp_write_in_order:
  assumes "sending ds n"
  shows "map snd (filter (\<lambda>x. fst x = i) ds) =
      c_written (conns n i) @ c_write_queue (conns n i) @ posted_sends i (tasks n) \<and>
    c_writes (conns n i) = (if c_write_queue (conns n i) \<noteq> [] \<and> \<not> c_failed (conns n i) then 1 else 0) \<and>
    c_pending_bytes (conns n i) = of_nat (sum_list (map length (c_write_queue (conns n i))))"
proof -
  have c: "c_accepted (conns n i) = c_written (conns n i) @ c_write_queue (conns n i)"
    "c_writes (conns n i) = (if c_write_queue (conns n i) \<noteq> [] \<and> \<not> c_failed (conns n i) then 1 else 0)"
    "c_pending_bytes (conns n i) = of_nat (sum_list (map length (c_write_queue (conns n i))))"
    using conns_okD [OF tcp.reach_inv [OF reach_sending [OF assms]], of i] unfolding conn_ok_def by metis+
  have "map snd (filter (\<lambda>x. fst x = i) ds) = output_of n i"
    using sending_output [OF assms, of i] by (simp add: sent_on_def)
  also have "\<dots> = (c_written (conns n i) @ c_write_queue (conns n i)) @ posted_sends i (tasks n)"
    unfolding output_of_def c(1) ..
  finally show ?thesis using c(2,3) by simp
qed

theorem tcp_write_in_order_witness:
  "[''hello'', ''world'', ''!''] =
     c_written (conns demo_net 1) @ c_write_queue (conns demo_net 1) @ posted_sends 1 (tasks demo_net) \<and>
   c_writes (conns demo_net 1) = 1 \<and> c_written (conns demo_net 1) = [''hello'']"
proof -
  have "c_write_queue (conns demo_net 1) \<noteq> []" "\<not> c_failed (conns demo_net 1)"
    "c_written (conns demo_net 1) = [''hello'']"
    by code_simp+
  with tcp_write_in_order [OF demo_net_sending, of 1] show ?thesis by simp
qed

text \<open>
  C40.  \<open>pause\<close> followed by \<open>resume\<close> while a read is outstanding starts a second read, into the same buffer: whatever
  state the network layer has reached, if no task waits, the connection is not paused and a read is in
  progress on it, then after the two calls and their tasks, without a read completing or a new connection,
  one more is in progress; and there is such a state.
\<close>

theorem resume_starts_second_read:
  assumes "reach is_new_net net_step n" and "\<not> terminated n" and "tasks n = []"
    and "\<not> c_is_paused (conns n i)" and "c_reads (conns n i) = 1"
    and "n' = run_task (run_task (conn_resume i (conn_pause i n)))"
  shows "reach is_new_net net_step n' \<and> tasks n' = [] \<and> c_open (conns n' i) = c_open (conns n i) \<and>
    \<not> c_is_paused (conns n' i) \<and> c_reads (conns n' i) = 2"
proof -
  let ?p = "conn_resume i (conn_pause i n)"
  have "reach is_new_net net_step ?p"
    by (rule reach_step [OF reach_step [OF assms(1)]] net_by_event net_pause net_resume)+
  moreover have "\<not> terminated ?p" "\<not> terminated (run_task ?p)"
    using assms(2,3) by (simp_all add: conn_pause_def conn_resume_def post_def run_task_def upd_conn_def)
  ultimately have "reach is_new_net net_step n'"
    unfolding assms(6) by (blast intro: reach_step net_by_event net_run_task)
  moreover have "tasks n' = []" "conns n' i = (conns n i)\<lparr>c_is_paused := False, c_reads := 2\<rparr>"
    using assms(3-5) unfolding assms(6)
    by (simp_all add: conn_pause_def conn_resume_def post_def run_task_def upd_conn_def resume_task_def do_read_def)
  ultimately show ?thesis by simp
qed

theorem resume_starts_second_read_witness:
  "c_reads (conns accepted_net 1) = 1 \<and>
   c_reads (conns (run_task (run_task (conn_resume 1 (conn_pause 1 accepted_net)))) 1) = 2 \<and>
   c_open (conns (run_task (run_task (conn_resume 1 (conn_pause 1 accepted_net)))) 1)"
proof -
  have "\<not> terminated accepted_net" "tasks accepted_net = []" "\<not> c_is_paused (conns accepted_net 1)"
    "c_reads (conns accepted_net 1) = 1" "c_open (conns accepted_net 1)"
    by code_simp+
  with resume_starts_second_read [OF reach_sending [OF accepted_sending] this(1-4) refl] show ?thesis by simp
qed

end
