(* ===== verification/Lua_Paths.thy ===== *)
theory Lua_Paths
  imports Skynet_Prelude
begin

text \<open>
  Directory names and search paths: \<open>normalize_lua_dir\<close>, the path configuration of \<open>ActorSystem\<close>
  (\<open>src/src/skynet.cpp\<close>) and the path helpers of \<open>LuaActor\<close> (\<open>src/src/lua_actor.cpp\<close>).
\<close>

section \<open>Normalising a directory name\<close>

abbreviation (input) SLASH :: char where "SLASH \<equiv> CHR ''/''"
abbreviation (input) BACKSLASH :: char where "BACKSLASH \<equiv> CHR 0x5C"

definition to_slashes :: "string \<Rightarrow> string" where
  "to_slashes path = map (\<lambda>c. if c = BACKSLASH then SLASH else c) path"

text \<open>\<open>while (path.size() > 1 && path.back() == '/') path.pop_back();\<close>\<close>

function strip_trailing :: "string \<Rightarrow> string" where
  "strip_trailing path =
     (if length path > 1 \<and> last path = SLASH then strip_trailing (butlast path) else path)"
  by pat_completeness auto
termination by (relation "measure length") auto

declare strip_trailing.simps [simp del]

text \<open>The copying loop of \<open>normalize_lua_dir\<close>.\<close>

fun squeeze :: "bool \<Rightarrow> string \<Rightarrow> string" where
  "squeeze prev_slash [] = []"
| "squeeze prev_slash (c # cs) =
     (if c = SLASH \<and> prev_slash then squeeze prev_slash cs else c # squeeze (c = SLASH) cs)"

definition normalize_lua_dir :: "string \<Rightarrow> string" where
  "normalize_lua_dir path = squeeze False (strip_trailing (to_slashes path))"

definition normalize_runtime_path :: "string \<Rightarrow> string" where
  "normalize_runtime_path path = strip_trailing (to_slashes path)"

definition is_absolute_path :: "string \<Rightarrow> bool" where
  "is_absolute_path path \<longleftrightarrow> path \<noteq> [] \<and>
     (path ! 0 = SLASH \<or> path ! 0 = BACKSLASH \<or> (length path \<ge> 2 \<and> path ! 1 = CHR '':''))"

definition resolve_cwd_path :: "string \<Rightarrow> string \<Rightarrow> string" where
  "resolve_cwd_path current_path path =
     (if path = [] \<or> is_absolute_path path then normalize_runtime_path path
      else normalize_runtime_path (current_path @ ''/'' @ path))"

definition find_bootstrap_lualib_dir :: "(string \<Rightarrow> bool) \<Rightarrow> string \<Rightarrow> string" where
  "find_bootstrap_lualib_dir file_exists current_path =
     (let cwd = normalize_runtime_path current_path
      in if file_exists (cwd @ ''/lualib/loader.lua'') then cwd @ ''/lualib''
         else if file_exists (cwd @ ''/skynet-cpp/lualib/loader.lua'') then cwd @ ''/skynet-cpp/lualib''
         else cwd @ ''/lualib'')"

section \<open>Search paths\<close>

definition append_segment :: "string \<Rightarrow> string \<Rightarrow> string" where
  "append_segment target segment =
     (if segment = [] then target else (if target \<noteq> [] then target @ '';'' else target) @ segment)"

definition prepend_segment :: "string \<Rightarrow> string \<Rightarrow> string" where
  "prepend_segment target segment =
     (if segment = [] then target else if target = [] then segment else segment @ '';'' @ target)"

definition lua_path_pattern :: "string \<Rightarrow> string" where
  "lua_path_pattern dir = dir @ ''/?.lua;'' @ dir @ ''/?/init.lua''"

definition lua_cpath_pattern :: "string \<Rightarrow> string" where
  "lua_cpath_pattern dir = dir @ ''/?.dll;'' @ dir @ ''/?/?.dll;'' @ dir @ ''/?.so;'' @ dir @ ''/?/?.so''"

definition service_path_pattern :: "string \<Rightarrow> string" where
  "service_path_pattern dir = dir @ ''/?.lua''"

record lua_path_config =
  path_base :: string
  lua_path :: string
  lua_cpath :: string
  service_path :: string

definition new_lua_paths :: "string \<Rightarrow> lua_path_config" where
  "new_lua_paths current_path =
     \<lparr>path_base = normalize_lua_dir current_path, lua_path = [], lua_cpath = [], service_path = []\<rparr>"

definition set_lua_path_base :: "string \<Rightarrow> lua_path_config \<Rightarrow> lua_path_config" where
  "set_lua_path_base p c = (let dir = normalize_lua_dir p in if dir = [] then c else c\<lparr>path_base := dir\<rparr>)"

definition append_lua_path :: "string \<Rightarrow> lua_path_config \<Rightarrow> lua_path_config" where
  "append_lua_path p c =
     (let dir = normalize_lua_dir p
      in if dir = [] then c else c\<lparr>lua_path := append_segment (lua_path c) (lua_path_pattern dir)\<rparr>)"

definition prepend_lua_path :: "string \<Rightarrow> lua_path_config \<Rightarrow> lua_path_config" where
  "prepend_lua_path p c =
     (let dir = normalize_lua_dir p
      in if dir = [] then c else c\<lparr>lua_path := prepend_segment (lua_path c) (lua_path_pattern dir)\<rparr>)"

definition append_lua_cpath :: "string \<Rightarrow> lua_path_config \<Rightarrow> lua_path_config" where
  "append_lua_cpath p c =
     (let dir = normalize_lua_dir p
      in if dir = [] then c else c\<lparr>lua_cpath := append_segment (lua_cpath c) (lua_cpath_pattern dir)\<rparr>)"

definition append_lua_service_path :: "string \<Rightarrow> lua_path_config \<Rightarrow> lua_path_config" where
  "append_lua_service_path p c =
     (let dir = normalize_lua_dir p
      in if dir = [] then c
         else c\<lparr>service_path := append_segment (service_path c) (service_path_pattern dir)\<rparr>)"

section \<open>The name of the script to load\<close>

definition has_lua_suffix :: "string \<Rightarrow> bool" where
  "has_lua_suffix s = (\<exists>i \<in> set [0..<length s]. take 4 (drop i s) = ''.lua'')"

definition script_argument :: "string \<Rightarrow> string \<Rightarrow> string" where
  "script_argument current_path param =
     (let script_name = takeWhile (\<lambda>c. c \<noteq> CHR '' '') param;
          rest = dropWhile (\<lambda>c. c \<noteq> CHR '' '') param;
          is_path = (SLASH \<in> set script_name \<or> BACKSLASH \<in> set script_name \<or> has_lua_suffix script_name)
      in if script_name \<noteq> [] \<and> \<not> is_absolute_path script_name \<and> is_path
         then resolve_cwd_path current_path script_name @ rest else param)"

text \<open>A C string ends at its first zero byte.\<close>

definition c_str :: "string \<Rightarrow> string" where
  "c_str s = takeWhile (\<lambda>c. c \<noteq> CHR 0x00) s"

section \<open>A reference: directory names as lists of components\<close>

definition is_sep :: "char \<Rightarrow> bool" where
  "is_sep c \<longleftrightarrow> c = SLASH \<or> c = BACKSLASH"

text \<open>The non-empty components between separators.\<close>

fun split_from :: "string \<Rightarrow> string \<Rightarrow> string list" where
  "split_from w [] = (if w = [] then [] else [w])"
| "split_from w (c # cs) =
     (if is_sep c then (if w = [] then split_from [] cs else w # split_from [] cs)
      else split_from (w @ [c]) cs)"

definition components :: "string \<Rightarrow> string list" where
  "components path = split_from [] path"

fun join_components :: "string list \<Rightarrow> string" where
  "join_components [] = []"
| "join_components [w] = w"
| "join_components (w # ws) = w @ SLASH # join_components ws"

definition canonical_dir :: "string \<Rightarrow> string" where
  "canonical_dir path =
     (if path \<noteq> [] \<and> is_sep (hd path) then SLASH # join_components (components path)
      else join_components (components path))"

lemma is_sep_simps [simp]: "is_sep SLASH" "is_sep BACKSLASH"
  by (simp_all add: is_sep_def)

lemma split_to_slashes: "split_from w (to_slashes path) = split_from w path"
  by (induction w path rule: split_from.induct) (auto simp: to_slashes_def is_sep_def)

lemma canonical_to_slashes: "canonical_dir (to_slashes path) = canonical_dir path"
proof (cases path)
  case (Cons c cs)
  then have "is_sep (hd (to_slashes path)) = is_sep (hd path)" "to_slashes path \<noteq> []"
    by (auto simp: to_slashes_def is_sep_def)
  with Cons show ?thesis by (simp add: canonical_dir_def components_def split_to_slashes)
qed (simp add: to_slashes_def)

lemma split_append_slash: "split_from w (path @ [SLASH]) = split_from w path"
  by (induction w path rule: split_from.induct) auto

lemma strip_trailing_snoc: "body \<noteq> [] \<Longrightarrow> strip_trailing (body @ [SLASH]) = strip_trailing body"
  by (simp add: strip_trailing.simps [of "body @ [SLASH]"])

lemma canonical_append_slash: "body \<noteq> [] \<Longrightarrow> canonical_dir (body @ [SLASH]) = canonical_dir body"
  by (simp add: canonical_dir_def components_def split_append_slash)

text \<open>Stripping trailing slashes: induction on the name from its end.\<close>

lemma strip_trailing_props:
  "canonical_dir (strip_trailing path) = canonical_dir path \<and>
   (length (strip_trailing path) > 1 \<longrightarrow> last (strip_trailing path) \<noteq> SLASH) \<and>
   set (strip_trailing path) \<subseteq> set path"
proof (induction path rule: rev_induct)
  case Nil
  show ?case by (simp add: strip_trailing.simps [of "[]"])
next
  case (snoc c body)
  show ?case
  proof (cases "c = SLASH \<and> body \<noteq> []")
    case True
    with snoc show ?thesis by (auto simp: strip_trailing_snoc canonical_append_slash)
  next
    case False
    then have "strip_trailing (body @ [c]) = body @ [c]"
      by (subst strip_trailing.simps) auto
    with False show ?thesis by auto
  qed
qed

lemma split_nonempty: "w \<noteq> [] \<or> path \<noteq> [] \<and> \<not> is_sep (last path) \<Longrightarrow> split_from w path \<noteq> []"
  by (induction w path rule: split_from.induct) (auto split: if_splits)

lemma join_Cons: "ws \<noteq> [] \<Longrightarrow> join_components (w # ws) = w @ SLASH # join_components ws"
  by (cases ws) auto

text \<open>Without backslashes and a trailing slash, squeezing joins the components.\<close>

lemma squeeze_split:
  assumes "BACKSLASH \<notin> set path" and "path \<noteq> [] \<longrightarrow> last path \<noteq> SLASH"
  shows "squeeze True path = join_components (split_from [] path) \<and>
    (w \<noteq> [] \<longrightarrow> w @ squeeze False path = join_components (split_from w path))"
  using assms
proof (induction path arbitrary: w)
  case (Cons c cs)
  then have tail: "BACKSLASH \<notin> set cs" "cs \<noteq> [] \<longrightarrow> last cs \<noteq> SLASH" by auto
  note IH = Cons.IH [OF tail]
  show ?case
  proof (cases "c = SLASH")
    case True
    with Cons.prems have "cs \<noteq> []" "last cs \<noteq> SLASH" by (auto split: if_splits)
    moreover have "last cs \<noteq> BACKSLASH" using tail(1) last_in_set [OF \<open>cs \<noteq> []\<close>] by metis
    ultimately have "split_from [] cs \<noteq> []" by (intro split_nonempty) (simp add: is_sep_def)
    with True IH show ?thesis by (simp add: join_Cons)
  next
    case False
    with Cons.prems have "\<not> is_sep c" by (auto simp: is_sep_def)
    with False IH [of "[c]"] IH [of "w @ [c]"] show ?thesis by simp
  qed
qed simp

lemma squeeze_canonical:
  assumes "BACKSLASH \<notin> set path" and "length path > 1 \<longrightarrow> last path \<noteq> SLASH"
  shows "squeeze False path = canonical_dir path"
proof (cases path)
  case (Cons c cs)
  show ?thesis
  proof (cases "c = SLASH")
    case True
    have "squeeze True cs = join_components (split_from [] cs)"
      using squeeze_split [of cs] assms Cons by (cases cs) auto
    with True Cons show ?thesis by (simp add: canonical_dir_def components_def)
  next
    case False
    with assms Cons have c: "\<not> is_sep c" by (auto simp: is_sep_def)
    have "[c] @ squeeze False cs = join_components (split_from [c] cs)"
      using squeeze_split [of cs "[c]"] assms Cons by (cases cs) auto
    with False c Cons show ?thesis by (simp add: canonical_dir_def components_def)
  qed
qed (simp add: canonical_dir_def components_def)

lemma split_words:
  "list_all (\<lambda>c. \<not> is_sep c) w \<Longrightarrow>
   list_all (\<lambda>u. u \<noteq> [] \<and> list_all (\<lambda>c. \<not> is_sep c) u) (split_from w path)"
  by (induction w path rule: split_from.induct) simp_all

lemma split_word: "\<not> (\<exists>c \<in> set u. is_sep c) \<Longrightarrow> split_from w (u @ rest) = split_from (w @ u) rest"
  by (induction u arbitrary: w) auto

lemma components_join:
  assumes "\<forall>u \<in> set ws. u \<noteq> [] \<and> \<not> (\<exists>c \<in> set u. is_sep c)"
  shows "components (join_components ws) = ws"
  using assms
proof (induction ws rule: join_components.induct)
  case (2 u)
  then show ?case using split_word [of u "[]" "[]"] by (simp add: components_def)
next
  case (3 u v ws)
  then show ?case using split_word [of u "[]"] by (simp add: components_def)
qed (simp add: components_def)

lemma hd_join_components:
  assumes "\<forall>u \<in> set ws. u \<noteq> [] \<and> \<not> (\<exists>c \<in> set u. is_sep c)" and "ws \<noteq> []"
  shows "join_components ws \<noteq> [] \<and> \<not> is_sep (hd (join_components ws))"
  using assms by (cases ws rule: join_components.cases) auto

section \<open>Properties\<close>

text \<open>
  \<open>normalize_lua_dir\<close> computes the canonical form of a directory name: the non-empty components
  between slashes and backslashes joined by single slashes, with a leading slash exactly if the
  name starts with a separator.  Normalising twice changes nothing, and the components are kept.
\<close>

theorem normalize_lua_dir_canonical:
  "normalize_lua_dir path = canonical_dir path \<and>
   normalize_lua_dir (normalize_lua_dir path) = normalize_lua_dir path \<and>
   components (normalize_lua_dir path) = components path"
proof -
  have norm: "normalize_lua_dir p = canonical_dir p" for p
  proof -
    have "BACKSLASH \<notin> set (strip_trailing (to_slashes p))"
      using strip_trailing_props [of "to_slashes p"] by (auto simp: to_slashes_def)
    then show ?thesis
      using squeeze_canonical strip_trailing_props [of "to_slashes p"] canonical_to_slashes [of p]
      by (simp add: normalize_lua_dir_def)
  qed
  have words: "\<forall>u \<in> set (components path). u \<noteq> [] \<and> \<not> (\<exists>c \<in> set u. is_sep c)"
    using split_words [of "[]" path] by (auto simp: components_def list_all_iff)
  have comps: "components (canonical_dir path) = components path"
    using components_join [OF words] by (simp add: canonical_dir_def components_def)
  have "canonical_dir (canonical_dir path) = canonical_dir path"
  proof (cases "path \<noteq> [] \<and> is_sep (hd path)")
    case True
    then have "canonical_dir path \<noteq> []" "is_sep (hd (canonical_dir path))" by (simp_all add: canonical_dir_def)
    then have "canonical_dir (canonical_dir path) = SLASH # join_components (components (canonical_dir path))"
      by (subst canonical_dir_def) simp
    with True show ?thesis unfolding comps by (simp add: canonical_dir_def [of path])
  next
    case False
    then have "canonical_dir path = [] \<or> \<not> is_sep (hd (canonical_dir path))"
      using hd_join_components [OF words] by (cases "components path") (auto simp: canonical_dir_def)
    then have "canonical_dir (canonical_dir path) = join_components (components (canonical_dir path))"
      by (subst canonical_dir_def) auto
    with False show ?thesis unfolding comps by (simp add: canonical_dir_def [of path])
  qed
  with norm comps show ?thesis by simp
qed

end
