(* ===== verification/Lua_Actor.thy ===== *)
theory Lua_Actor
  imports Actor_System Lua_Paths
begin

text \<open>
  \<open>LuaActor\<close> (\<open>src/src/lua_actor.cpp\<close>, \<open>src/src/lua_actor.h\<close>): the tracking allocator of its Lua state,
  what it passes to the Lua callback for each message, and its life cycle.  The Lua interpreter is
  an input: what the callback does and whether it raises, and the addresses \<open>realloc\<close> returns.
\<close>

section \<open>State\<close>

abbreviation (input) LUA_NOREF :: int where "LUA_NOREF \<equiv> -2"

record lua_actor =
  has_state :: bool                \<comment> \<open>\<open>L_\<close> is not null\<close>
  has_callback :: bool
  callback_ref :: int
  traceback_ref :: int
  released_refs :: "int list"      \<comment> \<open>history: references passed to \<open>luaL_unref\<close>\<close>
  mem :: u64
  mem_limit :: u64
  mem_report :: u64
  blocks :: "u64 \<rightharpoonup> u64"            \<comment> \<open>history: the live blocks and their sizes\<close>

definition new_lua_actor :: lua_actor where
  "new_lua_actor = \<lparr>has_state = False, has_callback = False, callback_ref = LUA_NOREF,
     traceback_ref = LUA_NOREF, released_refs = [], mem = 0, mem_limit = 0, mem_report = 8 * 1024 * 1024,
     blocks = Map.empty\<rparr>"

definition set_mem_limit :: "u64 \<Rightarrow> lua_actor \<Rightarrow> lua_actor" where
  "set_mem_limit limit a = a\<lparr>mem_limit := limit\<rparr>"

definition set_callback_ref :: "int \<Rightarrow> lua_actor \<Rightarrow> lua_actor" where
  "set_callback_ref ref a =
     (if \<not> has_state a then a
      else
        (let a1 = (if callback_ref a \<noteq> LUA_NOREF then a\<lparr>released_refs := released_refs a @ [callback_ref a]\<rparr> else a)
         in a1\<lparr>callback_ref := ref, has_callback := (ref \<noteq> LUA_NOREF)\<rparr>))"

section \<open>The allocator\<close>

text \<open>
  \<open>lua_alloc\<close>.  \<open>ptr\<close> is \<open>None\<close> for a null pointer; \<open>got\<close> is what \<open>realloc\<close> returns.  The result is the
  returned pointer, the actor, and the memory to warn about, if any.
\<close>

definition lua_alloc ::
    "u64 option \<Rightarrow> u64 option \<Rightarrow> u64 \<Rightarrow> u64 \<Rightarrow> lua_actor \<Rightarrow> u64 option \<times> lua_actor \<times> u64 option" where
  "lua_alloc got ptr osize nsize a =
     (let old_mem = mem a;
          new_mem = (if ptr \<noteq> None then old_mem + nsize - osize else old_mem + nsize)
      in if mem_limit a \<noteq> 0 \<and> new_mem > mem_limit a \<and> (ptr = None \<or> nsize > osize) then (None, a, None)
         else if nsize = 0 then
           (None, a\<lparr>mem := new_mem, blocks := (case ptr of None \<Rightarrow> blocks a | Some p \<Rightarrow> (blocks a)(p := None))\<rparr>, None)
         else
           (case got of
              None \<Rightarrow> (None, a, None)
            | Some q \<Rightarrow>
                (let a1 = a\<lparr>mem := new_mem,
                       blocks := (case ptr of None \<Rightarrow> blocks a | Some p \<Rightarrow> (blocks a)(p := None))(q \<mapsto> nsize)\<rparr>
                 in if mem a1 > mem_report a1
                    then (Some q, a1\<lparr>mem_report := mem_report a1 * 2\<rparr>, Some (mem a1))
                    else (Some q, a1, None))))"

section \<open>Messages for the callback\<close>

definition show_int :: "int \<Rightarrow> string" where
  "show_int i = (if i < 0 then CHR ''-'' # show_nat (nat (- i)) else show_nat (nat i))"

text \<open>The text form of a socket event.\<close>

fun encode_event :: "payload \<Rightarrow> string" where
  "encode_event (SocketAccept lid cid addr port) =
     ''accept '' @ show_int (sint lid) @ '' '' @ show_int (sint cid) @ '' '' @ addr @ '' '' @ show_nat (unat port)"
| "encode_event (SocketData lid cid d) =
     ''data '' @ show_int (sint lid) @ '' '' @ show_int (sint cid) @ '' '' @ d"
| "encode_event (SocketClose lid cid) = ''close '' @ show_int (sint lid) @ '' '' @ show_int (sint cid)"
| "encode_event (SocketOpen cid addr port) =
     ''open '' @ show_int (sint cid) @ '' '' @ addr @ '' '' @ show_nat (unat port)"
| "encode_event (SocketWarning lid cid n) =
     ''warning '' @ show_int (sint lid) @ '' '' @ show_int (sint cid) @ '' '' @ show_nat (unat n)"
| "encode_event (SocketUDP i d addr port) =
     ''udp '' @ show_int (sint i) @ '' '' @ addr @ '' '' @ show_nat (unat port) @ '' '' @ d"
| "encode_event _ = ''unknown''"

datatype lua_arg = ANil | ABool bool | AInteger int | AString string | ALight u64

text \<open>The arguments \<open>msg\<close> and \<open>sz\<close> of the callback.\<close>

fun payload_args :: "int \<Rightarrow> payload \<Rightarrow> lua_arg \<times> lua_arg" where
  "payload_args ty p =
     (if ty = PTYPE_LUA \<or> ty = PTYPE_RESPONSE \<or> ty = PTYPE_MULTICAST \<or> ty = PTYPE_DEBUG then
        (case p of
           SeriData ptr sz \<Rightarrow> (ALight ptr, AInteger (sint sz))
         | Text t \<Rightarrow> (AString t, AInteger (int (length t)))
         | _ \<Rightarrow> (ANil, AInteger 0))
      else if ty = PTYPE_TEXT \<or> ty = PTYPE_ERROR then
        (case p of Text t \<Rightarrow> (AString t, AInteger (int (length t))) | _ \<Rightarrow> (ANil, AInteger 0))
      else if ty = PTYPE_SOCKET then
        (AString (encode_event p), AInteger (int (length (encode_event p))))
      else (ANil, AInteger 0))"

definition callback_args :: "message \<Rightarrow> lua_arg list" where
  "callback_args m =
     (let (d, sz) = payload_args (mtype m) (mdata m)
      in [AInteger (mtype m), d, sz, AInteger (sint (session m)), AInteger (uint (source m))])"

definition free_owned_lua_payload :: "message \<Rightarrow> system \<Rightarrow> system" where
  "free_owned_lua_payload m s = (case mdata m of SeriData p n \<Rightarrow> emit (EvFree p) s | _ \<Rightarrow> s)"

text \<open>
  \<open>on_message\<close>: \<open>registered ref\<close> tells whether the registry holds a value other than \<open>nil\<close> there;
  \<open>call\<close> is the effect of the callback on the runtime and the error it raises, if any.
\<close>

definition lua_on_message ::
    "(int \<Rightarrow> bool) \<Rightarrow> (lua_arg list \<Rightarrow> system \<Rightarrow> system \<times> string option) \<Rightarrow> u32 \<Rightarrow> lua_actor \<Rightarrow> message \<Rightarrow> system \<Rightarrow> system" where
  "lua_on_message registered call h a m s =
     (if \<not> has_state a \<or> \<not> has_callback a then free_owned_lua_payload m s
      else if \<not> registered (callback_ref a) then s
      else
        (case call (callback_args m) s of
           (s1, None) \<Rightarrow> s1
         | (s1, Some what) \<Rightarrow> error h (''LuaActor callback error: '' @ what) s1))"

section \<open>Creating the Lua state\<close>

text \<open>
  What \<open>on_init\<close> puts into a fresh Lua state before the loader runs.  The functions of
  \<open>skynet.profile\<close> replace two entries of the \<open>coroutine\<close> table.
\<close>

record lua_vm =
  vm_libraries :: "string list"
  vm_coroutine :: "(string \<times> string) list"
  vm_preload :: "string list"
  vm_globals :: "(string \<times> string) list"
  vm_gc_running :: bool

definition setup_lua_paths :: "(string \<Rightarrow> bool) \<Rightarrow> string \<Rightarrow> lua_path_config \<Rightarrow> lua_vm \<Rightarrow> lua_vm" where
  "setup_lua_paths file_exists current_path paths vm =
     (let bootstrap_lualib = find_bootstrap_lualib_dir file_exists current_path;
          bootstrap_lua_path = bootstrap_lualib @ ''/?.lua;'' @ bootstrap_lualib @ ''/?/init.lua''
      in vm\<lparr>vm_globals := vm_globals vm @
           [(''BOOTSTRAP_LUA_PATH'', c_str bootstrap_lua_path), (''LUA_PATH'', c_str (lua_path paths)),
            (''LUA_CPATH'', c_str (lua_cpath paths)), (''LUA_SERVICE'', c_str (service_path paths))]\<rparr>)"

definition boot_vm :: "(string \<Rightarrow> bool) \<Rightarrow> string \<Rightarrow> lua_path_config \<Rightarrow> lua_vm" where
  "boot_vm file_exists current_path paths =
     setup_lua_paths file_exists current_path paths
       \<lparr>vm_libraries = [''base'', ''package'', ''coroutine'', ''debug'', ''math'', ''string'', ''table'', ''utf8'',
          ''cache'', ''skynet.profile''],
        vm_coroutine = [(''resume'', ''skynet.profile.resume''), (''wrap'', ''skynet.profile.wrap'')],
        vm_preload = [''skynet.core'', ''rapidjson'', ''socketdriver'', ''netpack'', ''skynet.profile'', ''cluster.core''],
        vm_globals = [], vm_gc_running = False\<rparr>"

text \<open>
  \<open>on_init\<close>: \<open>newstate\<close> is the reference of the traceback function, \<open>None\<close> if \<open>lua_newstate\<close> fails; \<open>load\<close>
  tells why a file cannot be loaded, if it cannot; \<open>run\<close> is what the loader does when it is called with
  the script argument: its effect on the actor, its calls, and the error it raises, if any.
\<close>

definition lua_on_init ::
    "(string \<Rightarrow> bool) \<Rightarrow> string \<Rightarrow> lua_path_config \<Rightarrow> int option \<Rightarrow> (string \<Rightarrow> string option) \<Rightarrow>
     (lua_vm \<Rightarrow> string \<Rightarrow> lua_actor \<Rightarrow> lua_actor \<times> action list \<times> string option) \<Rightarrow>
     string \<Rightarrow> lua_actor \<Rightarrow> lua_actor \<times> action list \<times> init_outcome" where
  "lua_on_init file_exists current_path paths newstate load run param a =
     (case newstate of
        None \<Rightarrow> (a, [AError ''LuaActor: failed to create lua_State''], InitFailed)
      | Some ref \<Rightarrow>
          (let a1 = a\<lparr>has_state := True, traceback_ref := ref\<rparr>
           in case load (find_bootstrap_lualib_dir file_exists current_path @ ''/loader.lua'') of
                Some what \<Rightarrow> (a1, [AError (''LuaActor: failed to load loader.lua: '' @ what)], InitFailed)
              | None \<Rightarrow>
                  (case run (boot_vm file_exists current_path paths) (script_argument current_path param) a1 of
                     (a2, acts, None) \<Rightarrow> (a2, acts, InitOk)
                   | (a2, acts, Some what) \<Rightarrow>
                       (a2, acts @ [AError (''LuaActor: loader failed: '' @ what)], InitFailed))))"

section \<open>Life cycle\<close>

text \<open>
  \<open>on_destroy\<close>: the references are released and the state is closed.  \<open>flush\<close> is the effect of
  \<open>skynet.coverage.flush\<close> if it is loaded; \<open>frees\<close> are the blocks \<open>lua_close\<close> gives back, with their sizes.
\<close>

definition lua_on_destroy :: "(lua_actor \<Rightarrow> lua_actor) \<Rightarrow> (u64 \<times> u64) list \<Rightarrow> lua_actor \<Rightarrow> lua_actor" where
  "lua_on_destroy flush frees a =
     (if \<not> has_state a then a
      else
        (let a1 = (if callback_ref a \<noteq> LUA_NOREF
                   then a\<lparr>released_refs := released_refs a @ [callback_ref a], callback_ref := LUA_NOREF,
                          has_callback := False\<rparr> else a);
             a2 = (if traceback_ref a1 \<noteq> LUA_NOREF
                   then a1\<lparr>released_refs := released_refs a1 @ [traceback_ref a1], traceback_ref := LUA_NOREF\<rparr> else a1);
             a3 = fold (\<lambda>(p, n) b. fst (snd (lua_alloc None (Some p) n 0 b))) frees (flush a2)
         in a3\<lparr>has_state := False\<rparr>))"

text \<open>\<open>~LuaActor\<close> closes a state that \<open>on_destroy\<close> has not closed; after \<open>on_destroy\<close> it does nothing.\<close>

definition lua_destruct :: "(u64 \<times> u64) list \<Rightarrow> lua_actor \<Rightarrow> lua_actor" where
  "lua_destruct frees a =
     (if \<not> has_state a then a
      else (fold (\<lambda>(p, n) b. fst (snd (lua_alloc None (Some p) n 0 b))) frees a)\<lparr>has_state := False\<rparr>)"

lemma destruct_after_destroy: "lua_destruct frees' (lua_on_destroy flush frees a) = lua_on_destroy flush frees a"
  by (simp add: lua_destruct_def lua_on_destroy_def Let_def)

text \<open>The handler of errors in the callback: \<open>lua_tostring\<close> of the error object, and the text of \<open>luaL_traceback\<close>.\<close>

definition traceback :: "(string \<Rightarrow> string) \<Rightarrow> string option \<Rightarrow> string" where
  "traceback with_trace msg = (case msg of Some t \<Rightarrow> with_trace t | None \<Rightarrow> ''(no error message)'')"

end
