(* ===== verification/Lua_Actor_Props.thy ===== *)
theory Lua_Actor_Props
  imports Lua_Actor
begin

text \<open>
  Properties of Lua actors: exact memory accounting under the limit, unambiguous socket events, and
  the ownership of serialized payloads.
\<close>

section \<open>Memory accounting\<close>

text \<open>
  The calls a Lua state makes: an old block is live and of the size given, and \<open>realloc\<close> returns a
  block that is not live (the old one may be returned again).
\<close>

definition alloc_call_ok :: "u64 option \<Rightarrow> u64 option \<Rightarrow> u64 \<Rightarrow> lua_actor \<Rightarrow> bool" where
  "alloc_call_ok got ptr osize a \<longleftrightarrow>
     (\<forall>p. ptr = Some p \<longrightarrow> blocks a p = Some osize) \<and>
     (\<forall>q. got = Some q \<longrightarrow> blocks a q = None \<or> ptr = Some q)"

inductive mem_step :: "lua_actor \<Rightarrow> lua_actor \<Rightarrow> bool" where
  mem_alloc: "alloc_call_ok got ptr osize a \<Longrightarrow> mem_step a (fst (snd (lua_alloc got ptr osize nsize a)))"
| mem_limit: "mem_step a (set_mem_limit limit a)"
| mem_callback: "mem_step a (set_callback_ref ref a)"
| mem_state: "\<not> has_state a \<Longrightarrow> mem_step a (a\<lparr>has_state := True, traceback_ref := ref\<rparr>)"

definition live_bytes :: "(u64 \<rightharpoonup> u64) \<Rightarrow> u64" where
  "live_bytes bs = (\<Sum>p \<in> dom bs. the (bs p))"

definition mem_exact :: "lua_actor \<Rightarrow> bool" where
  "mem_exact a \<longleftrightarrow> finite (dom (blocks a)) \<and> mem a = live_bytes (blocks a)"

lemma live_bytes_remove:
  assumes "finite (dom bs)" and "bs p = Some k"
  shows "live_bytes (bs(p := None)) = live_bytes bs - k"
proof -
  have "(\<Sum>q \<in> dom bs - {p}. the ((bs(p := None)) q)) = (\<Sum>q \<in> dom bs - {p}. the (bs q))"
    by (rule sum.cong) auto
  moreover have "live_bytes bs = k + (\<Sum>q \<in> dom bs - {p}. the (bs q))"
    unfolding live_bytes_def using assms sum.remove [of "dom bs" p "\<lambda>q. the (bs q)"] by auto
  ultimately show ?thesis by (simp add: live_bytes_def)
qed

lemma live_bytes_add:
  assumes "finite (dom bs)" and "bs q = None"
  shows "live_bytes (bs(q \<mapsto> k)) = live_bytes bs + k"
proof -
  have "(\<Sum>p \<in> dom bs. the ((bs(q \<mapsto> k)) p)) = live_bytes bs"
    unfolding live_bytes_def using assms(2) by (intro sum.cong) auto
  then show ?thesis using assms by (simp add: live_bytes_def domIff)
qed

lemma lua_alloc_exact:
  assumes "mem_exact a" and "alloc_call_ok got ptr osize a"
  shows "mem_exact (fst (snd (lua_alloc got ptr osize nsize a)))"
proof -
  let ?bs = "case ptr of None \<Rightarrow> blocks a | Some p \<Rightarrow> (blocks a)(p := None)"
  let ?m = "if ptr \<noteq> None then mem a + nsize - osize else mem a + nsize"
  have fin: "finite (dom (blocks a))" "mem a = live_bytes (blocks a)" using assms(1) by (simp_all add: mem_exact_def)
  have fin': "finite (dom ?bs)" using fin(1) by (cases ptr) auto
  have m: "?m = live_bytes ?bs + nsize"
    using fin assms(2) live_bytes_remove [OF fin(1)] by (cases ptr) (auto simp: alloc_call_ok_def)
  have new: "live_bytes (?bs(q \<mapsto> nsize)) = live_bytes ?bs + nsize" if "got = Some q" for q
    using live_bytes_add [OF fin', of q nsize] that assms(2)
    by (cases ptr) (auto simp: alloc_call_ok_def)
  show ?thesis
    using fin fin' m new assms(1)
    by (auto simp: lua_alloc_def Let_def mem_exact_def split: option.splits)
qed

lemma mem_step_exact:
  assumes "mem_exact a" and "mem_step a b"
  shows "mem_exact b"
  using assms(2)
proof cases
  case (mem_alloc got ptr osize nsize)
  then show ?thesis using lua_alloc_exact [OF assms(1)] by blast
qed (use assms(1) in \<open>auto simp: set_mem_limit_def set_callback_ref_def mem_exact_def Let_def\<close>)

lemma new_lua_actor_exact: "mem_exact new_lua_actor"
  by (simp add: new_lua_actor_def mem_exact_def live_bytes_def)

interpretation lua_memory: invariant_system "\<lambda>a. a = new_lua_actor" mem_step mem_exact
  by unfold_locales (auto simp: new_lua_actor_exact intro: mem_step_exact)

section \<open>Closing the state\<close>

definition held_refs :: "lua_actor \<Rightarrow> int multiset" where
  "held_refs a = (if callback_ref a \<noteq> LUA_NOREF then {#callback_ref a#} else {#}) +
     (if traceback_ref a \<noteq> LUA_NOREF then {#traceback_ref a#} else {#})"

text \<open>A call into Lua that allocates, resizes and frees blocks, and touches neither of the two references.\<close>

inductive alloc_step :: "lua_actor \<Rightarrow> lua_actor \<Rightarrow> bool" where
  alloc_step: "alloc_call_ok got ptr osize a \<Longrightarrow> alloc_step a (fst (snd (lua_alloc got ptr osize nsize a)))"

lemma lua_alloc_frame:
  "callback_ref (fst (snd (lua_alloc got ptr osize nsize a))) = callback_ref a"
  "traceback_ref (fst (snd (lua_alloc got ptr osize nsize a))) = traceback_ref a"
  "released_refs (fst (snd (lua_alloc got ptr osize nsize a))) = released_refs a"
  "has_callback (fst (snd (lua_alloc got ptr osize nsize a))) = has_callback a"
  by (auto simp: lua_alloc_def Let_def split: option.split)

lemma alloc_steps_frame:
  assumes "alloc_step\<^sup>*\<^sup>* a b"
  shows "callback_ref b = callback_ref a" and "traceback_ref b = traceback_ref a"
    and "released_refs b = released_refs a" and "mem_exact a \<Longrightarrow> mem_exact b"
  using assms
  by (induction rule: rtranclp_induct) (auto elim!: alloc_step.cases simp: lua_alloc_frame lua_alloc_exact)

text \<open>The blocks \<open>lua_close\<close> gives back are live, each with its size, when it does.\<close>

fun frees_ok :: "(u64 \<times> u64) list \<Rightarrow> (u64 \<rightharpoonup> u64) \<Rightarrow> bool" where
  "frees_ok [] bs = True"
| "frees_ok ((p, n) # fs) bs = (bs p = Some n \<and> frees_ok fs (bs(p := None)))"

lemma closing_frees:
  assumes "frees_ok frees (blocks b)"
  shows "\<exists>m. fold (\<lambda>(p, n) b. fst (snd (lua_alloc None (Some p) n 0 b))) frees b =
      b\<lparr>mem := m, blocks := (\<lambda>p. if p \<in> fst ` set frees then None else blocks b p)\<rparr> \<and>
      (mem_exact b \<longrightarrow> m = live_bytes (\<lambda>p. if p \<in> fst ` set frees then None else blocks b p))"
  using assms
proof (induction frees arbitrary: b)
  case Nil
  show ?case by (intro exI [of _ "mem b"]) (simp add: mem_exact_def)
next
  case (Cons pn frees)
  obtain p n where pn: "pn = (p, n)" by fastforce
  let ?b = "fst (snd (lua_alloc None (Some p) n 0 b))"
  have b: "?b = b\<lparr>mem := mem b - n, blocks := (blocks b)(p := None)\<rparr>" by (simp add: lua_alloc_def)
  have live: "blocks b p = Some n" using Cons.prems pn by simp
  have exact: "mem_exact ?b" if "mem_exact b" using that live lua_alloc_exact by (simp add: alloc_call_ok_def)
  have "frees_ok frees (blocks ?b)" using Cons.prems pn by (simp add: b)
  moreover have "(\<lambda>r. if r \<in> fst ` set frees then None else blocks ?b r) =
      (\<lambda>r. if r \<in> fst ` set (pn # frees) then None else blocks b r)"
    by (auto simp: b pn)
  ultimately obtain m where m: "fold (\<lambda>(p, n) b. fst (snd (lua_alloc None (Some p) n 0 b))) frees ?b =
      ?b\<lparr>mem := m, blocks := (\<lambda>r. if r \<in> fst ` set (pn # frees) then None else blocks b r)\<rparr>"
    "mem_exact ?b \<longrightarrow> m = live_bytes (\<lambda>r. if r \<in> fst ` set (pn # frees) then None else blocks b r)"
    using Cons.IH [of ?b] by fastforce
  with exact show ?case unfolding pn by (intro exI [of _ m]) (simp add: b)
qed

section \<open>Text of socket events\<close>

fun read_nat :: "nat \<Rightarrow> string \<Rightarrow> nat" where
  "read_nat acc [] = acc"
| "read_nat acc (c # cs) = read_nat (10 * acc + (of_char c - 48)) cs"

lemma of_digit_char: "d < 10 \<Longrightarrow> of_char (digit_char d) = 48 + d"
  by (simp add: digit_char_def)

lemma read_nat_append: "read_nat acc (xs @ ys) = read_nat (read_nat acc xs) ys"
  by (induction acc xs rule: read_nat.induct) simp_all

lemma read_show_nat: "read_nat 0 (show_nat n) = n"
proof (induction n rule: show_nat.induct)
  case (1 n)
  show ?case
  proof (cases "n < 10")
    case True
    then show ?thesis by (simp add: show_nat.simps [of n] of_digit_char)
  next
    case False
    with 1 show ?thesis by (simp add: show_nat.simps [of n] read_nat_append of_digit_char)
  qed
qed

lemma show_nat_inject [simp]: "show_nat m = show_nat n \<longleftrightarrow> m = n"
  by (metis read_show_nat)

lemma digit_char_not: "d < 10 \<Longrightarrow> digit_char d \<noteq> CHR '' '' \<and> digit_char d \<noteq> CHR ''-''"
  using of_digit_char [of d] by auto

lemma show_nat_chars: "set (show_nat n) \<subseteq> digit_char ` {..<10}"
proof (induction n rule: show_nat.induct)
  case (1 n)
  then show ?case by (cases "n < 10") (auto simp: show_nat.simps [of n])
qed

lemma show_nat_no: "CHR '' '' \<notin> set (show_nat n)" "CHR ''-'' \<notin> set (show_nat n)"
  using show_nat_chars [of n] digit_char_not by fastforce+

lemma show_int_inject [simp]: "show_int i = show_int j \<longleftrightarrow> i = j"
proof
  assume eq: "show_int i = show_int j"
  have "CHR ''-'' \<noteq> hd (show_nat n)" for n
  proof -
    have "show_nat n \<noteq> []" by (subst show_nat.simps) auto
    then show ?thesis using show_nat_no(2) [of n] by (metis list.set_sel(1))
  qed
  then show "i = j"
    using eq unfolding show_int_def by (auto split: if_splits) (metis list.sel(1))+
qed simp

lemma show_int_no_space: "CHR '' '' \<notin> set (show_int i)"
  by (simp add: show_int_def show_nat_no)

text \<open>A field without blanks followed by a blank can be split off.\<close>

lemma field_inject:
  assumes "CHR '' '' \<notin> set v" and "CHR '' '' \<notin> set w"
  shows "v @ CHR '' '' # xs = w @ CHR '' '' # ys \<longleftrightarrow> v = w \<and> xs = ys"
proof
  assume eq: "v @ CHR '' '' # xs = w @ CHR '' '' # ys"
  have "takeWhile (\<lambda>c. c \<noteq> CHR '' '') (v @ CHR '' '' # xs) = v"
    if "CHR '' '' \<notin> set v" for v xs :: string using that by (auto simp: takeWhile_append)
  with eq assms have "v = w" by metis
  with eq show "v = w \<and> xs = ys" by simp
qed simp

definition plain_event :: "payload \<Rightarrow> bool" where
  "plain_event p \<longleftrightarrow>
     (case p of
        SocketAccept lid cid addr port \<Rightarrow> CHR '' '' \<notin> set addr
      | SocketOpen cid addr port \<Rightarrow> CHR '' '' \<notin> set addr
      | SocketUDP i d addr port \<Rightarrow> CHR '' '' \<notin> set addr
      | SocketData lid cid d \<Rightarrow> True
      | SocketClose lid cid \<Rightarrow> True
      | SocketWarning lid cid n \<Rightarrow> True
      | _ \<Rightarrow> False)"

section \<open>Properties\<close>

text \<open>
  C39.  Memory accounting: whatever a Lua state allocates, resizes and frees, \<open>mem_\<close> is the sum of the
  sizes of its live blocks.  With a limit set, an allocation or growth that succeeds ends within the
  limit, and freeing or shrinking a block is never refused because of it.
\<close>

theorem lua_memory_accounted:
  assumes "reach (\<lambda>a. a = new_lua_actor) mem_step a" and "alloc_call_ok got ptr osize a"
  shows "mem a = live_bytes (blocks a) \<and>
    (mem_limit a \<noteq> 0 \<and> (ptr = None \<or> nsize > osize) \<and> fst (lua_alloc got ptr osize nsize a) \<noteq> None \<longrightarrow>
       mem (fst (snd (lua_alloc got ptr osize nsize a))) \<le> mem_limit a) \<and>
    (ptr \<noteq> None \<and> nsize \<le> osize \<and> nsize \<noteq> 0 \<longrightarrow> fst (lua_alloc got ptr osize nsize a) = got)"
proof -
  have "mem a = live_bytes (blocks a)" using lua_memory.reach_inv [OF assms(1)] by (simp add: mem_exact_def)
  moreover have "mem (fst (snd (lua_alloc got ptr osize nsize a))) \<le> mem_limit a"
    if "mem_limit a \<noteq> 0" "ptr = None \<or> nsize > osize" "fst (lua_alloc got ptr osize nsize a) \<noteq> None"
    using that by (auto simp: lua_alloc_def Let_def not_le split: option.splits if_splits)
  moreover have "fst (lua_alloc got ptr osize nsize a) = got"
    if "ptr \<noteq> None" "nsize \<le> osize" "nsize \<noteq> 0"
    using that by (auto simp: lua_alloc_def Let_def split: option.splits)
  ultimately show ?thesis by blast
qed

theorem lua_memory_accounted_witness:
  "mem (fst (snd (lua_alloc (Some 16) None 0 100 new_lua_actor))) =
     live_bytes (blocks (fst (snd (lua_alloc (Some 16) None 0 100 new_lua_actor))))"
proof -
  let ?a = "fst (snd (lua_alloc (Some 16) None 0 100 new_lua_actor))"
  have ok: "alloc_call_ok (Some 16) None 0 new_lua_actor" by (simp add: alloc_call_ok_def new_lua_actor_def)
  have "reach (\<lambda>a. a = new_lua_actor) mem_step new_lua_actor" by (rule reach_init) simp
  then have "reach (\<lambda>a. a = new_lua_actor) mem_step ?a" by (rule reach_step) (rule mem_alloc [OF ok])
  moreover have "alloc_call_ok None None 0 ?a" by (simp add: alloc_call_ok_def)
  ultimately show ?thesis using lua_memory_accounted by blast
qed

text \<open>
  C14.  The references of a Lua actor: registering a callback releases the reference of the one it replaces, and
  \<open>on_destroy\<close> releases each reference the actor holds, once, and closes the state.  It keeps the account of the
  memory exact: the blocks \<open>lua_close\<close> gives back are live no more, the others still are, and \<open>mem_\<close> is the sum
  of their sizes.  Afterwards a message is passed to no callback, its payload is released, and neither a second
  \<open>on_destroy\<close> nor the destructor does anything.  (Assumed of the Lua library: the flush of the coverage module
  does no more to the actor than to allocate and free, and \<open>lua_close\<close> frees live blocks with their sizes.)
\<close>

theorem lua_state_released:
  assumes "has_state a" and "mem_exact a"
    and "\<And>b. blocks b = blocks a \<Longrightarrow> mem b = mem a \<Longrightarrow> mem_limit b = mem_limit a \<Longrightarrow>
      alloc_step\<^sup>*\<^sup>* b (flush b) \<and> frees_ok frees (blocks (flush b))"
    and "a' = lua_on_destroy flush frees a"
  shows "mset (released_refs (set_callback_ref ref a)) + held_refs (set_callback_ref ref a) =
      mset (released_refs a) + held_refs a + (if ref = LUA_NOREF then {#} else {#ref#}) \<and>
    mset (released_refs a') = mset (released_refs a) + held_refs a \<and> held_refs a' = {#} \<and> \<not> has_state a' \<and>
    mem a' = live_bytes (blocks a') \<and> (\<forall>(p, n) \<in> set frees. blocks a' p = None) \<and>
    lua_on_message registered call h a' m s = free_owned_lua_payload m s \<and>
    lua_on_destroy flush' frees' a' = a' \<and> lua_destruct frees' a' = a'"
proof -
  define a1 where "a1 = (if callback_ref a \<noteq> LUA_NOREF
    then a\<lparr>released_refs := released_refs a @ [callback_ref a], callback_ref := LUA_NOREF, has_callback := False\<rparr> else a)"
  define a2 where "a2 = (if traceback_ref a1 \<noteq> LUA_NOREF
    then a1\<lparr>released_refs := released_refs a1 @ [traceback_ref a1], traceback_ref := LUA_NOREF\<rparr> else a1)"
  have refs: "mset (released_refs a2) = mset (released_refs a) + held_refs a" "callback_ref a2 = LUA_NOREF"
    "traceback_ref a2 = LUA_NOREF" and mem: "blocks a2 = blocks a" "mem a2 = mem a" "mem_limit a2 = mem_limit a"
    by (auto simp: a1_def a2_def held_refs_def)
  from mem assms(3) have steps: "alloc_step\<^sup>*\<^sup>* a2 (flush a2)" and ok: "frees_ok frees (blocks (flush a2))" by blast+
  have "mem_exact a2" using assms(2) mem by (simp add: mem_exact_def)
  note flushed = alloc_steps_frame(1-3) [OF steps] alloc_steps_frame(4) [OF steps this]
  obtain k where k: "fold (\<lambda>(p, n) b. fst (snd (lua_alloc None (Some p) n 0 b))) frees (flush a2) =
      (flush a2)\<lparr>mem := k, blocks := (\<lambda>p. if p \<in> fst ` set frees then None else blocks (flush a2) p)\<rparr>"
    "k = live_bytes (\<lambda>p. if p \<in> fst ` set frees then None else blocks (flush a2) p)"
    using closing_frees [OF ok] flushed(4) by blast
  have a': "a' = (flush a2)\<lparr>mem := k, blocks := (\<lambda>p. if p \<in> fst ` set frees then None else blocks (flush a2) p),
      has_state := False\<rparr>"
    using assms(1) k(1) unfolding assms(4) lua_on_destroy_def a2_def a1_def Let_def by simp
  have "mset (released_refs (set_callback_ref ref a)) + held_refs (set_callback_ref ref a) =
      mset (released_refs a) + held_refs a + (if ref = LUA_NOREF then {#} else {#ref#})"
    using assms(1) by (auto simp: set_callback_ref_def held_refs_def Let_def)
  moreover have "\<forall>(p, n) \<in> set frees. blocks a' p = None" by (force simp: a')
  moreover have "mem a' = live_bytes (blocks a')" by (simp add: a' k(2))
  ultimately show ?thesis
    using refs flushed(1-3)
    by (simp add: a' held_refs_def lua_on_message_def lua_on_destroy_def lua_destruct_def)
qed

text \<open>The flush allocates 100 bytes, and \<open>lua_close\<close> gives them back.\<close>

theorem lua_state_released_witness:
  "mset (released_refs (lua_on_destroy (\<lambda>b. fst (snd (lua_alloc (Some 16) None 0 100 b))) [(16, 100)]
     (new_lua_actor\<lparr>has_state := True, has_callback := True, callback_ref := 5, traceback_ref := 4\<rparr>))) = {#4, 5#} \<and>
   blocks (lua_on_destroy (\<lambda>b. fst (snd (lua_alloc (Some 16) None 0 100 b))) [(16, 100)]
     (new_lua_actor\<lparr>has_state := True, has_callback := True, callback_ref := 5, traceback_ref := 4\<rparr>)) 16 = None"
proof -
  let ?a = "new_lua_actor\<lparr>has_state := True, has_callback := True, callback_ref := 5, traceback_ref := 4\<rparr>"
  let ?flush = "\<lambda>b. fst (snd (lua_alloc (Some 16) None 0 100 b))"
  have "mem_exact ?a" using new_lua_actor_exact by (simp add: mem_exact_def)
  moreover have "alloc_step\<^sup>*\<^sup>* b (?flush b) \<and> frees_ok [(16, 100)] (blocks (?flush b))"
    if "blocks b = blocks ?a" "mem b = mem ?a" "mem_limit b = mem_limit ?a" for b
  proof
    have "alloc_call_ok (Some 16) None 0 b" using that by (simp add: alloc_call_ok_def new_lua_actor_def)
    then show "alloc_step\<^sup>*\<^sup>* b (?flush b)" by (intro r_into_rtranclp alloc_step)
    show "frees_ok [(16, 100)] (blocks (?flush b))"
      using that by (simp add: lua_alloc_def new_lua_actor_def Let_def)
  qed
  ultimately show ?thesis
    using lua_state_released [of ?a ?flush "[(16, 100)]", OF _ _ _ refl]
    by (simp add: held_refs_def new_lua_actor_def)
qed

text \<open>
  Socket events are unambiguous: two events whose addresses contain no blanks are passed to Lua
  as the same text only if they are equal, whatever bytes their data contains.
\<close>

theorem socket_event_text_injective:
  assumes "plain_event p" and "plain_event q"
  shows "encode_event p = encode_event q \<longleftrightarrow> p = q"
proof
  assume "encode_event p = encode_event q"
  with assms show "p = q"
    by (cases p; cases q)
      (auto simp: plain_event_def field_inject show_int_no_space show_nat_no signed_word_eqI unsigned_word_eqI)
qed simp

theorem socket_event_text_injective_witness:
  "encode_event (SocketData 1 12 ''3 hello'') \<noteq> encode_event (SocketData 1 12 ''3 hello '') \<and>
   encode_event (SocketClose 1 23) \<noteq> encode_event (SocketClose 12 3)"
proof -
  have "plain_event (SocketData 1 12 ''3 hello'')" "plain_event (SocketData 1 12 ''3 hello '')"
    "plain_event (SocketClose 1 23)" "plain_event (SocketClose 12 3)" by (simp_all add: plain_event_def)
  note e = socket_event_text_injective [OF this(1,2)] socket_event_text_injective [OF this(3,4)]
  show ?thesis unfolding e by simp
qed

text \<open>
  Ownership of serialized payloads: an actor without a Lua state or callback frees the payload;
  with a live callback the pointer is handed to Lua exactly for the types LUA, RESPONSE, MULTICAST
  and DEBUG.  For every other type the callback receives neither the data nor its size and the
  payload is not freed.
\<close>

theorem seri_payload_ownership:
  assumes "mdata m = SeriData p n"
  shows "(\<not> has_state a \<or> \<not> has_callback a \<longrightarrow> lua_on_message registered call h a m s = emit (EvFree p) s) \<and>
    (has_state a \<and> has_callback a \<and> registered (callback_ref a) \<longrightarrow>
       lua_on_message registered call h a m s =
         (case call [AInteger (mtype m),
                     if mtype m \<in> {PTYPE_LUA, PTYPE_RESPONSE, PTYPE_MULTICAST, PTYPE_DEBUG} then ALight p
                     else if mtype m = PTYPE_SOCKET then AString ''unknown'' else ANil,
                     if mtype m \<in> {PTYPE_LUA, PTYPE_RESPONSE, PTYPE_MULTICAST, PTYPE_DEBUG} then AInteger (sint n)
                     else if mtype m = PTYPE_SOCKET then AInteger 7 else AInteger 0,
                     AInteger (sint (session m)), AInteger (uint (source m))] s of
            (s1, None) \<Rightarrow> s1
          | (s1, Some what) \<Rightarrow> error h (''LuaActor callback error: '' @ what) s1))"
  using assms by (auto simp: lua_on_message_def free_owned_lua_payload_def callback_args_def)

theorem seri_payload_ownership_witness:
  "lua_on_message (\<lambda>r. True) (\<lambda>args s. (s\<lparr>cur_thread := length args\<rparr>, None)) 1
      (new_lua_actor\<lparr>has_state := True, has_callback := True\<rparr>)
      \<lparr>source = 2, session = 3, mtype = PTYPE_SNAX, mdata = SeriData 64 8\<rparr> (new_system 4 4) =
    (new_system 4 4)\<lparr>cur_thread := 5\<rparr>"
  using seri_payload_ownership [of "\<lparr>source = 2, session = 3, mtype = PTYPE_SNAX, mdata = SeriData 64 8\<rparr>" 64 8
      "new_lua_actor\<lparr>has_state := True, has_callback := True\<rparr>" "\<lambda>r. True"
      "\<lambda>args s. (s\<lparr>cur_thread := length args\<rparr>, None)" 1 "new_system 4 4"]
  by simp

end
