(* ===== verification/Platform.thy ===== *)
theory Platform
  imports Lua_Paths
begin

text \<open>
  \<open>src/src/platform.cpp\<close>: the environment, the working directory and whole files.  The outcome of the
  system calls is an input.  Names of files are resolved by \<open>file_of\<close>; two names may mean one file.
\<close>

section \<open>State\<close>

record host =
  host_env :: "string \<rightharpoonup> string"
  host_cwd :: "string option"          \<comment> \<open>\<open>None\<close> if it cannot be determined\<close>
  host_files :: "nat \<rightharpoonup> string"

definition getenv_string :: "string \<Rightarrow> host \<Rightarrow> string" where
  "getenv_string name h = (case host_env h (c_str name) of None \<Rightarrow> [] | Some v \<Rightarrow> v)"

definition current_path :: "host \<Rightarrow> string" where
  "current_path h = (case host_cwd h of None \<Rightarrow> ''.'' | Some p \<Rightarrow> p)"

section \<open>Files\<close>

text \<open>
  \<open>ShortWrite\<close>: \<open>write\<close> fails after some bytes.  \<open>LostAtClose\<close>: it succeeds into the buffer of the stream
  and fails when the destructor flushes the buffer, which nobody observes.
\<close>

datatype write_outcome = CannotWrite | ShortWrite nat | LostAtClose nat | Written

definition write_file ::
    "(string \<Rightarrow> nat) \<Rightarrow> write_outcome \<Rightarrow> string \<Rightarrow> string \<Rightarrow> bool \<Rightarrow> host \<Rightarrow> string option \<times> host" where
  "write_file file_of outcome path data app h =
     (let f = file_of (c_str path);
          old = (if app then (case host_files h f of None \<Rightarrow> [] | Some t \<Rightarrow> t) else []);
          put = (\<lambda>d. h\<lparr>host_files := (host_files h)(f \<mapsto> old @ d)\<rparr>)
      in case outcome of
           CannotWrite \<Rightarrow> (Some (''failed to open '' @ path), h)
         | ShortWrite n \<Rightarrow> (Some (''short write to '' @ path), put (take n data))
         | LostAtClose n \<Rightarrow> (None, put (take n data))
         | Written \<Rightarrow> (None, put data))"

text \<open>
  \<open>out << file.rdbuf()\<close> reports a read error in the state of \<open>out\<close>, not of \<open>file\<close>, whose state is tested
  afterwards: what was read up to the error is returned as the contents.
\<close>

datatype read_outcome = CannotRead | ReadBreaksOff nat | ReadAll

definition read_file ::
    "(string \<Rightarrow> nat) \<Rightarrow> read_outcome \<Rightarrow> string \<Rightarrow> host \<Rightarrow> string + string" where
  "read_file file_of outcome path h =
     (let contents = (case host_files h (file_of (c_str path)) of None \<Rightarrow> [] | Some t \<Rightarrow> t);
          file_good = True
      in case outcome of
           CannotRead \<Rightarrow> Inl (''failed to open '' @ path)
         | ReadBreaksOff n \<Rightarrow>
             if \<not> file_good then Inl (''failed to read '' @ path) else Inr (take n contents)
         | ReadAll \<Rightarrow> Inr contents)"

end
