(* ===== verification/Lua_Binding.thy ===== *)
theory Lua_Binding
  imports Lua_Actor Platform
begin

text \<open>
  The \<open>skynet.core\<close> module, \<open>src/src/lua_binding.cpp\<close>: the commands a Lua service gives to the
  runtime.  \<open>a\<close> and \<open>h\<close> are the object and the handle of the calling actor.  Integer arguments are what
  \<open>luaL_checkinteger\<close> returns, strings what \<open>luaL_checklstring\<close> returns; the checks themselves, the table of the
  functions and the readings of clocks and of the collector are in \<open>Lua_Calls\<close>.
\<close>

section \<open>Context, arguments and results\<close>

record core_ctx =
  core_sys :: system
  core_lua :: lua_actor
  core_paths :: lua_path_config

datatype msg_arg = MString string | MLight u64 | MNil | MOther

datatype core_result = LuaError string | Returns "lua_arg list"

abbreviation (input) as_int :: "u64 \<Rightarrow> i32" where "as_int n \<equiv> ucast n"
abbreviation (input) as_u32 :: "u64 \<Rightarrow> u32" where "as_u32 n \<equiv> ucast n"

section \<open>Messages\<close>

definition lsend ::
    "obj \<Rightarrow> u32 \<Rightarrow> u64 \<Rightarrow> u64 \<Rightarrow> u64 option \<Rightarrow> msg_arg \<Rightarrow> u64 \<Rightarrow> core_ctx \<Rightarrow> core_result \<times> core_ctx" where
  "lsend a h dest ty ses msg sz c =
     (let (sid, s1) = (case ses of None \<Rightarrow> alloc_session a (core_sys c) | Some n \<Rightarrow> (as_int n, core_sys c));
          data = (case msg of MString t \<Rightarrow> Some (Text t) | MLight p \<Rightarrow> Some (SeriData p sz)
                  | MNil \<Rightarrow> Some (Text []) | MOther \<Rightarrow> None)
      in case data of
           None \<Rightarrow> (LuaError ''invalid message type'', c\<lparr>core_sys := s1\<rparr>)
         | Some d \<Rightarrow>
             (Returns [AInteger (sint sid)],
              c\<lparr>core_sys := send h (as_u32 dest) (sint (as_int ty)) sid d s1\<rparr>))"

definition lredirect ::
    "u64 \<Rightarrow> u64 \<Rightarrow> u64 \<Rightarrow> u64 \<Rightarrow> msg_arg \<Rightarrow> u64 \<Rightarrow> core_ctx \<Rightarrow> core_result \<times> core_ctx" where
  "lredirect dest src ty ses msg sz c =
     (let data = (case msg of MString t \<Rightarrow> Text t | MLight p \<Rightarrow> SeriData p sz | _ \<Rightarrow> Text [])
      in (Returns [],
          c\<lparr>core_sys := send (as_u32 src) (as_u32 dest) (sint (as_int ty)) (as_int ses) data (core_sys c)\<rparr>))"

definition lgenid :: "obj \<Rightarrow> core_ctx \<Rightarrow> core_result \<times> core_ctx" where
  "lgenid a c =
     (let (sid, s1) = alloc_session a (core_sys c)
      in (Returns [AInteger (sint sid)], c\<lparr>core_sys := s1\<rparr>))"

definition lself :: "u32 \<Rightarrow> core_ctx \<Rightarrow> core_result \<times> core_ctx" where
  "lself h c = (Returns [AInteger (uint h)], c)"

definition lerror :: "u32 \<Rightarrow> string \<Rightarrow> core_ctx \<Rightarrow> core_result \<times> core_ctx" where
  "lerror h t c = (Returns [], c\<lparr>core_sys := error h (c_str t) (core_sys c)\<rparr>)"

text \<open>\<open>ti\<close> centiseconds; the product is a signed 64-bit multiplication.\<close>

definition ltimeout :: "obj \<Rightarrow> u32 \<Rightarrow> u64 \<Rightarrow> u64 option \<Rightarrow> core_ctx \<Rightarrow> core_result \<times> core_ctx" where
  "ltimeout a h ti ses c =
     (let ms = sint (ti * 10);
          (sid, s1) = (case ses of None \<Rightarrow> alloc_session a (core_sys c) | Some n \<Rightarrow> (as_int n, core_sys c))
      in (Returns [AInteger (sint sid)], c\<lparr>core_sys := timeout h sid ms s1\<rparr>))"

text \<open>\<open>mem p n\<close> are the \<open>n\<close> bytes at address \<open>p\<close>.\<close>

definition core_ltostring :: "(u64 \<Rightarrow> nat \<Rightarrow> string) \<Rightarrow> msg_arg \<Rightarrow> u64 \<Rightarrow> core_ctx \<Rightarrow> core_result \<times> core_ctx" where
  "core_ltostring memory msg sz c =
     (case msg of
        MString t \<Rightarrow> (Returns [AString t], c)
      | MLight p \<Rightarrow> (Returns [AString (memory p (unat sz))], c)
      | _ \<Rightarrow> (LuaError ''skynet.tostring: invalid type'', c))"

definition ltrash :: "msg_arg \<Rightarrow> core_ctx \<Rightarrow> core_result \<times> core_ctx" where
  "ltrash msg c =
     (Returns [], case msg of MLight p \<Rightarrow> c\<lparr>core_sys := emit (EvFree p) (core_sys c)\<rparr> | _ \<Rightarrow> c)"

section \<open>Names and services\<close>

definition lreg :: "u32 \<Rightarrow> string option \<Rightarrow> core_ctx \<Rightarrow> core_result \<times> core_ctx" where
  "lreg h name c =
     (Returns [AString ('':'' @ show_hex8 h)],
      case name of None \<Rightarrow> c | Some n \<Rightarrow> c\<lparr>core_sys := register_name (c_str n) h (core_sys c)\<rparr>)"

definition lnameservice :: "string \<Rightarrow> u64 \<Rightarrow> core_ctx \<Rightarrow> core_result \<times> core_ctx" where
  "lnameservice name n c =
     (Returns [], c\<lparr>core_sys := register_name (c_str name) (as_u32 n) (core_sys c)\<rparr>)"

definition lquery :: "string \<Rightarrow> core_ctx \<Rightarrow> core_result \<times> core_ctx" where
  "lquery name c =
     (let h = find_name (core_sys c) (c_str name)
      in (Returns [if h = 0 then ANil else AInteger (uint h)], c))"

definition lexit :: "(nat list \<Rightarrow> nat) \<Rightarrow> u32 \<Rightarrow> core_ctx \<Rightarrow> core_result \<times> core_ctx" where
  "lexit pick h c = (Returns [], c\<lparr>core_sys := kill pick h (core_sys c)\<rparr>)"

definition lkill :: "(nat list \<Rightarrow> nat) \<Rightarrow> u64 \<Rightarrow> core_ctx \<Rightarrow> core_result \<times> core_ctx" where
  "lkill pick n c =
     (Returns [], if as_u32 n \<noteq> 0 then c\<lparr>core_sys := kill pick (as_u32 n) (core_sys c)\<rparr> else c)"

definition lshutdown :: "core_ctx \<Rightarrow> core_result \<times> core_ctx" where
  "lshutdown c = (Returns [], c\<lparr>core_sys := shutdown (core_sys c)\<rparr>)"

text \<open>
  The parameter of a new service, and its creation: what its script does in \<open>on_init\<close> depends on the
  parameter.
\<close>

definition service_param :: "string list \<Rightarrow> string" where
  "service_param args =
     (case args of [] \<Rightarrow> [] | name # rest \<Rightarrow> fold (\<lambda>arg p. p @ '' '' @ c_str arg) rest (c_str name))"

definition lnewservice ::
    "(nat list \<Rightarrow> nat) \<Rightarrow> (string \<Rightarrow> action list \<times> init_outcome) \<Rightarrow> string list \<Rightarrow> core_ctx \<Rightarrow> core_result \<times> core_ctx" where
  "lnewservice pick script args c =
     (let (acts, out) = script (service_param args);
          (handle, s1) = spawn pick acts out (core_sys c);
          c1 = c\<lparr>core_sys := s1\<rparr>
      in if handle = 0 then (LuaError (''failed to spawn service: '' @ c_str (hd args)), c1)
         else (Returns [AInteger (uint handle)], c1))"

section \<open>Callback, memory and statistics\<close>

definition lcallback :: "int \<Rightarrow> core_ctx \<Rightarrow> core_result \<times> core_ctx" where
  "lcallback ref c = (Returns [], c\<lparr>core_lua := set_callback_ref ref (core_lua c)\<rparr>)"

definition lmemlimit :: "u64 option \<Rightarrow> core_ctx \<Rightarrow> core_result \<times> core_ctx" where
  "lmemlimit limit c =
     (Returns [AInteger (sint (mem_limit (core_lua c)))],
      case limit of None \<Rightarrow> c | Some n \<Rightarrow> c\<lparr>core_lua := set_mem_limit n (core_lua c)\<rparr>)"

definition lmemused :: "core_ctx \<Rightarrow> core_result \<times> core_ctx" where
  "lmemused c = (Returns [AInteger (sint (mem (core_lua c)))], c)"

definition lsystemstat :: "core_ctx \<Rightarrow> system_stats" where
  "lsystemstat c = stats (core_sys c)"

definition lharbor :: "core_ctx \<Rightarrow> core_result \<times> core_ctx" where
  "lharbor c = (Returns [AInteger 0, AInteger 0], c)"

section \<open>Search paths\<close>

definition lsetpathbase :: "string \<Rightarrow> core_ctx \<Rightarrow> core_result \<times> core_ctx" where
  "lsetpathbase p c = (Returns [], c\<lparr>core_paths := set_lua_path_base (c_str p) (core_paths c)\<rparr>)"

definition lgetpathbase :: "core_ctx \<Rightarrow> core_result \<times> core_ctx" where
  "lgetpathbase c = (Returns [AString (path_base (core_paths c))], c)"

definition lappendpath :: "string \<Rightarrow> core_ctx \<Rightarrow> core_result \<times> core_ctx" where
  "lappendpath p c = (Returns [], c\<lparr>core_paths := append_lua_path (c_str p) (core_paths c)\<rparr>)"

definition lprependpath :: "string \<Rightarrow> core_ctx \<Rightarrow> core_result \<times> core_ctx" where
  "lprependpath p c = (Returns [], c\<lparr>core_paths := prepend_lua_path (c_str p) (core_paths c)\<rparr>)"

definition lappendcpath :: "string \<Rightarrow> core_ctx \<Rightarrow> core_result \<times> core_ctx" where
  "lappendcpath p c = (Returns [], c\<lparr>core_paths := append_lua_cpath (c_str p) (core_paths c)\<rparr>)"

definition lappendservicepath :: "string \<Rightarrow> core_ctx \<Rightarrow> core_result \<times> core_ctx" where
  "lappendservicepath p c = (Returns [], c\<lparr>core_paths := append_lua_service_path (c_str p) (core_paths c)\<rparr>)"

definition lgetpath :: "core_ctx \<Rightarrow> (string \<times> string) list" where
  "lgetpath c =
     [(''path_base'', path_base (core_paths c)), (''path'', lua_path (core_paths c)),
      (''cpath'', lua_cpath (core_paths c)), (''service_path'', service_path (core_paths c))]"

section \<open>Environment and files\<close>

definition lcore_env :: "string \<Rightarrow> host \<Rightarrow> core_result" where
  "lcore_env name h =
     (let value = getenv_string (c_str name) h in Returns [if value \<noteq> [] then AString value else ANil])"

definition lgetcwd :: "host \<Rightarrow> core_result" where
  "lgetcwd h = Returns [AString (current_path h)]"

definition lwritefile ::
    "(string \<Rightarrow> nat) \<Rightarrow> write_outcome \<Rightarrow> string \<Rightarrow> string \<Rightarrow> bool \<Rightarrow> host \<Rightarrow> core_result \<times> host" where
  "lwritefile file_of outcome path data app h =
     (case write_file file_of outcome (c_str path) data app h of
        (Some what, h1) \<Rightarrow> (Returns [ANil, AString what], h1)
      | (None, h1) \<Rightarrow> (Returns [ABool True], h1))"

definition lreadfile :: "(string \<Rightarrow> nat) \<Rightarrow> read_outcome \<Rightarrow> string \<Rightarrow> host \<Rightarrow> core_result" where
  "lreadfile file_of outcome path h =
     (case read_file file_of outcome (c_str path) h of
        Inl what \<Rightarrow> Returns [ANil, AString what]
      | Inr data \<Rightarrow> Returns [AString data])"

definition demo_ctx :: core_ctx where
  "demo_ctx = \<lparr>core_sys = new_system 4 4, core_lua = new_lua_actor, core_paths = new_lua_paths ''/srv''\<rparr>"

section \<open>Properties\<close>

text \<open>
  Names: after a service registers a name, looking the name up returns its handle, and looking
  up any other name returns what it returned before.  Names are compared up to their first zero byte.
\<close>

theorem registered_name_is_found:
  assumes "h \<noteq> 0"
  shows "fst (lquery name' (snd (lreg h (Some name) c))) =
    (if c_str name' = c_str name then Returns [AInteger (uint h)] else fst (lquery name' c))"
proof -
  have "names (register_name n h s) = AList.update n h (names s)" for n s
    by (simp add: register_name_def Let_def)
  then have "find_name (register_name n h s) n' = (if n' = n then h else find_name s n')" for n n' s
    by (simp add: find_name_def update_conv')
  with assms show ?thesis by (simp add: lquery_def lreg_def Let_def)
qed

theorem registered_name_is_found_witness:
  "fst (lquery ''db'' (snd (lreg 3 (Some ''db'') demo_ctx))) = Returns [AInteger 3]"
  using registered_name_is_found [of 3 "''db''" "''db''" demo_ctx] by simp

text \<open>
  Timeouts: a delay of up to 922337203685477580 centiseconds is converted exactly.  Beyond that
  the multiplication overflows: the next delay fires at once.
\<close>

theorem timeout_conversion:
  assumes "0 < sint ti" and "sint ti \<le> 922337203685477580"
  shows "snd (ltimeout a h ti (Some n) c) = c\<lparr>core_sys := timeout h (ucast n) (10 * sint ti) (core_sys c)\<rparr> \<and>
    snd (ltimeout a h 922337203685477581 (Some n) c) =
      c\<lparr>core_sys := send 0 h PTYPE_RESPONSE (ucast n) Monostate (core_sys c)\<rparr>"
proof -
  have "sint (ti * 10) = signed_take_bit 63 (sint ti * sint (10 :: u64))" by (simp add: sint_word_ariths)
  then have e: "sint (ti * 10) = sint ti * 10"
    using assms by (simp add: signed_take_bit_int_eq_self)
  have "sint ((922337203685477581 :: u64) * 10) \<le> 0" by simp
  with e assms show ?thesis by (simp add: ltimeout_def timeout_def mult.commute)
qed

theorem timeout_conversion_witness:
  "snd (ltimeout 0 1 500 (Some 3) demo_ctx) = demo_ctx\<lparr>core_sys := timeout 1 3 5000 (core_sys demo_ctx)\<rparr>"
  using timeout_conversion [of 500 0 1 3 demo_ctx] by simp

text \<open>
  Files: what \<open>writefile\<close> has written \<open>readfile\<close> returns, after what the file held before if it was
  appended; other files are untouched.  A failed write that reached the buffer of the stream is
  answered with true, and a read that breaks off with what was read so far.
\<close>

lemma c_str_c_str [simp]: "c_str (c_str s) = c_str s"
  by (simp add: c_str_def takeWhile_idem)

theorem written_file_is_read:
  assumes "lwritefile file_of Written path data app h = (r, h')"
  shows "r = Returns [ABool True] \<and>
    lreadfile file_of ReadAll path h' =
      Returns [AString ((if app then (case host_files h (file_of (c_str path)) of None \<Rightarrow> [] | Some t \<Rightarrow> t) else []) @ data)] \<and>
    (file_of (c_str other) \<noteq> file_of (c_str path) \<longrightarrow>
       lreadfile file_of out other h' = lreadfile file_of out other h) \<and>
    fst (lwritefile file_of (LostAtClose n) path data app h) = r \<and>
    (\<exists>t. lreadfile file_of (ReadBreaksOff n) path h' = Returns [AString t])"
  using assms
  by (cases out) (auto simp: lwritefile_def lreadfile_def write_file_def read_file_def Let_def)

theorem written_file_is_read_witness:
  "lreadfile length ReadAll ''log'' (snd (lwritefile length Written ''log'' ''b'' True
     \<lparr>host_env = Map.empty, host_cwd = None, host_files = [3 \<mapsto> ''a'']\<rparr>)) = Returns [AString ''ab'']"
proof -
  let ?h = "\<lparr>host_env = Map.empty, host_cwd = None, host_files = [3 \<mapsto> ''a'']\<rparr>"
  obtain r h' where rh: "lwritefile length Written ''log'' ''b'' True ?h = (r, h')" by fastforce
  from written_file_is_read [OF this] have "lreadfile length ReadAll ''log'' h' = Returns [AString ''ab'']"
    by (simp add: c_str_def)
  with rh show ?thesis by simp
qed

end
