(* ===== verification/Lua_Commands.thy ===== *)
theory Lua_Commands
  imports Lua_Binding Actor_Behaviour
begin

text \<open>
  What a Lua service can do to the runtime.  The commands of \<open>skynet.core\<close> are collected in a datatype and
  run by \<open>core_call\<close>; every command is a sequence of the actions of the actor model, so that the handling
  of a message by \<open>LuaActor\<close> is one of the behaviours the actor system is verified for.
\<close>

section \<open>Commands\<close>

datatype command =
    CSend u64 u64 "u64 option" msg_arg u64
  | CRedirect u64 u64 u64 u64 msg_arg u64
  | CGenid | CSelf
  | CError string
  | CTimeout u64 "u64 option"
  | CTrash msg_arg
  | CReg "string option"
  | CNameservice string u64
  | CQuery string
  | CExit
  | CKill u64
  | CShutdown
  | CNewservice "string list"
  | CCallback int
  | CMemlimit "u64 option"
  | CMemused | CHarbor | CGetpathbase
  | CSetpathbase string | CAppendpath string | CPrependpath string | CAppendcpath string
  | CAppendservicepath string

text \<open>\<open>script\<close> is what a new service does in \<open>on_init\<close>, given its parameter.\<close>

fun core_call ::
    "(nat list \<Rightarrow> nat) \<Rightarrow> (string \<Rightarrow> action list \<times> init_outcome) \<Rightarrow> obj \<Rightarrow> u32 \<Rightarrow> command \<Rightarrow> core_ctx \<Rightarrow>
     core_result \<times> core_ctx" where
  "core_call pick script a h (CSend dest ty ses msg sz) c = lsend a h dest ty ses msg sz c"
| "core_call pick script a h (CRedirect dest src ty ses msg sz) c = lredirect dest src ty ses msg sz c"
| "core_call pick script a h CGenid c = lgenid a c"
| "core_call pick script a h CSelf c = lself h c"
| "core_call pick script a h (CError t) c = lerror h t c"
| "core_call pick script a h (CTimeout ti ses) c = ltimeout a h ti ses c"
| "core_call pick script a h (CTrash msg) c = ltrash msg c"
| "core_call pick script a h (CReg name) c = lreg h name c"
| "core_call pick script a h (CNameservice name n) c = lnameservice name n c"
| "core_call pick script a h (CQuery name) c = lquery name c"
| "core_call pick script a h CExit c = lexit pick h c"
| "core_call pick script a h (CKill n) c = lkill pick n c"
| "core_call pick script a h CShutdown c = lshutdown c"
| "core_call pick script a h (CNewservice args) c = lnewservice pick script args c"
| "core_call pick script a h (CCallback ref) c = lcallback ref c"
| "core_call pick script a h (CMemlimit limit) c = lmemlimit limit c"
| "core_call pick script a h CMemused c = lmemused c"
| "core_call pick script a h CHarbor c = lharbor c"
| "core_call pick script a h CGetpathbase c = lgetpathbase c"
| "core_call pick script a h (CSetpathbase p) c = lsetpathbase p c"
| "core_call pick script a h (CAppendpath p) c = lappendpath p c"
| "core_call pick script a h (CPrependpath p) c = lprependpath p c"
| "core_call pick script a h (CAppendcpath p) c = lappendcpath p c"
| "core_call pick script a h (CAppendservicepath p) c = lappendservicepath p c"

section \<open>The actions of a command\<close>

fun send_payload :: "msg_arg \<Rightarrow> u64 \<Rightarrow> payload option" where
  "send_payload (MString t) sz = Some (Text t)"
| "send_payload (MLight p) sz = Some (SeriData p sz)"
| "send_payload MNil sz = Some (Text [])"
| "send_payload MOther sz = None"

fun send_actions :: "u32 \<Rightarrow> u32 \<Rightarrow> int \<Rightarrow> i32 option \<Rightarrow> payload option \<Rightarrow> action list" where
  "send_actions h dest ty None None = [AGenSession]"
| "send_actions h dest ty None (Some d) = [ARequest dest ty d]"
| "send_actions h dest ty (Some ses) None = []"
| "send_actions h dest ty (Some ses) (Some d) = [ASystemSend h dest ty ses d]"

fun command_actions :: "(string \<Rightarrow> action list \<times> init_outcome) \<Rightarrow> u32 \<Rightarrow> command \<Rightarrow> action list" where
  "command_actions script h (CSend dest ty ses msg sz) =
     send_actions h (ucast dest) (sint (ucast ty :: i32)) (map_option ucast ses) (send_payload msg sz)"
| "command_actions script h (CRedirect dest src ty ses msg sz) =
     [ASystemSend (ucast src) (ucast dest) (sint (ucast ty :: i32)) (ucast ses)
        (case send_payload msg sz of None \<Rightarrow> Text [] | Some d \<Rightarrow> d)]"
| "command_actions script h CGenid = [AGenSession]"
| "command_actions script h (CError t) = [AError (c_str t)]"
| "command_actions script h (CTimeout ti ses) =
     [case ses of None \<Rightarrow> ATimeout (sint (ti * 10)) | Some n \<Rightarrow> ASystemTimeout h (ucast n) (sint (ti * 10))]"
| "command_actions script h (CTrash msg) = (case msg of MLight p \<Rightarrow> [AFree p] | _ \<Rightarrow> [])"
| "command_actions script h (CReg name) = (case name of None \<Rightarrow> [] | Some n \<Rightarrow> [ARegister (c_str n) h])"
| "command_actions script h (CNameservice name n) = [ARegister (c_str name) (ucast n)]"
| "command_actions script h CExit = [AKill h]"
| "command_actions script h (CKill n) = (if (ucast n :: u32) \<noteq> 0 then [AKill (ucast n)] else [])"
| "command_actions script h CShutdown = [AShutdown]"
| "command_actions script h (CNewservice args) =
     (let (acts, out) = script (service_param args) in [ASpawn acts out])"
| "command_actions script h cmd = []"

lemma run_spawn: "run_action pick a h (ASpawn acts out) s = snd (spawn pick acts out s)"
  by (simp add: spawn_def split: prod.split)

lemma core_call_actions:
  "core_sys (snd (core_call pick script a h cmd c)) = run_actions pick a h (command_actions script h cmd) (core_sys c)"
proof (cases cmd)
  case (CSend dest ty ses msg sz)
  then show ?thesis
    by (cases msg; cases ses) (simp_all add: lsend_def split: prod.split)
next
  case (CRedirect dest src ty ses msg sz)
  then show ?thesis by (cases msg) (simp_all add: lredirect_def)
next
  case (CNewservice args)
  then show ?thesis
    by (simp add: lnewservice_def Let_def run_spawn del: run_action.simps(9) split: prod.split)
qed (auto simp: lgenid_def lself_def lerror_def ltimeout_def ltrash_def lreg_def lnameservice_def lquery_def
      lexit_def lkill_def lshutdown_def lcallback_def lmemlimit_def lmemused_def lharbor_def lgetpathbase_def
      lsetpathbase_def lappendpath_def lprependpath_def lappendcpath_def lappendservicepath_def Let_def
      split: option.split prod.split msg_arg.split)

lemma run_actions_append: "run_actions pick a h (xs @ ys) s = run_actions pick a h ys (run_actions pick a h xs s)"
  by (induction xs arbitrary: s) simp_all

section \<open>Callbacks\<close>

text \<open>
  A running callback: \<open>next results\<close> is its next command, given the results of those before, and \<open>None\<close>
  when it is done.  A callback that makes \<open>k\<close> calls is run with any number of at least \<open>k\<close>.
\<close>

fun run_commands ::
    "(nat list \<Rightarrow> nat) \<Rightarrow> (string \<Rightarrow> action list \<times> init_outcome) \<Rightarrow> obj \<Rightarrow> u32 \<Rightarrow>
     (core_result list \<Rightarrow> command option) \<Rightarrow> nat \<Rightarrow> core_result list \<Rightarrow> core_ctx \<Rightarrow> core_result list \<times> core_ctx" where
  "run_commands pick script a h next 0 results c = (results, c)"
| "run_commands pick script a h next (Suc k) results c =
     (case next results of
        None \<Rightarrow> (results, c)
      | Some cmd \<Rightarrow>
          (let (r, c1) = core_call pick script a h cmd c
           in run_commands pick script a h next k (results @ [r]) c1))"

fun commands_actions ::
    "(nat list \<Rightarrow> nat) \<Rightarrow> (string \<Rightarrow> action list \<times> init_outcome) \<Rightarrow> obj \<Rightarrow> u32 \<Rightarrow>
     (core_result list \<Rightarrow> command option) \<Rightarrow> nat \<Rightarrow> core_result list \<Rightarrow> core_ctx \<Rightarrow> action list" where
  "commands_actions pick script a h next 0 results c = []"
| "commands_actions pick script a h next (Suc k) results c =
     (case next results of
        None \<Rightarrow> []
      | Some cmd \<Rightarrow>
          (let (r, c1) = core_call pick script a h cmd c
           in command_actions script h cmd @ commands_actions pick script a h next k (results @ [r]) c1))"

lemma run_commands_actions:
  "core_sys (snd (run_commands pick script a h next k results c)) =
   run_actions pick a h (commands_actions pick script a h next k results c) (core_sys c)"
proof (induction k arbitrary: results c)
  case (Suc k)
  show ?case
  proof (cases "next results")
    case (Some cmd)
    obtain r c1 where "core_call pick script a h cmd c = (r, c1)" by fastforce
    with Some Suc [of "results @ [r]" c1] core_call_actions [of pick script a h cmd c] show ?thesis
      by (simp add: run_actions_append)
  qed simp
qed simp

text \<open>
  The callback of a Lua actor as \<open>on_message\<close> calls it: \<open>prog\<close> are its commands for the arguments of the
  message, \<open>raises\<close> the error it ends with.
\<close>

record lua_callback =
  cb_next :: "lua_arg list \<Rightarrow> core_result list \<Rightarrow> command option"
  cb_raises :: "lua_arg list \<Rightarrow> core_result list \<Rightarrow> string option"
  cb_calls :: nat

definition callback_call ::
    "(nat list \<Rightarrow> nat) \<Rightarrow> (string \<Rightarrow> action list \<times> init_outcome) \<Rightarrow> obj \<Rightarrow> u32 \<Rightarrow> lua_callback \<Rightarrow> lua_actor \<Rightarrow>
     lua_path_config \<Rightarrow> lua_arg list \<Rightarrow> system \<Rightarrow> system \<times> string option" where
  "callback_call pick script a h cb la ps args s =
     (let (results, c) = run_commands pick script a h (cb_next cb args) (cb_calls cb) []
            \<lparr>core_sys = s, core_lua = la, core_paths = ps\<rparr>
      in (core_sys c, cb_raises cb args results))"

text \<open>
  What a Lua actor does with a message, as a behaviour of the actor model.  The state of the \<open>LuaActor\<close> and its
  paths are those at the start of the message: what a callback changes of them is seen by its later commands, not
  by the next message.
\<close>

definition lua_reaction ::
    "(nat list \<Rightarrow> nat) \<Rightarrow> (string \<Rightarrow> action list \<times> init_outcome) \<Rightarrow> (int \<Rightarrow> bool) \<Rightarrow> lua_callback \<Rightarrow> lua_actor \<Rightarrow>
     lua_path_config \<Rightarrow> obj \<Rightarrow> u32 \<Rightarrow> message \<Rightarrow> system \<Rightarrow> action list" where
  "lua_reaction pick script registered cb la ps a h m s =
     (if \<not> has_state la \<or> \<not> has_callback la then (case mdata m of SeriData p n \<Rightarrow> [AFree p] | _ \<Rightarrow> [])
      else if \<not> registered (callback_ref la) then []
      else
        (let args = callback_args m; c = \<lparr>core_sys = s, core_lua = la, core_paths = ps\<rparr>;
             results = fst (run_commands pick script a h (cb_next cb args) (cb_calls cb) [] c)
         in commands_actions pick script a h (cb_next cb args) (cb_calls cb) [] c @
            (case cb_raises cb args results of
               None \<Rightarrow> []
             | Some what \<Rightarrow> [AError (''LuaActor callback error: '' @ what)])))"

lemma run_lua_reaction:
  "run_actions pick a h (lua_reaction pick script registered cb la ps a h m s) s =
   lua_on_message registered (callback_call pick script a h cb la ps) h la m s"
proof -
  let ?c = "\<lparr>core_sys = s, core_lua = la, core_paths = ps\<rparr>"
  let ?next = "cb_next cb (callback_args m)"
  obtain results c where rc: "run_commands pick script a h ?next (cb_calls cb) [] ?c = (results, c)" by fastforce
  then have "run_actions pick a h (commands_actions pick script a h ?next (cb_calls cb) [] ?c) s = core_sys c"
    using run_commands_actions [of pick script a h ?next "cb_calls cb" "[]" ?c] by simp
  with rc show ?thesis
    by (auto simp: lua_reaction_def lua_on_message_def callback_call_def free_owned_lua_payload_def
        run_actions_append split: option.split payload.split)
qed

section \<open>Services that fail to start\<close>

lemma spawn_end_failed:
  assumes "init_failed (actor_of s q)"
  shows "fst (spawn_end pick q h s) = 0" and "releasing (queue_of (snd (spawn_end pick q h s)) q)"
proof -
  have "releasing (queue_of (drain_queue pick q (stop_accepting q t)) q)" for t
    using drain_queue_static [of "stop_accepting q t" pick q] by (simp add: static_same_def stop_accepting_def)
  then show "fst (spawn_end pick q h s) = 0" "releasing (queue_of (snd (spawn_end pick q h s)) q)"
    using assms by (simp_all add: spawn_end_def Let_def clear_queue_owner_def destroy_actor_def)
qed

lemma init_result_failed: "out \<noteq> InitOk \<Longrightarrow> init_failed (actor_of (init_result q h out s) q)"
  by (cases out) (simp_all add: init_result_def)

lemma spawn_failed:
  assumes "out \<noteq> InitOk"
  shows "fst (spawn pick acts out s) = 0" and "releasing (queue_of (snd (spawn pick acts out s)) (next_obj s))"
  using spawn_end_failed [OF init_result_failed [OF assms]] by (simp_all add: spawn_def spawn_begin_def Let_def)

lemma spawn_next_obj:
  assumes ok: "picks_ok pick" and inv: "sys_inv {} {} {} s"
  shows "next_obj s < next_obj (snd (spawn pick acts out s))"
proof -
  obtain q h s1 where sb: "spawn_begin s = (q, h, s1)" by (metis prod_cases3)
  then have s1: "next_obj s < next_obj s1" by (auto simp: spawn_begin_def Let_def)
  have "sys_inv {} {} {} s1" using spawn_begin_inv [OF inv _ sb] by auto
  from run_actions_inv(2) [OF ok this, of q h acts]
  have s2: "sys_inv {} {} {} (run_actions pick q h acts s1)" "next_obj s1 \<le> next_obj (run_actions pick q h acts s1)"
    by (simp_all add: keeps_objs_def)
  have "next_obj (drain_queue pick q t) = next_obj t" for t
    using drain_queue_static [of t pick q] by (simp add: static_same_def)
  then have "next_obj (snd (spawn_end pick q h t)) = next_obj t" for t
    by (simp add: spawn_end_def Let_def clear_queue_owner_def destroy_actor_def stop_accepting_def
        schedule_queue_def)
  moreover have "next_obj t \<le> next_obj (init_result q h out t)" for t
    using init_result_keeps_objs [of t q h out] by (simp add: keeps_objs_def)
  ultimately show ?thesis
    using s1 s2(2) by (simp add: spawn_def sb) (meson order_less_le_trans)
qed

text \<open>The names registered so far are neither changed nor removed by the end of \<open>spawn\<close>, however it ends.\<close>

lemma spawn_end_names: "names (snd (spawn_end pick q h (init_result q h out s))) = names s"
proof -
  have "names (drain_queue pick q t) = names t" "names (error h what t) = names t" for t what
    using drain_logger_kept [of t pick q] push_error_logger_kept(2) [of t NESTING h what]
    by (simp_all add: logger_kept_def error_def)
  then show ?thesis
    by (simp add: spawn_end_def init_result_def stop_accepting_def clear_queue_owner_def destroy_actor_def Let_def
        split: init_outcome.split)
qed

section \<open>Properties\<close>

text \<open>
  Every command of the module \<open>skynet.core\<close> changes the runtime as a fixed sequence of actions of the
  actor model does, and so does every sequence of commands that a callback chooses from the results it gets.
\<close>

theorem lua_commands_are_actions:
  "core_sys (snd (core_call pick script a h cmd c)) =
     run_actions pick a h (command_actions script h cmd) (core_sys c) \<and>
   core_sys (snd (run_commands pick script a h next k results c)) =
     run_actions pick a h (commands_actions pick script a h next k results c) (core_sys c)"
  using core_call_actions run_commands_actions by simp

text \<open>
  C11.  A Lua actor is an actor: delivering a message to an actor that reacts with the actions of the Lua
  callback is running \<open>LuaActor::on_message\<close> on that message, between \<open>begin\<close> and \<open>end\<close> of the worker's monitor.
  So what holds of the actor system for all behaviours holds of systems of Lua services.
\<close>

theorem lua_actor_is_behaviour:
  "deliver pick (\<lambda>s a m. (lua_reaction pick script registered cb la ps a (handle (queue_of s q)) m s, None)) w q a pm rest s =
   (let s1 = upd_queue q (\<lambda>x. x\<lparr>mailbox := rest, mailbox_count := mailbox_count x - 1\<rparr>) s;
        h = handle (queue_of s q);
        s2 = emit (EvDeliver q pm) (upd_monitor w (mon_begin (source (snd pm)) h) s1)
    in upd_monitor w mon_end
         (lua_on_message registered (callback_call pick script a h cb la ps) h la (snd pm) s2))"
  by (simp add: deliver_def Let_def upd_monitor_def run_lua_reaction)

text \<open>
  C13.  A service that fails to start is destroyed: if its \<open>on_init\<close> fails or throws, then \<open>newservice\<close> raises
  an error in the caller, and the new actor has been destroyed, its mailbox is empty and no handle leads to it,
  whatever the script did before it failed.  What the script has done to the rest is not undone: in particular
  the names it has registered stay, also for the handle that no longer exists.
\<close>

theorem failed_service_is_destroyed:
  assumes "reach is_new_system sys_step (core_sys c)" and "picks_ok pick"
    and "script (service_param args) = (acts, out)" and "out \<noteq> InitOk"
    and "spawn_begin (core_sys c) = (q, h, s1)"
  shows "fst (lnewservice pick script args c) = LuaError (''failed to spawn service: '' @ c_str (hd args)) \<and>
    (let s = core_sys (snd (lnewservice pick script args c))
     in destroyed (actor_of s q) \<and> mailbox (queue_of s q) = [] \<and> owner (queue_of s q) = None \<and>
        (\<forall>h'. grab_queue s h' \<noteq> Some q) \<and> names s = names (run_actions pick q h acts s1))"
proof -
  let ?s = "snd (spawn pick acts out (core_sys c))"
  have q: "q = next_obj (core_sys c)" using assms(5) by (simp add: spawn_begin_def Let_def)
  have inv: "sys_inv {} {} {} (core_sys c)" using runtime.reach_inv [OF assms(1)] .
  then have inv': "sys_inv {} {} {} ?s" by (rule spawn_inv [OF assms(2)])
  have less: "q < next_obj ?s" using spawn_next_obj [OF assms(2) inv] q by simp
  have rel: "releasing (queue_of ?s q)" using spawn_failed(2) [OF assms(4)] q by simp
  have ok: "queue_ok False False False q (queue_of ?s q) (actor_of ?s q) (refs q ?s) (events_of q ?s)"
    using sys_invD(3) [OF inv' less] by simp
  then have "destroyed (actor_of ?s q)" "mailbox (queue_of ?s q) = []" "owner (queue_of ?s q) = None"
    using rel by (auto simp: queue_ok_def)
  moreover have "grab_queue ?s h' \<noteq> Some q" for h'
    using sys_invD(2) [OF inv', of h' q] queue_ok_accepting [OF ok] rel by auto
  moreover have "names ?s = names (run_actions pick q h acts s1)"
    by (simp add: spawn_def assms(5) spawn_end_names)
  moreover have "lnewservice pick script args c =
      (LuaError (''failed to spawn service: '' @ c_str (hd args)), c\<lparr>core_sys := ?s\<rparr>)"
    using spawn_failed(1) [OF assms(4), of pick acts "core_sys c"] assms(3)
    by (cases "spawn pick acts out (core_sys c)") (simp add: lnewservice_def)
  ultimately show ?thesis by simp
qed

text \<open>A script that registers a name, sends itself a message and then raises an error.\<close>

definition broken_script :: "string \<Rightarrow> action list \<times> init_outcome" where
  "broken_script param =
     snd (lua_on_init (\<lambda>f. True) ''/srv'' (new_lua_paths ''/srv'') (Some 1) (\<lambda>f. None)
       (\<lambda>vm arg a. (a, [ARegister ''db'' 1, ASend 1 PTYPE_TEXT (Text ''hi'')], Some ''boom'')) param new_lua_actor)"

theorem failed_service_is_destroyed_witness:
  "fst (lnewservice (\<lambda>ps. 0) broken_script [''db''] demo_ctx) = LuaError ''failed to spawn service: db'' \<and>
   destroyed (actor_of (core_sys (snd (lnewservice (\<lambda>ps. 0) broken_script [''db''] demo_ctx))) 0) \<and>
   fst (lquery ''db'' (snd (lnewservice (\<lambda>ps. 0) broken_script [''db''] demo_ctx))) = Returns [AInteger 1] \<and>
   grab_queue (core_sys (snd (lnewservice (\<lambda>ps. 0) broken_script [''db''] demo_ctx))) 1 \<noteq> Some 0"
proof -
  let ?acts = "[ARegister ''db'' 1, ASend 1 PTYPE_TEXT (Text ''hi''), AError ''LuaActor: loader failed: boom'']"
  obtain q h s1 where sb: "spawn_begin (core_sys demo_ctx) = (q, h, s1)" by (metis prod_cases3)
  then have qh: "q = 0" "h = 1" "s1 = snd (snd (spawn_begin (core_sys demo_ctx)))"
    by (auto simp: spawn_begin_def demo_ctx_def new_system_def Let_def)
  have n: "map_of (names (run_actions (\<lambda>ps. 0) q h ?acts s1)) ''db'' = Some 1" unfolding qh by code_simp
  have "reach is_new_system sys_step (core_sys demo_ctx)"
    by (rule reach_init) (auto simp: is_new_system_def demo_ctx_def)
  moreover have "picks_ok (\<lambda>ps. 0)" by (simp add: picks_ok_def)
  moreover have "broken_script (service_param [''db'']) = (?acts, InitFailed)"
    by (simp add: broken_script_def lua_on_init_def Let_def)
  ultimately have "fst (lnewservice (\<lambda>ps. 0) broken_script [''db''] demo_ctx) =
      LuaError (''failed to spawn service: '' @ c_str (hd [''db''])) \<and>
    (let s = core_sys (snd (lnewservice (\<lambda>ps. 0) broken_script [''db''] demo_ctx))
     in destroyed (actor_of s q) \<and> mailbox (queue_of s q) = [] \<and> owner (queue_of s q) = None \<and>
        (\<forall>h'. grab_queue s h' \<noteq> Some q) \<and> names s = names (run_actions (\<lambda>ps. 0) q h ?acts s1))"
    by (rule failed_service_is_destroyed [OF _ _ _ _ sb]) simp
  with n show ?thesis by (simp add: Let_def c_str_def lquery_def find_name_def qh)
qed

end
