(* ===== verification/Lua_Calls.thy ===== *)
theory Lua_Calls
  imports Lua_Commands Complex_Main
begin

text \<open>
  Calls of \<open>skynet.core\<close> by name (\<open>src/src/lua_binding.cpp\<close>): the table \<open>luaopen_skynet_core\<close> registers, the
  checks each function makes of its arguments, the readings of clocks and of the collector.
\<close>

section \<open>Arguments\<close>

text \<open>
  A Lua value by what the checks distinguish: a string, an integer, light userdata, a function with the
  reference \<open>luaL_ref\<close> gives it, or another value, such as a float, a table or a boolean.
\<close>

datatype call_arg = VNil | VInt u64 | VStr string | VLight u64 | VFunction int | VOther nat

text \<open>
  What \<open>luaL_checkinteger\<close> and \<open>luaL_checklstring\<close> make of a value, if they accept it: a number and a string
  that represent each other are converted by the Lua library.
\<close>

record lua_conversions =
  to_integer :: "call_arg \<Rightarrow> u64 option"
  to_lstring :: "call_arg \<Rightarrow> string option"

definition plain_conversions :: lua_conversions where
  "plain_conversions =
     \<lparr>to_integer = (\<lambda>v. case v of VInt n \<Rightarrow> Some n | _ \<Rightarrow> None),
      to_lstring = (\<lambda>v. case v of VStr t \<Rightarrow> Some t | _ \<Rightarrow> None)\<rparr>"

text \<open>The \<open>i\<close>-th argument, counted from 1; \<open>None\<close> is \<open>LUA_TNONE\<close>.\<close>

definition arg :: "nat \<Rightarrow> call_arg list \<Rightarrow> call_arg option" where
  "arg i args = (if 1 \<le> i \<and> i \<le> length args then Some (args ! (i - 1)) else None)"

definition check_integer :: "lua_conversions \<Rightarrow> nat \<Rightarrow> call_arg list \<Rightarrow> nat + u64" where
  "check_integer cv i args =
     (case Option.bind (arg i args) (to_integer cv) of None \<Rightarrow> Inl i | Some n \<Rightarrow> Inr n)"

definition check_string :: "lua_conversions \<Rightarrow> nat \<Rightarrow> call_arg list \<Rightarrow> nat + string" where
  "check_string cv i args =
     (case Option.bind (arg i args) (to_lstring cv) of None \<Rightarrow> Inl i | Some t \<Rightarrow> Inr t)"

section \<open>Checking a call\<close>

text \<open>
  A call is refused because of an argument, refused after a command has already been run, or becomes a
  command.
\<close>

datatype request = Refused nat | RefusedAfter command nat | Request command

definition with_integer ::
    "lua_conversions \<Rightarrow> nat \<Rightarrow> call_arg list \<Rightarrow> (u64 \<Rightarrow> request) \<Rightarrow> request" where
  "with_integer cv i args k = (case check_integer cv i args of Inl j \<Rightarrow> Refused j | Inr n \<Rightarrow> k n)"

definition with_string ::
    "lua_conversions \<Rightarrow> nat \<Rightarrow> call_arg list \<Rightarrow> (string \<Rightarrow> request) \<Rightarrow> request" where
  "with_string cv i args k = (case check_string cv i args of Inl j \<Rightarrow> Refused j | Inr t \<Rightarrow> k t)"

text \<open>The payload arguments of \<open>lsend\<close> and \<open>lredirect\<close>: message and size.\<close>

definition message_arg :: "lua_conversions \<Rightarrow> call_arg list \<Rightarrow> nat + msg_arg \<times> u64" where
  "message_arg cv args =
     (case arg 5 args of
        Some (VStr t) \<Rightarrow> Inr (MString t, 0)
      | Some (VLight p) \<Rightarrow> (case check_integer cv 6 args of Inl j \<Rightarrow> Inl j | Inr sz \<Rightarrow> Inr (MLight p, sz))
      | None \<Rightarrow> Inr (MNil, 0)
      | Some VNil \<Rightarrow> Inr (MNil, 0)
      | Some _ \<Rightarrow> Inr (MOther, 0))"

text \<open>\<open>lua_isnil\<close> is false of an argument that is missing: \<open>send\<close> needs an explicit \<open>nil\<close> session.\<close>

definition check_send :: "lua_conversions \<Rightarrow> call_arg list \<Rightarrow> request" where
  "check_send cv args =
     with_integer cv 1 args (\<lambda>dest. with_integer cv 3 args (\<lambda>ty.
       if arg 4 args = Some VNil then
         (case message_arg cv args of
            Inl j \<Rightarrow> RefusedAfter CGenid j
          | Inr (msg, sz) \<Rightarrow> Request (CSend dest ty None msg sz))
       else with_integer cv 4 args (\<lambda>ses.
         case message_arg cv args of
           Inl j \<Rightarrow> Refused j
         | Inr (msg, sz) \<Rightarrow> Request (CSend dest ty (Some ses) msg sz))))"

definition check_redirect :: "lua_conversions \<Rightarrow> call_arg list \<Rightarrow> request" where
  "check_redirect cv args =
     with_integer cv 1 args (\<lambda>dest. with_integer cv 2 args (\<lambda>src. with_integer cv 3 args (\<lambda>ty.
       with_integer cv 4 args (\<lambda>ses.
         case message_arg cv args of
           Inl j \<Rightarrow> Refused j
         | Inr (msg, sz) \<Rightarrow> Request (CRedirect dest src ty ses msg sz)))))"

definition check_timeout :: "lua_conversions \<Rightarrow> call_arg list \<Rightarrow> request" where
  "check_timeout cv args =
     with_integer cv 1 args (\<lambda>ti.
       if arg 2 args = None \<or> arg 2 args = Some VNil then Request (CTimeout ti None)
       else with_integer cv 2 args (\<lambda>ses. Request (CTimeout ti (Some ses))))"

fun check_strings :: "lua_conversions \<Rightarrow> nat \<Rightarrow> call_arg list \<Rightarrow> nat + string list" where
  "check_strings cv i [] = Inr []"
| "check_strings cv i (v # vs) =
     (case to_lstring cv v of
        None \<Rightarrow> Inl i
      | Some t \<Rightarrow> (case check_strings cv (i + 1) vs of Inl j \<Rightarrow> Inl j | Inr ts \<Rightarrow> Inr (t # ts)))"

definition check_newservice :: "lua_conversions \<Rightarrow> call_arg list \<Rightarrow> request" where
  "check_newservice cv args =
     with_string cv 1 args (\<lambda>name.
       case check_strings cv 1 args of Inl j \<Rightarrow> Refused j | Inr ts \<Rightarrow> Request (CNewservice ts))"

section \<open>The table of functions\<close>

datatype core_fn =
    Fsend | Fgenid | Fredirect | Freg | Fnameservice | Fquery | Fexit | Fkill | Fshutdown | Fcore_env
  | Fgetcwd | Fsetpathbase | Fgetpathbase | Fappendpath | Fprependpath | Fappendcpath | Fappendservicepath
  | Fgetpath | Fwritefile | Freadfile | Ftimeout | Ferror | Fharbor | Fcallback | Ftostring | Fpack
  | Funpack | Funpacktrash | Ftrash | Fnow | Fself | Fnewservice | Fmem | Fgc | Fmemlimit | Fmemused
  | Fstarttime | Fsystemstat

definition luaopen_skynet_core :: "(string \<times> core_fn) list" where
  "luaopen_skynet_core =
     [(''send'', Fsend), (''genid'', Fgenid), (''redirect'', Fredirect), (''reg'', Freg),
      (''nameservice'', Fnameservice), (''query'', Fquery), (''exit'', Fexit), (''kill'', Fkill),
      (''shutdown'', Fshutdown), (''getenv'', Fcore_env), (''getcwd'', Fgetcwd),
      (''setpathbase'', Fsetpathbase), (''getpathbase'', Fgetpathbase), (''appendpath'', Fappendpath),
      (''prependpath'', Fprependpath), (''appendcpath'', Fappendcpath),
      (''appendservicepath'', Fappendservicepath), (''getpath'', Fgetpath), (''writefile'', Fwritefile),
      (''readfile'', Freadfile), (''timeout'', Ftimeout), (''error'', Ferror), (''harbor'', Fharbor),
      (''callback'', Fcallback), (''tostring'', Ftostring), (''pack'', Fpack), (''unpack'', Funpack),
      (''unpacktrash'', Funpacktrash), (''trash'', Ftrash), (''now'', Fnow), (''self'', Fself),
      (''newservice'', Fnewservice), (''mem'', Fmem), (''gc'', Fgc), (''memlimit'', Fmemlimit),
      (''memused'', Fmemused), (''starttime'', Fstarttime), (''systemstat'', Fsystemstat)]"

text \<open>The functions that act on the runtime, the actor or the paths; \<open>None\<close> are the others.\<close>

fun check_call :: "lua_conversions \<Rightarrow> core_fn \<Rightarrow> call_arg list \<Rightarrow> request option" where
  "check_call cv Fsend args = Some (check_send cv args)"
| "check_call cv Fredirect args = Some (check_redirect cv args)"
| "check_call cv Fgenid args = Some (Request CGenid)"
| "check_call cv Fself args = Some (Request CSelf)"
| "check_call cv Ferror args = Some (with_string cv 1 args (\<lambda>t. Request (CError t)))"
| "check_call cv Ftimeout args = Some (check_timeout cv args)"
| "check_call cv Ftrash args =
     Some (Request (CTrash (case arg 1 args of Some (VLight p) \<Rightarrow> MLight p | _ \<Rightarrow> MOther)))"
| "check_call cv Freg args =
     Some (if arg 1 args = None \<or> arg 1 args = Some VNil then Request (CReg None)
           else with_string cv 1 args (\<lambda>t. Request (CReg (Some t))))"
| "check_call cv Fnameservice args =
     Some (with_string cv 1 args (\<lambda>t. with_integer cv 2 args (\<lambda>n. Request (CNameservice t n))))"
| "check_call cv Fquery args = Some (with_string cv 1 args (\<lambda>t. Request (CQuery t)))"
| "check_call cv Fexit args = Some (Request CExit)"
| "check_call cv Fkill args = Some (with_integer cv 1 args (\<lambda>n. Request (CKill n)))"
| "check_call cv Fshutdown args = Some (Request CShutdown)"
| "check_call cv Fnewservice args = Some (check_newservice cv args)"
| "check_call cv Fcallback args =
     Some (case arg 1 args of Some (VFunction r) \<Rightarrow> Request (CCallback r) | _ \<Rightarrow> Refused 1)"
| "check_call cv Fmemlimit args =
     Some (if args = [] then Request (CMemlimit None)
           else with_integer cv 1 args (\<lambda>n. Request (CMemlimit (Some n))))"
| "check_call cv Fmemused args = Some (Request CMemused)"
| "check_call cv Fharbor args = Some (Request CHarbor)"
| "check_call cv Fgetpathbase args = Some (Request CGetpathbase)"
| "check_call cv Fsetpathbase args = Some (with_string cv 1 args (\<lambda>t. Request (CSetpathbase t)))"
| "check_call cv Fappendpath args = Some (with_string cv 1 args (\<lambda>t. Request (CAppendpath t)))"
| "check_call cv Fprependpath args = Some (with_string cv 1 args (\<lambda>t. Request (CPrependpath t)))"
| "check_call cv Fappendcpath args = Some (with_string cv 1 args (\<lambda>t. Request (CAppendcpath t)))"
| "check_call cv Fappendservicepath args = Some (with_string cv 1 args (\<lambda>t. Request (CAppendservicepath t)))"
| "check_call cv fn args = None"

section \<open>Calls\<close>

text \<open>
  The actor of a call: the upvalue of the function if it is light userdata, else what the registry \<open>reg\<close> of the
  Lua state holds.  \<open>0\<close> is the null pointer.
\<close>

definition get_actor :: "call_arg \<Rightarrow> call_arg \<Rightarrow> u64" where
  "get_actor upvalue reg =
     (case upvalue of VLight p \<Rightarrow> p | _ \<Rightarrow> (case reg of VLight p \<Rightarrow> p | _ \<Rightarrow> 0))"

fun needs_actor :: "core_fn \<Rightarrow> bool" where
  "needs_actor Ftrash = False"
| "needs_actor Fharbor = False"
| "needs_actor fn = True"

definition bad_argument :: "nat \<Rightarrow> core_result" where
  "bad_argument i = LuaError (''bad argument #'' @ show_nat i)"

fun run_request ::
    "(nat list \<Rightarrow> nat) \<Rightarrow> (string \<Rightarrow> action list \<times> init_outcome) \<Rightarrow> obj \<Rightarrow> u32 \<Rightarrow> request \<Rightarrow> core_ctx \<Rightarrow>
     core_result \<times> core_ctx" where
  "run_request pick script a h (Refused i) c = (bad_argument i, c)"
| "run_request pick script a h (RefusedAfter cmd i) c = (bad_argument i, snd (core_call pick script a h cmd c))"
| "run_request pick script a h (Request cmd) c = core_call pick script a h cmd c"

definition call_core ::
    "lua_conversions \<Rightarrow> (nat list \<Rightarrow> nat) \<Rightarrow> (string \<Rightarrow> action list \<times> init_outcome) \<Rightarrow> obj \<Rightarrow> u32 \<Rightarrow> u64 \<Rightarrow>
     string \<Rightarrow> call_arg list \<Rightarrow> core_ctx \<Rightarrow> (core_result \<times> core_ctx) option" where
  "call_core cv pick script a h actor name args c =
     (case map_of luaopen_skynet_core name of
        None \<Rightarrow> None
      | Some fn \<Rightarrow>
          (case check_call cv fn args of
             None \<Rightarrow> None
           | Some r \<Rightarrow>
               Some (if needs_actor fn \<and> actor = 0 then (LuaError ''no skynet actor context'', c)
                     else run_request pick script a h r c)))"

section \<open>Clocks and the collector\<close>

text \<open>Readings of \<open>steady_clock\<close> in nanoseconds; \<open>duration_cast\<close> and \<open>/\<close> round towards zero.\<close>

definition to_centiseconds :: "int \<Rightarrow> int" where
  "to_centiseconds ns = sgn ns * (\<bar>ns\<bar> div 1000000 div 10)"

definition lnow :: "int \<Rightarrow> int \<Rightarrow> core_result" where
  "lnow start now = Returns [AInteger (to_centiseconds (now - start))]"

definition lstarttime :: "int \<Rightarrow> core_result" where
  "lstarttime start = Returns [AInteger (to_centiseconds start)]"

text \<open>Kilobytes from \<open>LUA_GCCOUNT\<close> and \<open>LUA_GCCOUNTB\<close>; \<open>gc\<close> reads them after a full collection.\<close>

definition lmem :: "int \<times> int \<Rightarrow> rat" where
  "lmem counts = (case counts of (kb, bytes) \<Rightarrow> of_int kb + of_int bytes / 1024)"

definition lgc :: "('vm \<Rightarrow> 'vm) \<Rightarrow> ('vm \<Rightarrow> int \<times> int) \<Rightarrow> 'vm \<Rightarrow> rat \<times> 'vm" where
  "lgc collect counts vm = (let vm1 = collect vm in (lmem (counts vm1), vm1))"

section \<open>Properties\<close>

lemma command_actions_one: "length (command_actions script h cmd) \<le> 1"
proof (cases cmd)
  case (CSend dest ty ses msg sz)
  then show ?thesis by (cases ses; cases msg) simp_all
qed (auto split: option.split msg_arg.split prod.split)

lemma run_request_action:
  "\<exists>acts. length acts \<le> 1 \<and> core_sys (snd (run_request pick script a h r c)) = run_actions pick a h acts (core_sys c)"
proof (cases r)
  case (Refused i)
  then show ?thesis by (intro exI [of _ "[]"]) simp
next
  case (RefusedAfter cmd i)
  then show ?thesis
    using core_call_actions command_actions_one by (intro exI [of _ "command_actions script h cmd"]) simp
next
  case (Request cmd)
  then show ?thesis
    using core_call_actions command_actions_one by (intro exI [of _ "command_actions script h cmd"]) simp
qed

lemma refused_after_genid: "check_call cv fn args = Some (RefusedAfter cmd i) \<Longrightarrow> cmd = CGenid \<and> fn = Fsend"
  by (cases fn)
    (auto simp: check_send_def check_redirect_def check_timeout_def check_newservice_def with_integer_def
      with_string_def split: sum.splits if_splits option.splits call_arg.splits)

text \<open>
  A call of \<open>skynet.core\<close> by any name with any arguments is at most one action on the runtime, so that other
  threads interleave with a Lua service between its calls only; and a call refused because of an argument
  does nothing to it, except that a \<open>send\<close> without the size of its buffer has used up a session.
\<close>

theorem lua_call_is_one_action:
  assumes "call_core cv pick script a h actor name args c = Some (r, c')"
  shows "(\<exists>acts. length acts \<le> 1 \<and> core_sys c' = run_actions pick a h acts (core_sys c)) \<and>
    (\<forall>i fn. map_of luaopen_skynet_core name = Some fn \<and> check_call cv fn args = Some (Refused i) \<longrightarrow> c' = c) \<and>
    (\<forall>i fn cmd. map_of luaopen_skynet_core name = Some fn \<and> check_call cv fn args = Some (RefusedAfter cmd i) \<longrightarrow>
       cmd = CGenid \<and> name = ''send'')"
proof -
  obtain fn q where q: "map_of luaopen_skynet_core name = Some fn" "check_call cv fn args = Some q"
    "c' = (if needs_actor fn \<and> actor = 0 then c else snd (run_request pick script a h q c))"
    using assms by (auto simp: call_core_def split: option.splits if_splits)
  have "\<exists>acts. length acts \<le> 1 \<and> core_sys c' = run_actions pick a h acts (core_sys c)"
    using run_request_action [of pick script a h q c] q(3) by (auto intro: exI [of _ "[]"])
  moreover have "name = ''send''" if "fn = Fsend"
    using q(1) that by (auto simp: luaopen_skynet_core_def split: if_splits)
  ultimately show ?thesis using q refused_after_genid by auto
qed

theorem lua_call_is_one_action_witness:
  "\<exists>acts. length acts \<le> 1 \<and>
     core_sys (snd (the (call_core plain_conversions (\<lambda>ps. 0) (\<lambda>p. ([], InitOk)) 0 1 4096 ''send''
       [VInt 1, VInt 0, VInt 10, VNil, VLight 64, VNil] demo_ctx))) =
     run_actions (\<lambda>ps. 0) 0 1 acts (core_sys demo_ctx)"
proof -
  have "call_core plain_conversions (\<lambda>ps. 0) (\<lambda>p. ([], InitOk)) 0 1 4096 ''send''
      [VInt 1, VInt 0, VInt 10, VNil, VLight 64, VNil] demo_ctx =
      Some (bad_argument 6, snd (lgenid 0 demo_ctx))"
    by (simp add: call_core_def luaopen_skynet_core_def check_send_def with_integer_def check_integer_def arg_def
        message_arg_def plain_conversions_def)
  with lua_call_is_one_action [OF this] show ?thesis by simp
qed

end
