(* ===== verification/Lua_Buffers.thy ===== *)
theory Lua_Buffers
  imports Lua_Calls Lua_Seri_Roundtrip
begin

text \<open>
  The Lua side of the serializer (\<open>src/src/lua_seri.cpp\<close>): \<open>unpack\<close> and \<open>unpacktrash\<close> with their arguments, and
  which memory they and the packer release.
\<close>

section \<open>The blocks of the packer\<close>

text \<open>\<open>free_blocks\<close> releases every block but the first, which is on the stack.\<close>

definition free_blocks :: "write_block \<Rightarrow> bytes list \<times> write_block" where
  "free_blocks wb = (tl (blocks wb), wb\<lparr>blocks := take 1 (blocks wb)\<rparr>)"

section \<open>Unpacking the arguments of a call\<close>

definition bytes_of_string :: "string \<Rightarrow> bytes" where
  "bytes_of_string t = map (\<lambda>c. of_nat (of_char c)) t"

text \<open>
  \<open>memory p n\<close> are the \<open>n\<close> bytes at \<open>p\<close>.  A value that is not userdata gives the null pointer, and the size goes
  through an \<open>int\<close>, so that a negative one becomes a huge \<open>size_t\<close>.
\<close>

definition userdata_pointer :: "call_arg option \<Rightarrow> u64" where
  "userdata_pointer v = (case v of Some (VLight p) \<Rightarrow> p | _ \<Rightarrow> 0)"

definition buffer_size :: "u64 \<Rightarrow> nat" where
  "buffer_size n = unat (scast (ucast n :: i32) :: u64)"

datatype unpack_outcome =
    BadArgument nat
  | UnpackError seri_error
  | StackOverflow nat
  | Unpacked "lua_value list"

text \<open>
  The loop over the values.  Before every eighth of them, from the seventh on, it asks for \<open>LUA_MINSTACK\<close> more
  slots; \<open>room k\<close> tells whether the Lua stack can grow when it holds \<open>k\<close> values, and if not an error is raised.
\<close>

fun unpack_values :: "(nat \<Rightarrow> bool) \<Rightarrow> nat \<Rightarrow> nat \<Rightarrow> nat \<Rightarrow> read_block \<Rightarrow> unpack_outcome" where
  "unpack_values room fuel 0 k rb = UnpackError OutOfFuel"
| "unpack_values room fuel (Suc n) k rb =
     (if rptr rb < length (rbuf rb) then
        (if k mod 8 = 7 \<and> \<not> room k then StackOverflow k
         else
           (case unpack_one fuel rb of
              Inl e \<Rightarrow> UnpackError e
            | Inr (v, rb1) \<Rightarrow>
                (case unpack_values room fuel n (k + 1) rb1 of
                   Unpacked vs \<Rightarrow> Unpacked (v # vs)
                 | e \<Rightarrow> e)))
      else Unpacked [])"

lemma unpack_values_room:
  assumes "\<And>i. room i"
  shows "unpack_values room fuel n k rb =
    (case unpack_loop fuel n rb of Inl e \<Rightarrow> UnpackError e | Inr vs \<Rightarrow> Unpacked vs)"
  using assms by (induction fuel n rb arbitrary: k rule: unpack_loop.induct) (simp_all split: sum.split)

text \<open>The outcome and the pointers passed to \<open>free\<close>; an error leaves the function before it frees.\<close>

definition unpack_impl ::
    "lua_conversions \<Rightarrow> (u64 \<Rightarrow> nat \<Rightarrow> bytes) \<Rightarrow> (nat \<Rightarrow> bool) \<Rightarrow> bool \<Rightarrow> call_arg list \<Rightarrow>
     unpack_outcome \<times> u64 list" where
  "unpack_impl cv memory room free_lightuserdata args =
     (let finish = (\<lambda>buf buffer_to_free.
            case unpack_values room (length buf + 1) (length buf + 1) 0 (rb_init buf) of
              Unpacked vs \<Rightarrow> (Unpacked vs, if buffer_to_free = 0 then [] else [buffer_to_free])
            | e \<Rightarrow> (e, []))
      in case arg 1 args of
           Some (VStr t) \<Rightarrow> finish (bytes_of_string t) 0
         | v \<Rightarrow>
             (let buffer = userdata_pointer v
              in case check_integer cv 2 args of
                   Inl i \<Rightarrow> (BadArgument i, [])
                 | Inr n \<Rightarrow> finish (memory buffer (buffer_size n)) (if free_lightuserdata then buffer else 0)))"

definition lua_unpack ::
    "lua_conversions \<Rightarrow> (u64 \<Rightarrow> nat \<Rightarrow> bytes) \<Rightarrow> (nat \<Rightarrow> bool) \<Rightarrow> call_arg list \<Rightarrow> unpack_outcome \<times> u64 list" where
  "lua_unpack cv memory room args = unpack_impl cv memory room False args"

definition luaseri_unpacktrash ::
    "lua_conversions \<Rightarrow> (u64 \<Rightarrow> nat \<Rightarrow> bytes) \<Rightarrow> (nat \<Rightarrow> bool) \<Rightarrow> call_arg list \<Rightarrow> unpack_outcome \<times> u64 list" where
  "luaseri_unpacktrash cv memory room args = unpack_impl cv memory room True args"

section \<open>Properties\<close>

text \<open>
  \<open>unpacktrash\<close> of a packed buffer gives the packed values back, up to the order of traversal, and frees the buffer
  exactly once; \<open>unpack\<close> gives the same and frees nothing.  On a buffer that is not well-formed both fail, and
  \<open>unpacktrash\<close> then leaves the buffer allocated; so it does when the Lua stack cannot grow.
\<close>

lemma unpacktrash_frees_once:
  assumes "p \<noteq> 0" and "memory p (length buf) = buf" and "length buf < 2 ^ 31"
    and "to_integer cv (VInt (of_nat (length buf))) = Some (of_nat (length buf))" and "\<And>k. room k"
  shows "luaseri_unpacktrash cv memory room [VLight p, VInt (of_nat (length buf))] =
      (case luaseri_unpack buf of Inl e \<Rightarrow> (UnpackError e, []) | Inr vs \<Rightarrow> (Unpacked vs, [p])) \<and>
    lua_unpack cv memory room [VLight p, VInt (of_nat (length buf))] =
      (case luaseri_unpack buf of Inl e \<Rightarrow> (UnpackError e, []) | Inr vs \<Rightarrow> (Unpacked vs, []))"
proof -
  have "sint (of_nat (length buf) :: i32) = int (length buf)"
    using assms(3) by (simp add: sint_of_nat_i32)
  then have "buffer_size (of_nat (length buf)) = unat (word_of_int (int (length buf)) :: u64)"
    by (simp add: buffer_size_def i32_of_u64_of_nat scast_eq)
  then have "buffer_size (of_nat (length buf)) = length buf"
    using assms(3) by (simp add: unsigned_of_nat take_bit_nat_eq_self)
  with assms show ?thesis
    by (simp add: luaseri_unpacktrash_def lua_unpack_def unpack_impl_def arg_def userdata_pointer_def
        check_integer_def unpack_values_room luaseri_unpack_def Let_def split: sum.split)
qed

text \<open>The error of a stack that cannot grow leaves the buffer allocated.\<close>

lemma unpacktrash_stack_overflow:
  "luaseri_unpacktrash plain_conversions (\<lambda>p n. replicate 8 1) (\<lambda>k. False) [VLight 64, VInt 8] = (StackOverflow 7, [])"
  by code_simp

end
