(* ===== verification/Lua_Messages.thy ===== *)
theory Lua_Messages
  imports Lua_Buffers
begin

text \<open>
  A Lua message from one service to another: packing, \<open>skynet.core.send\<close>, the mailbox, the worker that hands
  it over, the arguments of the receiver's callback, and unpacking.
\<close>

section \<open>What an actor has been given\<close>

text \<open>The events of the queues only grow, and so does the number of actors.\<close>

interpretation queue_history: runtime_frame
  "\<lambda>s t. next_obj s \<le> next_obj t \<and> prefix (queue_events s) (queue_events t)"
proof (unfold_locales, goal_cases)
  case (2 s t u)
  then show ?case by (auto intro: prefix_order.trans)
qed (simp_all add: queue_events_def enqueue_mail_def spawn_begin_def stop_accepting_def destroy_actor_def
      clear_queue_owner_def Let_def)

lemma events_of_queue_events: "events_of q s = filter (about q) (queue_events s)"
proof -
  have "about q e \<and> queue_event e \<longleftrightarrow> about q e" for e by (cases e) simp_all
  then show ?thesis by (simp add: events_of_def queue_events_def conj_commute)
qed

text \<open>The messages of the thread \<open>t\<close> an actor has been handed, followed by those that wait for it.\<close>

definition got :: "nat \<Rightarrow> obj \<Rightarrow> system \<Rightarrow> (nat \<times> message) list" where
  "got t q s = filter (\<lambda>x. fst x = t) (handed (events_of q s) @ mailbox (queue_of s q))"

text \<open>While the actor accepts messages these are all that have been put into its mailbox.\<close>

lemma got_enqueued:
  assumes inv: "sys_inv {} {} {} s" and q: "q < next_obj s" "accepting (queue_of s q)"
  shows "got t q s = filter (\<lambda>x. fst x = t) (enqueued (events_of q s))"
proof -
  note ok = sys_invD(3) [OF inv q(1)]
  have rel: "\<not> releasing (queue_of s q)" using queue_ok_accepting [OF ok] q(2) by simp
  have cons: "drops_last (events_of q s)" "conserved (mailbox (queue_of s q)) (events_of q s)"
    using ok by (simp_all add: queue_ok_def)
  have "\<not> list_ex is_drop (events_of q s)"
    using ok rel unfolding queue_ok_def by blast
  then have "consumed (events_of q s) = handed (events_of q s)"
    using consumed_split [OF cons(1)] dropped_none by simp
  with cons(2) show ?thesis by (simp add: got_def conserved_def)
qed

lemma reach_from_inv:
  assumes "reach (\<lambda>x. x = s) sys_step s'" and "sys_inv {} {} {} s"
  shows "sys_inv {} {} {} s'"
  using assms by (induction rule: reach.induct) (auto intro: runtime.step_inv)

lemma got_grows:
  assumes r: "reach (\<lambda>x. x = s) sys_step s'" and inv: "sys_inv {} {} {} s"
    and q: "q < next_obj s" "accepting (queue_of s q)" "accepting (queue_of s' q)"
  shows "prefix (got t q s) (got t q s')"
proof -
  have R: "next_obj s \<le> next_obj s'" "prefix (queue_events s) (queue_events s')"
    using queue_history.reach_R [OF r] by simp_all
  obtain es where es: "queue_events s' = queue_events s @ es" using R(2) by (auto elim: prefixE)
  have "q < next_obj s'" using q(1) R(1) by simp
  from got_enqueued [OF inv q(1,2)] got_enqueued [OF reach_from_inv [OF r inv] this q(3)] show ?thesis
    by (simp add: events_of_queue_events es)
qed

text \<open>Sending hands nothing to anybody.\<close>

lemma handed_delivered: "handed (events_of q s) = handed (filter (about q) (delivered s))"
proof -
  have "handed (filter (about q) tr) = handed (filter (about q) (filter is_deliver tr))" for tr
  proof (induction tr)
    case (Cons e tr)
    then show ?case by (cases e) simp_all
  qed simp
  then show ?thesis by (simp add: events_of_def delivered_def)
qed

lemma push_accept_mailbox:
  assumes "receiver s dest = Some q"
  shows "\<exists>xs. mailbox (queue_of (push_message dest msg s) q) = mailbox (queue_of s q) @ (cur_thread s, msg) # xs \<and>
    list_all (\<lambda>x. \<not> wants_reply (snd x)) xs"
proof -
  let ?s1 = "posted q msg s"
  have m: "mailbox (queue_of ?s1 q) = mailbox (queue_of s q) @ [(cur_thread s, msg)]"
    by (simp add: posted_def enqueue_mail_def raise_threshold_def Let_def)
  have "only_errors_added ?s1 (schedule_queue q (error_n 7 dest what ?s1))"
    "only_errors_added ?s1 (error_n 7 dest what ?s1)" "only_errors_added ?s1 (schedule_queue q ?s1)" for what
    using errors_add_only_errors(2) only_errors_added_schedule only_errors_added_trans by blast+
  then have "only_errors_added ?s1 (push_message_n (Suc 7) dest msg s)"
    unfolding push_message_n_accept [OF assms] Let_def by (simp add: only_errors_added_refl)
  then obtain xs where "mailbox (queue_of (push_message_n (Suc 7) dest msg s) q) = mailbox (queue_of ?s1 q) @ xs"
    "list_all (\<lambda>x. \<not> wants_reply (snd x)) xs" unfolding only_errors_added_def by blast
  with m show ?thesis by (intro exI [of _ xs]) (simp add: push_message_def)
qed

lemma sint_size: "n < 2 ^ 63 \<Longrightarrow> sint (word_of_nat n :: u64) = int n"
  by (simp add: signed_of_nat signed_take_bit_int_eq_self)

text \<open>So the message pushed is the next one of its thread, in this state and in all later ones.\<close>

lemma pushed_message_arrives:
  assumes inv: "sys_inv {} {} {} s" and dest: "receiver s dest = Some q"
    and r: "reach (\<lambda>x. x = push_message dest m s) sys_step s'" and acc: "accepting (queue_of s' q)"
  shows "prefix (got (cur_thread s) q s @ [(cur_thread s, m)]) (got (cur_thread s) q s')"
proof -
  let ?t = "cur_thread s" and ?s = "push_message dest m s"
  obtain xs where xs: "mailbox (queue_of ?s q) = mailbox (queue_of s q) @ (?t, m) # xs"
    using push_accept_mailbox [OF dest] by blast
  have "got ?t q ?s = got ?t q s @ (?t, m) # filter (\<lambda>x. fst x = ?t) xs"
    by (simp add: got_def handed_delivered xs)
  then have got: "prefix (got ?t q s @ [(?t, m)]) (got ?t q ?s)" by simp
  have q: "q < next_obj s" "accepting (queue_of s q)"
    using dest sys_invD(2) [OF inv] by (auto simp: receiver_def split: option.splits if_splits)
  have kept: "sys_inv {} {} {} ?s" "static_same s ?s"
    using messaging_keeps_inv(1) [of s dest m] inv by (auto simp: keeps_inv_def)
  from got_grows [OF r kept(1) _ _ acc] kept(2) q have "prefix (got ?t q ?s) (got ?t q s')"
    by (simp add: static_same_def)
  with got show ?thesis by (rule prefix_order.trans)
qed

text \<open>A Lua actor with a callback is handed a message.\<close>

lemma deliver_callback:
  assumes "has_state la" and "has_callback la" and "registered (callback_ref la)"
  shows "deliver pick (\<lambda>s a m. (lua_reaction pick script registered cb la ps a (handle (queue_of s q)) m s, None))
      w q q (t, m) rest s =
    (let me = handle (queue_of s q);
         s1 = upd_queue q (\<lambda>x. x\<lparr>mailbox := rest, mailbox_count := mailbox_count x - 1\<rparr>) s;
         s2 = emit (EvDeliver q (t, m)) (upd_monitor w (mon_begin (source m) me) s1);
         (s3, err) = callback_call pick script q me cb la ps (callback_args m) s2
     in upd_monitor w mon_end
          (case err of None \<Rightarrow> s3 | Some what \<Rightarrow> error me (''LuaActor callback error: '' @ what) s3))"
  using assms
  by (simp add: deliver_def Let_def upd_monitor_def run_lua_reaction lua_on_message_def split: prod.split option.split)

section \<open>Properties\<close>

text \<open>
  C9.  A Lua message arrives as it was sent: a service packs well-formed values into a buffer of less than 2 GiB
  and sends it, in a reachable state, to an actor that accepts messages.  The message is put at the end of the
  actor's mailbox, followed by at most error messages of the runtime.  In every later state in which the
  actor still accepts messages, it has been handed to the actor or waits, as the next one of the sender's thread
  after those the actor had got from it before.  When a worker hands it to the actor, a Lua actor with a
  callback, the callback is called, once, with the type, the buffer, its size, the session returned to the
  sender and the handle of the sender.  \<open>unpack\<close> of that pointer and that size gives the values back, and frees
  nothing.  (\<open>memory\<close> is the memory; the buffer is owned by the message and is not changed meanwhile; the Lua
  stack has room for the values.)
\<close>

theorem lua_message_arrives:
  assumes "reach is_new_system sys_step (core_sys c)" and "receiver (core_sys c) (ucast dest) = Some q"
    and "luaseri_pack rawlen malloc_ok vs = Inr buf" and "list_all (wf_value rawlen) vs"
    and "p \<noteq> 0" and "memory p (length buf) = buf" and "length buf < 2 ^ 31"
    and "lsend a h dest 10 ses (MLight p) (word_of_nat (length buf)) c = (r, c')"
    and "has_state la" and "has_callback la" and "registered (callback_ref la)"
    and "to_integer cv (VInt (of_nat (length buf))) = Some (of_nat (length buf))" and "\<And>k. room k"
  shows "\<exists>m (sid :: i32) xs. r = Returns [AInteger (sint sid)] \<and> (ses \<noteq> None \<longrightarrow> sid = ucast (the ses)) \<and>
    mailbox (queue_of (core_sys c') q) = mailbox (queue_of (core_sys c) q) @ (cur_thread (core_sys c), m) # xs \<and>
    list_all (\<lambda>x. \<not> wants_reply (snd x)) xs \<and>
    (\<forall>s2. reach (\<lambda>s. s = core_sys c') sys_step s2 \<and> accepting (queue_of s2 q) \<longrightarrow>
       prefix (got (cur_thread (core_sys c)) q (core_sys c) @ [(cur_thread (core_sys c), m)])
         (got (cur_thread (core_sys c)) q s2)) \<and>
    deliver pick (\<lambda>s a m. (lua_reaction pick script registered cb la ps a (handle (queue_of s q)) m s, None))
        w q q (t, m) rest s =
      (let me = handle (queue_of s q);
           s1 = upd_queue q (\<lambda>x. x\<lparr>mailbox := rest, mailbox_count := mailbox_count x - 1\<rparr>) s;
           s2 = emit (EvDeliver q (t, m)) (upd_monitor w (mon_begin h me) s1);
           (s3, err) = callback_call pick script q me cb la ps
             [AInteger PTYPE_LUA, ALight p, AInteger (int (length buf)), AInteger (sint sid), AInteger (uint h)] s2
       in upd_monitor w mon_end
            (case err of None \<Rightarrow> s3 | Some what \<Rightarrow> error me (''LuaActor callback error: '' @ what) s3)) \<and>
    lua_unpack cv memory room [VLight p, VInt (of_nat (length buf))] = (Unpacked (map (canon rawlen) vs), []) \<and>
    list_all2 lua_equiv vs (map (canon rawlen) vs)"
proof -
  obtain sid s1 where
    sid: "(case ses of None \<Rightarrow> alloc_session a (core_sys c) | Some n \<Rightarrow> (ucast n, core_sys c)) = (sid, s1)"
    by fastforce
  let ?t = "cur_thread (core_sys c)"
  let ?m = "\<lparr>source = h, session = sid, mtype = PTYPE_LUA, mdata = SeriData p (word_of_nat (length buf))\<rparr>"
  have c': "r = Returns [AInteger (sint sid)]" "core_sys c' = push_message (ucast dest) ?m s1"
    using assms(8) sid by (auto simp: lsend_def send_def)
  have ses: "ses \<noteq> None \<longrightarrow> sid = ucast (the ses)" using sid by (auto split: option.splits)
  have s1: "queue_of s1 = queue_of (core_sys c)" "actor_shards s1 = actor_shards (core_sys c)" "cur_thread s1 = ?t"
    "events_of q s1 = events_of q (core_sys c)"
    using sid by (auto simp: alloc_session_def split: option.splits)
  have dest: "receiver s1 (ucast dest) = Some q"
    using assms(2) s1 by (simp add: receiver_def grab_queue_def cong: option.case_cong)
  from push_accept_mailbox [OF this, of ?m] obtain xs where
    xs: "mailbox (queue_of (core_sys c') q) = mailbox (queue_of (core_sys c) q) @ (?t, ?m) # xs"
      "list_all (\<lambda>x. \<not> wants_reply (snd x)) xs"
    unfolding c' s1 by blast
  have inv: "sys_inv {} {} {} s1"
    using runtime.reach_inv [OF assms(1)] alloc_session_keeps(1) sid by (auto split: option.splits)
  have later: "prefix (got ?t q (core_sys c) @ [(?t, ?m)]) (got ?t q s2)"
    if "reach (\<lambda>s. s = core_sys c') sys_step s2" "accepting (queue_of s2 q)" for s2
    using pushed_message_arrives [OF inv dest that(1) [unfolded c'(2)] that(2)] by (simp add: got_def s1)
  have args: "callback_args ?m =
      [AInteger PTYPE_LUA, ALight p, AInteger (int (length buf)), AInteger (sint sid), AInteger (uint h)]"
    using assms(7) by (simp add: callback_args_def sint_size)
  note handed = deliver_callback [of la registered pick script cb ps q w t ?m rest s, OF assms(9-11), unfolded args, simplified]
  note packed = unpack_packed [OF assms(3,4)]
  have unpacked: "lua_unpack cv memory room [VLight p, VInt (of_nat (length buf))] =
      (Unpacked (map (canon rawlen) vs), [])"
    using unpacktrash_frees_once [of p memory buf cv room, OF assms(5-7,12,13)] packed by simp
  show ?thesis
    using c'(1) ses xs later handed unpacked packed
    by (intro exI [of _ ?m] exI [of _ sid] exI [of _ xs]) simp
qed

text \<open>A service sends two values to another.\<close>

definition two_services :: core_ctx where
  "two_services = demo_ctx\<lparr>core_sys := snd (spawn (\<lambda>ps. 0) [] InitOk (snd (spawn (\<lambda>ps. 0) [] InitOk (new_system 4 4))))\<rparr>"

theorem lua_message_arrives_witness:
  "\<exists>m xs. mailbox (queue_of (core_sys (snd (lsend 0 1 2 10 (Some 5) (MLight 64) 3 two_services))) 1) =
       mailbox (queue_of (core_sys two_services) 1) @ (cur_thread (core_sys two_services), m) # xs \<and>
     lua_unpack plain_conversions (\<lambda>p n. [10, 7, 9]) (\<lambda>k. True) [VLight 64, VInt 3] = (Unpacked [LInt 7, LBool True], [])"
proof -
  let ?vs = "[LInt 7, LBool True]"
  have n: "reach is_new_system sys_step (new_system 4 4)" by (rule reach_init) (auto simp: is_new_system_def)
  have r: "reach is_new_system sys_step (core_sys two_services)"
    unfolding two_services_def
    by simp (rule reach_step [OF reach_step [OF n]]; rule step_spawn; simp add: picks_ok_def)
  have q: "receiver (core_sys two_services) (ucast (2 :: u64)) = Some 1" by code_simp
  have p: "luaseri_pack (\<lambda>es. 0) (\<lambda>n. True) ?vs = Inr [10, 7, 9]" by code_simp
  have w: "list_all (wf_value (\<lambda>es. 0)) ?vs" by simp
  obtain res c' where l: "lsend 0 1 2 10 (Some 5) (MLight 64) 3 two_services = (res, c')" by fastforce
  then have l': "lsend 0 1 2 10 (Some 5) (MLight 64) (word_of_nat (length [10, 7, 9 :: byte])) two_services = (res, c')"
    by simp
  let ?n = "VInt (of_nat (length [10, 7, 9 :: byte]))"
  have n: "to_integer plain_conversions ?n = Some (of_nat (length [10, 7, 9 :: byte]))"
    by (simp add: plain_conversions_def)
  note arrives = lua_message_arrives [where la = "new_lua_actor\<lparr>has_state := True, has_callback := True\<rparr>"
      and registered = "\<lambda>ref. True" and memory = "\<lambda>p n. [10, 7, 9]" and cv = plain_conversions and room = "\<lambda>k. True"
      and pick = "\<lambda>ps. 0" and script = "\<lambda>x. ([], InitOk)" and ps = "core_paths two_services" and w = 0 and t = 0
      and rest = "[]" and s = "core_sys c'" and cb = "\<lparr>cb_next = \<lambda>as rs. None, cb_raises = \<lambda>as rs. None, cb_calls = 0\<rparr>",
      OF r q p w _ refl _ l' _ _ TrueI n TrueI, simplified]
  obtain m xs where
    m: "mailbox (queue_of (core_sys c') 1) = mailbox (queue_of (core_sys two_services) 1) @ (cur_thread (core_sys two_services), m) # xs"
      "lua_unpack plain_conversions (\<lambda>p n. [10, 7, 9]) (\<lambda>k. True) [VLight 64, VInt 3] = (Unpacked [LInt 7, LBool True], [])"
    using arrives by auto
  then show ?thesis using l by (intro exI [of _ m] exI [of _ xs]) simp
qed

end
