(* ===== verification/Lua_Profile.thy ===== *)
theory Lua_Profile
  imports Skynet_Prelude
begin

text \<open>
  The \<open>skynet.profile\<close> module, \<open>src/src/lua_profile.cpp\<close>: CPU time of coroutines.  Times are exact
  (the code computes with doubles); the readings of the clock are inputs.  Coroutines are numbered.
\<close>

section \<open>State and operations\<close>

type_synonym co = nat

record profile =
  start_times :: "co \<rightharpoonup> int"
  total_times :: "co \<rightharpoonup> int"

definition new_profile :: profile where
  "new_profile = \<lparr>start_times = Map.empty, total_times = Map.empty\<rparr>"

definition diff_time :: "int \<Rightarrow> int \<Rightarrow> int" where
  "diff_time now start = (if now < start then now + 0x10000 - start else now - start)"

definition timing_enable :: "co \<Rightarrow> profile \<Rightarrow> int option" where
  "timing_enable t p = start_times p t"

text \<open>\<open>lua_tonumber\<close> of \<open>nil\<close> is 0.\<close>

definition timing_total :: "co \<Rightarrow> profile \<Rightarrow> int" where
  "timing_total t p = (case total_times p t of None \<Rightarrow> 0 | Some n \<Rightarrow> n)"

text \<open>\<open>timing_resume\<close> up to and after \<open>auxresume\<close>, which runs the coroutine.\<close>

definition resume_begin :: "co \<Rightarrow> int \<Rightarrow> profile \<Rightarrow> profile" where
  "resume_begin t now p =
     (case timing_enable t p of None \<Rightarrow> p | Some _ \<Rightarrow> p\<lparr>start_times := (start_times p)(t \<mapsto> now)\<rparr>)"

definition resume_end :: "co \<Rightarrow> int \<Rightarrow> profile \<Rightarrow> profile" where
  "resume_end t now p =
     (case timing_enable t p of
        None \<Rightarrow> p
      | Some start \<Rightarrow>
          p\<lparr>total_times := (total_times p)(t \<mapsto> timing_total t p + diff_time now start)\<rparr>)"

definition timing_resume :: "co \<Rightarrow> int \<Rightarrow> (profile \<Rightarrow> profile) \<Rightarrow> int \<Rightarrow> profile \<Rightarrow> profile" where
  "timing_resume t before body after p = resume_end t after (body (resume_begin t before p))"

datatype profile_error = StartedTwice co | NotStarted

definition lstart :: "co \<Rightarrow> int \<Rightarrow> profile \<Rightarrow> profile_error + profile" where
  "lstart t now p =
     (if timing_enable t p \<noteq> None then Inl (StartedTwice t)
      else Inr (p\<lparr>total_times := (total_times p)(t \<mapsto> 0), start_times := (start_times p)(t \<mapsto> now)\<rparr>))"

definition lstop :: "co \<Rightarrow> int \<Rightarrow> profile \<Rightarrow> profile_error + int \<times> profile" where
  "lstop t now p =
     (case timing_enable t p of
        None \<Rightarrow> Inl NotStarted
      | Some start \<Rightarrow>
          Inr (timing_total t p + diff_time now start,
               p\<lparr>start_times := (start_times p)(t := None), total_times := (total_times p)(t := None)\<rparr>))"

text \<open>The results of \<open>coroutine.resume\<close>: \<open>auxresume\<close> gives an error or the values.\<close>

datatype 'v resume_result = ResumeError 'v | Resumed "'v list"

definition auxresume :: "bool \<Rightarrow> 'v resume_result \<Rightarrow> bool \<Rightarrow> 'v \<Rightarrow> 'v \<Rightarrow> 'v resume_result" where
  "auxresume args_fit outcome results_fit too_many_args too_many_results =
     (if \<not> args_fit then ResumeError too_many_args
      else case outcome of
             Resumed vs \<Rightarrow> if results_fit then Resumed vs else ResumeError too_many_results
           | ResumeError e \<Rightarrow> ResumeError e)"

fun luaB_coresume :: "'v resume_result \<Rightarrow> bool \<times> 'v list" where
  "luaB_coresume (ResumeError e) = (False, [e])"
| "luaB_coresume (Resumed vs) = (True, vs)"

text \<open>
  The function \<open>profile.wrap\<close> returns: an error is raised again, with the position of the caller in
  front if it is a string (\<open>at_caller\<close>), after closing a coroutine that is dead.
\<close>

definition luaB_auxwrap ::
    "('v \<Rightarrow> 'v option) \<Rightarrow> bool \<Rightarrow> 'v resume_result \<Rightarrow> bool \<times> ('v + 'v list)" where
  "luaB_auxwrap at_caller alive r =
     (case r of
        Resumed vs \<Rightarrow> (False, Inr vs)
      | ResumeError e \<Rightarrow> (\<not> alive, Inl (case at_caller e of None \<Rightarrow> e | Some e' \<Rightarrow> e')))"

section \<open>The clock, coroutines and the module\<close>

text \<open>
  The clock counts from its first use.  \<open>first\<close> and \<open>now\<close> are two readings of \<open>steady_clock\<close>, which does not
  go back, so that the correction of \<open>diff_time\<close> is never made with it.
\<close>

definition profile_time_seconds :: "int \<Rightarrow> int \<Rightarrow> int option \<Rightarrow> int \<times> int option" where
  "profile_time_seconds first now origin =
     (let start = (case origin of None \<Rightarrow> first | Some t \<Rightarrow> t) in (now - start, Some start))"

definition get_time :: "int \<Rightarrow> int \<Rightarrow> int option \<Rightarrow> int \<times> int option" where
  "get_time first now origin = profile_time_seconds first now origin"

lemma diff_time_steady:
  assumes "get_time f n origin = (start, origin')" and "get_time f' n' origin' = (now, origin'')" and "n \<le> n'"
  shows "diff_time now start = n' - n"
  using assms by (auto simp: get_time_def profile_time_seconds_def diff_time_def Let_def)

text \<open>An argument: a coroutine, a function or another value.  \<open>None\<close> is the error of \<open>luaL_checktype\<close>.\<close>

datatype profile_arg = PThread co | PFunction nat | POther

definition profiled_thread :: "co \<Rightarrow> profile_arg list \<Rightarrow> co option" where
  "profiled_thread running args =
     (case args of [] \<Rightarrow> Some running | PThread t # rest \<Rightarrow> Some t | v # rest \<Rightarrow> None)"

record coroutines =
  co_body :: "co \<rightharpoonup> nat"
  next_co :: co

definition luaB_cocreate :: "profile_arg list \<Rightarrow> coroutines \<Rightarrow> (co \<times> coroutines) option" where
  "luaB_cocreate args cs =
     (case args of
        PFunction f # rest \<Rightarrow>
          Some (next_co cs, cs\<lparr>co_body := (co_body cs)(next_co cs \<mapsto> f), next_co := next_co cs + 1\<rparr>)
      | _ \<Rightarrow> None)"

text \<open>The closure \<open>profile.wrap\<close> returns shares the tables of the module and remembers its coroutine.\<close>

datatype wrapped = Wrapped co

definition luaB_cowrap :: "profile_arg list \<Rightarrow> coroutines \<Rightarrow> (wrapped \<times> coroutines) option" where
  "luaB_cowrap args cs = map_option (map_prod Wrapped id) (luaB_cocreate args cs)"

definition call_wrapped ::
    "('v \<Rightarrow> 'v option) \<Rightarrow> bool \<Rightarrow> int \<Rightarrow> (profile \<Rightarrow> 'v resume_result \<times> profile) \<Rightarrow> int \<Rightarrow> wrapped \<Rightarrow> profile \<Rightarrow>
     (bool \<times> ('v + 'v list)) \<times> profile" where
  "call_wrapped at_caller alive before body after w p =
     (case w of Wrapped t \<Rightarrow>
        (luaB_auxwrap at_caller alive (fst (body (resume_begin t before p))),
         timing_resume t before (snd \<circ> body) after p))"

text \<open>The table of functions, with the two new tables, weak in keys and values, as their upvalues.\<close>

datatype profile_fn = Pstart | Pstop | Presume | Pwrap

definition luaopen_skynet_profile :: "(string \<times> profile_fn) list \<times> profile" where
  "luaopen_skynet_profile =
     ([(''start'', Pstart), (''stop'', Pstop), (''resume'', Presume), (''wrap'', Pwrap)], new_profile)"

text \<open>
  A coroutine made by \<open>wrap\<close> is a new one: it is not profiled until it is started, so that running it
  leaves the profiles alone if its body does, and a profile that is started is its own.
\<close>

lemma wrap_fresh:
  assumes "luaB_cowrap args cs = Some (Wrapped t, cs')" and "dom (start_times p) \<subseteq> {..< next_co cs}"
    and "start_times (snd (body p)) t = None"
  shows "co_body cs' t \<noteq> None \<and> timing_enable t p = None \<and>
    snd (call_wrapped at_caller alive before body after (Wrapped t) p) = snd (body p)"
  using assms
  by (auto simp: luaB_cowrap_def luaB_cocreate_def call_wrapped_def timing_resume_def resume_begin_def
      resume_end_def timing_enable_def split: list.splits profile_arg.splits option.splits)

section \<open>A profiled coroutine\<close>

text \<open>
  What \<open>timing_resume\<close> does to the profile of a running coroutine that yields and is resumed at the
  given times.
\<close>

fun run_slices :: "co \<Rightarrow> (int \<times> int) list \<Rightarrow> profile \<Rightarrow> profile" where
  "run_slices t [] p = p"
| "run_slices t ((yield_at, resume_at) # rest) p =
     run_slices t rest (resume_begin t resume_at (resume_end t yield_at p))"

text \<open>The true time between two readings of a clock that wraps at \<open>0x10000\<close> seconds.\<close>

fun busy_time :: "int \<Rightarrow> (int \<times> int) list \<Rightarrow> int \<Rightarrow> int" where
  "busy_time start [] stop = stop - start"
| "busy_time start ((yield_at, resume_at) # rest) stop = (yield_at - start) + busy_time resume_at rest stop"

text \<open>Each stretch of running is shorter than the wrap-around of the clock.\<close>

fun slices_ok :: "int \<Rightarrow> (int \<times> int) list \<Rightarrow> int \<Rightarrow> bool" where
  "slices_ok start [] stop = (start \<le> stop \<and> stop - start < 0x10000)"
| "slices_ok start ((yield_at, resume_at) # rest) stop =
     (start \<le> yield_at \<and> yield_at - start < 0x10000 \<and> slices_ok resume_at rest stop)"

definition clock :: "int \<Rightarrow> int" where
  "clock t = t mod 0x10000"

lemma diff_clock: "start \<le> now \<Longrightarrow> now - start < 0x10000 \<Longrightarrow> diff_time (clock now) (clock start) = now - start"
proof -
  assume "start \<le> now" "now - start < 0x10000"
  then have "(now - start) mod 0x10000 = now - start" by simp
  then have e: "(clock now - clock start) mod 0x10000 = now - start"
    unfolding clock_def by (metis mod_diff_eq)
  have r: "0 \<le> clock now" "clock now < 0x10000" "0 \<le> clock start" "clock start < 0x10000"
    by (simp_all add: clock_def)
  show ?thesis
  proof (cases "clock now < clock start")
    case True
    have "(clock now - clock start + 0x10000) mod 0x10000 = now - start" using e by simp
    moreover have "(clock now - clock start + 0x10000) mod 0x10000 = clock now - clock start + 0x10000"
      using True r by (intro mod_pos_pos_trivial) auto
    ultimately show ?thesis using True by (simp add: diff_time_def)
  next
    case False
    have "(clock now - clock start) mod 0x10000 = clock now - clock start"
      using False r by (intro mod_pos_pos_trivial) auto
    with e False show ?thesis by (simp add: diff_time_def)
  qed
qed

definition clocked :: "(int \<times> int) list \<Rightarrow> (int \<times> int) list" where
  "clocked slices = map (map_prod clock clock) slices"

lemma stop_after_slices:
  assumes "start_times p t = Some (clock start)" and "total_times p t = Some n" and "slices_ok start slices stop"
  shows "\<exists>p'. lstop t (clock stop) (run_slices t (clocked slices) p) = Inr (n + busy_time start slices stop, p') \<and>
    start_times p' t = None \<and> total_times p' t = None"
  using assms
proof (induction slices arbitrary: p start n)
  case Nil
  then show ?case by (auto simp: lstop_def timing_enable_def timing_total_def clocked_def diff_clock)
next
  case (Cons s slices)
  obtain y r where s: "s = (y, r)" by fastforce
  let ?p = "resume_begin t (clock r) (resume_end t (clock y) p)"
  have "start_times ?p t = Some (clock r)" "total_times ?p t = Some (n + (y - start))"
    using Cons.prems s by (auto simp: resume_begin_def resume_end_def timing_enable_def timing_total_def diff_clock)
  from Cons.IH [OF this] Cons.prems s show ?case by (simp add: clocked_def add.assoc)
qed

section \<open>Properties\<close>

text \<open>
  Profiling measures running time: for a coroutine that starts its profile, is suspended and
  resumed any number of times and stops its profile while running, \<open>stop\<close> returns the time it was
  running, without the time it was suspended, even if the clock wraps; afterwards its profile can be
  started again, while a second \<open>start\<close> in between or a \<open>stop\<close> without \<open>start\<close> is an error.
\<close>

theorem profile_measures_running_time:
  assumes "start_times p t = None" and "slices_ok start slices stop"
  shows "\<exists>p1 p2. lstart t (clock start) p = Inr p1 \<and>
    lstart t now p1 = Inl (StartedTwice t) \<and> lstop t now p = Inl NotStarted \<and>
    lstop t (clock stop) (run_slices t (clocked slices) p1) = Inr (busy_time start slices stop, p2) \<and>
    start_times p2 t = None"
proof -
  let ?p1 = "p\<lparr>total_times := (total_times p)(t \<mapsto> 0), start_times := (start_times p)(t \<mapsto> clock start)\<rparr>"
  obtain p2 where "lstop t (clock stop) (run_slices t (clocked slices) ?p1) =
      Inr (0 + busy_time start slices stop, p2)" "start_times p2 t = None"
    using stop_after_slices [of ?p1 t start 0 slices stop] assms(2) by auto
  then show ?thesis
    using assms(1) by (intro exI [of _ ?p1] exI [of _ p2]) (simp add: lstart_def lstop_def timing_enable_def)
qed

theorem profile_measures_running_time_witness:
  "\<exists>p1 p2. lstart 7 (clock 65530) new_profile = Inr p1 \<and>
     lstop 7 (clock 65545) (run_slices 7 (clocked [(65533, 65540)]) p1) = Inr (8, p2)"
proof -
  have "start_times new_profile 7 = None" "slices_ok 65530 [(65533, 65540)] 65545"
    by (simp_all add: new_profile_def)
  from profile_measures_running_time [where now = 0, OF this] show ?thesis by auto
qed

end
