(* ===== verification/Services.thy ===== *)
theory Services
  imports Lua_Actor Network
begin

text \<open>
  The built-in services and the start of the process: \<open>ServiceGate\<close> (\<open>src/src/service_gate.h\<close>),
  \<open>ServiceLogger\<close> (\<open>src/src/service_logger.h\<close>) and \<open>bootstrap\<close> (\<open>src/src/main.cpp\<close>).
\<close>

section \<open>Numbers in text\<close>

text \<open>Numbers in text: white space, a sign, digits up to the first other character.\<close>

definition is_digit :: "char \<Rightarrow> bool" where
  "is_digit c \<longleftrightarrow> 48 \<le> (of_char c :: nat) \<and> (of_char c :: nat) \<le> 57"

definition is_space :: "char \<Rightarrow> bool" where
  "is_space c \<longleftrightarrow> (of_char c :: nat) = 32 \<or> 9 \<le> (of_char c :: nat) \<and> (of_char c :: nat) \<le> 13"

definition digits_value :: "string \<Rightarrow> int" where
  "digits_value s = fold (\<lambda>c n. 10 * n + (of_char c - 48)) (takeWhile is_digit s) 0"

text \<open>\<open>std::atoi\<close> gives 0 without digits, \<open>std::stoi\<close> throws, as it does outside the range of \<open>int\<close>.\<close>

definition atoi :: "string \<Rightarrow> int" where
  "atoi s =
     (case dropWhile is_space s of
        [] \<Rightarrow> 0
      | c # cs \<Rightarrow> if c = CHR ''-'' then - digits_value cs
                 else if c = CHR ''+'' then digits_value cs else digits_value (c # cs))"

definition stoi :: "string \<Rightarrow> int option" where
  "stoi s =
     (let t = dropWhile is_space s;
          u = (if t \<noteq> [] \<and> (hd t = CHR ''-'' \<or> hd t = CHR ''+'') then tl t else t)
      in if u = [] \<or> \<not> is_digit (hd u) \<or> atoi s < - (2 ^ 31) \<or> atoi s \<ge> 2 ^ 31 then None else Some (atoi s))"

section \<open>The gate\<close>

record gate =
  g_listener :: "obj option"
  g_agents :: "i32 \<rightharpoonup> u32"

text \<open>\<open>None\<close> if no agent factory is set; else it may act on the runtime and returns the agent.\<close>

type_synonym agent_factory = "(i32 \<Rightarrow> string \<Rightarrow> u16 \<Rightarrow> net \<Rightarrow> u32 \<times> net) option"

definition report :: "u32 \<Rightarrow> string \<Rightarrow> net \<Rightarrow> net" where
  "report h t n = n\<lparr>sys := error h t (sys n)\<rparr>"

definition gate_close :: "i32 \<Rightarrow> gate \<times> net \<Rightarrow> gate \<times> net" where
  "gate_close cid gn =
     (case gn of (g, n) \<Rightarrow>
        (g\<lparr>g_agents := (g_agents g)(cid := None)\<rparr>,
         case g_listener g of None \<Rightarrow> n | Some l \<Rightarrow> close_connection l cid n))"

definition send_to_client :: "i32 \<Rightarrow> string \<Rightarrow> gate \<times> net \<Rightarrow> gate \<times> net" where
  "send_to_client cid d gn =
     (case gn of (g, n) \<Rightarrow> (g, case g_listener g of None \<Rightarrow> n | Some l \<Rightarrow> listener_send l cid d n))"

definition close_client :: "i32 \<Rightarrow> gate \<times> net \<Rightarrow> gate \<times> net" where
  "close_client = gate_close"

definition client_call :: "(obj \<Rightarrow> net \<Rightarrow> net) \<Rightarrow> i32 \<Rightarrow> gate \<times> net \<Rightarrow> gate \<times> net" where
  "client_call f cid gn =
     (case gn of (g, n) \<Rightarrow>
        (g, case g_listener g of
              None \<Rightarrow> n
            | Some l \<Rightarrow> (case get_connection l cid n of None \<Rightarrow> n | Some c \<Rightarrow> f c n)))"

definition pause_client :: "i32 \<Rightarrow> gate \<times> net \<Rightarrow> gate \<times> net" where
  "pause_client = client_call conn_pause"

definition resume_client :: "i32 \<Rightarrow> gate \<times> net \<Rightarrow> gate \<times> net" where
  "resume_client = client_call conn_resume"

definition gate_port :: "string \<Rightarrow> u16 option" where
  "gate_port param = (if param = [] then Some 8888 else map_option word_of_int (stoi param))"

text \<open>\<open>on_init\<close>: reading the port and the constructor of the listener may throw.\<close>

definition gate_on_init :: "u32 \<Rightarrow> bool \<Rightarrow> string \<Rightarrow> gate \<times> net \<Rightarrow> (gate \<times> net) option" where
  "gate_on_init h bound param gn =
     (case gn of (g, n) \<Rightarrow>
        (case gate_port param of
           None \<Rightarrow> None
         | Some port \<Rightarrow>
             (case make_listener h 0 bound n of
                None \<Rightarrow> None
              | Some (l, n1) \<Rightarrow>
                  Some (g\<lparr>g_listener := Some l\<rparr>,
                        report h (''Gate listening on port '' @ show_nat (unat port)) (do_accept l n1)))))"

definition on_accept :: "agent_factory \<Rightarrow> u32 \<Rightarrow> i32 \<Rightarrow> string \<Rightarrow> u16 \<Rightarrow> gate \<times> net \<Rightarrow> gate \<times> net" where
  "on_accept factory h cid addr port gn =
     (case gn of (g, n) \<Rightarrow>
        (let n1 = report h (''+ conn #'' @ show_int (sint cid) @ '' from '' @ addr @ '':'' @ show_nat (unat port)) n
         in case factory of
              None \<Rightarrow> (g, n1)
            | Some f \<Rightarrow>
                (let (agent, n2) = f cid addr port n1
                 in (if agent \<noteq> 0 then g\<lparr>g_agents := (g_agents g)(cid \<mapsto> agent)\<rparr> else g, n2))))"

definition on_data :: "u32 \<Rightarrow> i32 \<Rightarrow> i32 \<Rightarrow> string \<Rightarrow> gate \<times> net \<Rightarrow> gate \<times> net" where
  "on_data h lid cid d gn =
     (case gn of (g, n) \<Rightarrow>
        (g, case g_agents g cid of
              None \<Rightarrow> n
            | Some agent \<Rightarrow> n\<lparr>sys := send h agent PTYPE_SOCKET 0 (SocketData lid cid d) (sys n)\<rparr>))"

definition on_close :: "u32 \<Rightarrow> i32 \<Rightarrow> gate \<times> net \<Rightarrow> gate \<times> net" where
  "on_close h cid gn =
     (case gn of (g, n) \<Rightarrow> gate_close cid (g, report h (''- conn #'' @ show_int (sint cid) @ '' closed'') n))"

definition gate_on_message :: "agent_factory \<Rightarrow> u32 \<Rightarrow> message \<Rightarrow> gate \<times> net \<Rightarrow> gate \<times> net" where
  "gate_on_message factory h m gn =
     (if mtype m \<noteq> PTYPE_SOCKET then gn
      else case mdata m of
             SocketAccept lid cid addr port \<Rightarrow> on_accept factory h cid addr port gn
           | SocketData lid cid d \<Rightarrow> on_data h lid cid d gn
           | SocketClose lid cid \<Rightarrow> on_close h cid gn
           | SocketWarning lid cid k \<Rightarrow>
               (fst gn, report h (''conn #'' @ show_int (sint cid) @ '' send buffer warning: '' @
                  show_nat (unat k) @ '' bytes'') (snd gn))
           | _ \<Rightarrow> gn)"

definition gate_on_destroy :: "gate \<times> net \<Rightarrow> gate \<times> net" where
  "gate_on_destroy gn =
     (case gn of (g, n) \<Rightarrow> (g, case g_listener g of None \<Rightarrow> n | Some l \<Rightarrow> listener_stop l n))"

section \<open>The logger\<close>

record logger =
  log_file_open :: bool
  log_stdout :: "string list"
  log_file :: "string list"

text \<open>The line for a message at the time of day \<open>ts\<close>, cut to the buffer of 1024 bytes.\<close>

definition log_line :: "string \<Rightarrow> message \<Rightarrow> string option" where
  "log_line ts m =
     (if mtype m \<noteq> PTYPE_TEXT \<and> mtype m \<noteq> PTYPE_ERROR then None
      else case mdata m of
             Text t \<Rightarrow>
               Some (take 1023 (''['' @ ts @ '']['' @ show_hex8 (source m) @ '']['' @
                 (if mtype m = PTYPE_ERROR then ''ERROR'' else ''INFO'') @ ''] '' @
                 takeWhile (\<lambda>c. c \<noteq> CHR 0x00) t @ [CHR 0x0A]))
           | _ \<Rightarrow> None)"

definition logger_on_message :: "string \<Rightarrow> message \<Rightarrow> logger \<Rightarrow> logger" where
  "logger_on_message ts m g =
     (case log_line ts m of
        None \<Rightarrow> g
      | Some line \<Rightarrow>
          (let g1 = g\<lparr>log_stdout := log_stdout g @ [line]\<rparr>
           in if log_file_open g1 then g1\<lparr>log_file := log_file g1 @ [line]\<rparr> else g1))"

definition logger_on_destroy :: "logger \<Rightarrow> logger" where
  "logger_on_destroy g = g\<lparr>log_file_open := False\<rparr>"

section \<open>Starting the process\<close>

definition get_thread_count :: "string \<Rightarrow> int" where
  "get_thread_count env = (if env \<noteq> [] \<and> atoi env > 0 then atoi env else 8)"

definition get_preload_script :: "string \<Rightarrow> string" where
  "get_preload_script env = (if env \<noteq> [] then env else ''examples/preload.lua'')"

text \<open>The preload script makes the given calls in \<open>on_init\<close>.\<close>

definition bootstrap ::
    "(nat list \<Rightarrow> nat) \<Rightarrow> (string \<Rightarrow> action list \<times> init_outcome) \<Rightarrow> string \<Rightarrow> system \<Rightarrow> system" where
  "bootstrap pick script preload_script s =
     (let (logger, s1) = spawn pick [] InitOk s;
          s2 = register_name ''logger'' logger s1;
          (acts, out) = script preload_script
      in snd (spawn pick acts out s2))"

text \<open>A socket event as the network layer sends it.\<close>

definition socket_msg :: "payload \<Rightarrow> message" where
  "socket_msg p = \<lparr>source = 0, session = 0, mtype = PTYPE_SOCKET, mdata = p\<rparr>"

lemma gate_on_socket_msg:
  "gate_on_message f h (socket_msg (SocketAccept lid cid addr port)) gn = on_accept f h cid addr port gn"
  "gate_on_message f h (socket_msg (SocketData lid cid d)) gn = on_data h lid cid d gn"
  "gate_on_message f h (socket_msg (SocketClose lid cid)) gn = on_close h cid gn"
  by (simp_all add: gate_on_message_def socket_msg_def)

section \<open>Properties\<close>

text \<open>
  The gate forwards: once a connection has been accepted and the factory has named an agent for
  it, its data goes to that agent, unchanged, and the data of other connections goes where it went
  before; once it is closed its data goes nowhere and it is no longer registered with the listener.
\<close>

theorem gate_forwards_to_agent:
  assumes "f cid addr port (report h (''+ conn #'' @ show_int (sint cid) @ '' from '' @ addr @ '':'' @
      show_nat (unat port)) n) = (agent, n1)"
    and "agent \<noteq> 0" and "g_listener g = Some l"
    and "gn = gate_on_message (Some f) h (socket_msg (SocketAccept lid cid addr port)) (g, n)"
    and "closed = gate_on_message (Some f) h (socket_msg (SocketClose lid cid)) gn"
  shows "sys (snd (gate_on_message (Some f) h (socket_msg (SocketData lid cid d)) gn)) =
      send h agent PTYPE_SOCKET 0 (SocketData lid cid d) (sys n1) \<and>
    (c \<noteq> cid \<longrightarrow> g_agents (fst gn) c = g_agents g c) \<and>
    gate_on_message (Some f) h (socket_msg (SocketData lid cid d)) closed = closed \<and>
    get_connection l cid (snd closed) = None"
proof -
  have gn: "gn = (g\<lparr>g_agents := (g_agents g)(cid \<mapsto> agent)\<rparr>, n1)"
    using assms(1,2,4) by (simp add: gate_on_socket_msg on_accept_def Let_def)
  have "get_connection l cid (close_connection l cid m) = None" for m
    by (auto simp: close_connection_def get_connection_def conn_close_def post_def upd_listener_def
        split: option.split)
  then show ?thesis
    unfolding assms(5) gn by (simp add: gate_on_socket_msg on_data_def on_close_def gate_close_def assms(3))
qed

theorem gate_forwards_to_agent_witness:
  "sys (snd (gate_on_message (Some (\<lambda>cid addr port n. (9, n))) 2 (socket_msg (SocketData 0 1 ''hi''))
     (gate_on_message (Some (\<lambda>cid addr port n. (9, n))) 2 (socket_msg (SocketAccept 0 1 ''10.0.0.7'' 4000))
       (\<lparr>g_listener = Some 0, g_agents = Map.empty\<rparr>, new_net (new_system 4 4))))) =
   send 2 9 PTYPE_SOCKET 0 (SocketData 0 1 ''hi'')
     (sys (report 2 (''+ conn #'' @ show_int (sint (1 :: i32)) @ '' from '' @ ''10.0.0.7'' @ '':'' @
       show_nat (unat (4000 :: u16))) (new_net (new_system 4 4))))"
  using gate_forwards_to_agent [where f = "\<lambda>cid addr port n. (9, n)" and g = "\<lparr>g_listener = Some 0, g_agents = Map.empty\<rparr>"
      and n = "new_net (new_system 4 4)" and h = 2 and cid = 1 and addr = "''10.0.0.7''" and port = 4000 and lid = 0
      and d = "''hi''" and l = 0, OF refl _ _ refl refl] by simp

text \<open>
  Log lines: the logger writes one line of at most 1023 bytes for a text or error message with a
  string payload, to the standard output and, if it is open, the same line to the file; it ignores
  every other message.
\<close>

theorem logger_writes_one_line:
  assumes "length ts = 12"
  shows "(\<exists>line. log_line ts m = Some line \<and> 26 \<le> length line \<and> length line \<le> 1023 \<and>
      log_stdout (logger_on_message ts m g) = log_stdout g @ [line] \<and>
      log_file (logger_on_message ts m g) = log_file g @ (if log_file_open g then [line] else [])) \<longleftrightarrow>
    (mtype m = PTYPE_TEXT \<or> mtype m = PTYPE_ERROR) \<and> (\<exists>t. mdata m = Text t)"
  using assms by (auto simp: log_line_def logger_on_message_def Let_def show_hex8_def split: payload.splits)

theorem logger_writes_one_line_witness:
  "\<exists>line. log_line ''12:34:56.789'' \<lparr>source = 3, session = 0, mtype = PTYPE_ERROR, mdata = Text ''boom''\<rparr> = Some line \<and>
     length line \<le> 1023"
  using logger_writes_one_line [of "''12:34:56.789''"
      "\<lparr>source = 3, session = 0, mtype = PTYPE_ERROR, mdata = Text ''boom''\<rparr>"] by auto

end
