(* ===== verification/Stream_Delivery.thy ===== *)
theory Stream_Delivery
  imports Network Netpack Actor_Lifecycle
begin

text \<open>
  From the socket to the service: what a connection receives reaches the actor that owns it as a sequence
  of messages, and the framing filter run on the data of the messages it has been handed recovers what
  the peer framed.  This composes the network layer, the mailboxes and the dispatcher, and \<open>netpack\<close>.
\<close>

section \<open>Data messages of a connection\<close>

definition is_data :: "i32 \<Rightarrow> i32 \<Rightarrow> message \<Rightarrow> bool" where
  "is_data lid cid m \<longleftrightarrow> (case mdata m of SocketData l c d \<Rightarrow> l = lid \<and> c = cid | _ \<Rightarrow> False)"

definition data_text :: "message \<Rightarrow> string" where
  "data_text m = (case mdata m of SocketData l c d \<Rightarrow> d | _ \<Rightarrow> [])"

definition data_message :: "i32 \<Rightarrow> i32 \<Rightarrow> string \<Rightarrow> message" where
  "data_message lid cid d = \<lparr>source = 0, session = 0, mtype = PTYPE_SOCKET, mdata = SocketData lid cid d\<rparr>"

definition data_entries :: "i32 \<Rightarrow> i32 \<Rightarrow> (nat \<times> message) list \<Rightarrow> (nat \<times> message) list" where
  "data_entries lid cid xs = filter (is_data lid cid \<circ> snd) xs"

abbreviation (input) queue_data :: "i32 \<Rightarrow> i32 \<Rightarrow> obj \<Rightarrow> system \<Rightarrow> (nat \<times> message) list" where
  "queue_data lid cid q s \<equiv> data_entries lid cid (enqueued (events_of q s))"

lemma data_entries_simps [simp]:
  "data_entries lid cid [] = []"
  "data_entries lid cid (xs @ ys) = data_entries lid cid xs @ data_entries lid cid ys"
  "data_entries lid cid [(p, m)] = (if is_data lid cid m then [(p, m)] else [])"
  by (simp_all add: data_entries_def)

lemma is_data_message [simp]: "is_data lid cid (data_message lid cid d)" "data_text (data_message lid cid d) = d"
  by (simp_all add: is_data_def data_text_def data_message_def)

section \<open>Messaging and data\<close>

definition same_data :: "system \<Rightarrow> system \<Rightarrow> bool" where
  "same_data s s' \<longleftrightarrow> (\<forall>lid cid q. queue_data lid cid q s' = queue_data lid cid q s)"

lemma same_data_refl [simp]: "same_data s s"
  by (simp add: same_data_def)






lemma no_data_error [simp]: "\<not> is_data lid cid (error_reply msg)"
  by (simp add: is_data_def error_reply_def)



section \<open>Reading\<close>




section \<open>Handing over\<close>









section \<open>An example\<close>













section \<open>Properties\<close>



end
