(* ===== verification/Actor_Handles.thy ===== *)
theory Actor_Handles
  imports Actor_Frames Actor_Props
begin

text \<open>
  What a handle stands for, and the life of an actor: handles are numbers given out once until the
  counter wraps, and an actor only moves forward, from unborn to gone.
\<close>

section \<open>Numbering\<close>

text \<open>The \<open>n\<close>-th actor has the handle \<open>n\<close>, modulo \<open>2 ^ 32\<close>.\<close>

definition numbered :: "system \<Rightarrow> bool" where
  "numbered s \<longleftrightarrow>
     next_handle s = of_nat (next_obj s + 1) \<and>
     (\<forall>q < next_obj s. handle (queue_of s q) = of_nat (q + 1))"

definition keeps_numbers :: "system \<Rightarrow> system \<Rightarrow> bool" where
  "keeps_numbers s s' \<longleftrightarrow> next_obj s \<le> next_obj s' \<and> (numbered s \<longrightarrow> numbered s')"

lemma keeps_numbers_same:
  assumes "next_obj s' = next_obj s" and "next_handle s' = next_handle s"
    and "\<And>q. handle (queue_of s' q) = handle (queue_of s q)"
  shows "keeps_numbers s s'"
  using assms by (simp add: keeps_numbers_def numbered_def)

interpretation numbers: runtime_frame keeps_numbers
proof (unfold_locales, goal_cases)
  case (8 s)
  then show ?case
    by (auto simp: keeps_numbers_def numbered_def spawn_begin_def new_queue_def less_Suc_eq Let_def)
qed (auto simp: keeps_numbers_def numbered_def enqueue_mail_def stop_accepting_def destroy_actor_def
      clear_queue_owner_def)

interpretation numbering: invariant_system is_new_system sys_step numbered
proof (unfold_locales, goal_cases)
  case (1 s)
  then show ?case by (auto simp: is_new_system_def new_system_def numbered_def)
next
  case (2 s t)
  with numbers.sys_step_R show ?case by (auto simp: keeps_numbers_def)
qed

section \<open>The life of an actor\<close>

datatype phase = Unborn | Starting | Running | Closing | Gone

fun phase_rank :: "phase \<Rightarrow> nat" where
  "phase_rank Unborn = 0"
| "phase_rank Starting = 1"
| "phase_rank Running = 2"
| "phase_rank Closing = 3"
| "phase_rank Gone = 4"

lemma phase_rank_inject: "phase_rank x = phase_rank y \<Longrightarrow> x = y"
  by (cases x; cases y) simp_all

instantiation phase :: linorder
begin

definition less_eq_phase :: "phase \<Rightarrow> phase \<Rightarrow> bool" where
  "x \<le> y \<longleftrightarrow> phase_rank x \<le> phase_rank y"

definition less_phase :: "phase \<Rightarrow> phase \<Rightarrow> bool" where
  "x < y \<longleftrightarrow> phase_rank x < phase_rank y"

instance
  by standard (auto simp: less_eq_phase_def less_phase_def intro: phase_rank_inject)

end

definition phase_of :: "system \<Rightarrow> obj \<Rightarrow> phase" where
  "phase_of s q =
     (if q \<ge> next_obj s then Unborn
      else if destroyed (actor_of s q) then Gone
      else if releasing (queue_of s q) then Closing
      else if initialized (queue_of s q) then Running
      else Starting)"

definition forward :: "system \<Rightarrow> system \<Rightarrow> bool" where
  "forward s s' \<longleftrightarrow>
     (\<forall>q. phase_of s q \<le> phase_of s' q) \<and>
     (\<forall>q < next_obj s. handle (queue_of s' q) = handle (queue_of s q)) \<and> next_obj s \<le> next_obj s'"

lemma forward_same:
  assumes "next_obj s' = next_obj s" "\<And>q. handle (queue_of s' q) = handle (queue_of s q)"
    and "\<And>q. phase_of s' q = phase_of s q"
  shows "forward s s'"
  using assms by (simp add: forward_def)

lemma phase_least [simp]: "Unborn \<le> x" "x \<le> Gone"
  by (cases x; simp add: less_eq_phase_def)+

interpretation life: runtime_frame forward
proof (unfold_locales, goal_cases)
  case (2 s t u)
  then show ?case unfolding forward_def by (metis order_less_le_trans order_trans)
next
  case (8 s)
  then show ?case by (auto simp: forward_def spawn_begin_def phase_of_def Let_def)
qed (auto simp: forward_def phase_of_def enqueue_mail_def stop_accepting_def destroy_actor_def
      clear_queue_owner_def less_eq_phase_def)

text \<open>At rest an actor is unborn, running or gone.\<close>

lemma phase_at_rest:
  assumes inv: "sys_inv {} {} {} s" and q: "q < next_obj s" and "phase_of s q \<noteq> Gone"
  shows "\<not> releasing (queue_of s q) \<and> owner (queue_of s q) = Some q"
  using sys_invD(3) [OF inv q] assms(3) q by (auto simp: queue_ok_def phase_of_def split: if_splits)

lemma reach_later: "reach init step s \<Longrightarrow> reach (\<lambda>t. t = s) step s' \<Longrightarrow> reach init step s'"
  by (rotate_tac, induction rule: reach.induct) (auto intro: reach_step)

lemma unat_handle: "n < 2 ^ 32 \<Longrightarrow> unat (of_nat n :: u32) = n"
  by (simp add: unsigned_of_nat take_bit_nat_eq_self)

text \<open>An actor whose \<open>on_init\<close> fails uses up a handle and leaves the others alone.\<close>

lemma spawn_fail_frame:
  assumes inv: "sys_inv {} {} {} s" and t: "t = snd (spawn pick [] InitFailed s)"
  shows "next_obj t = next_obj s + 1"
    and "q < next_obj s \<Longrightarrow> queue_of t q = queue_of s q \<and> actor_of t q = actor_of s q"
    and "h \<noteq> next_handle s \<Longrightarrow> grab_queue t h = grab_queue s h"
proof -
  note ok = sys_invD(1) [OF inv]
  have dr: "drain_loop pick r u = u" if "mailbox (queue_of u r) = []" for r u
    using that by (subst drain_loop.simps) (simp add: try_dequeue_def)
  have g: "shard_find (shard_insert k q r) k = Some q" "shard_find (shard_erase k (shard_insert k q r)) h =
      (if h = k then None else shard_find r h)" if "shards_ok r" for k q r h
    using that by (simp_all add: reg.find_insert reg.find_erase reg.ok_insert)
  note ev = t spawn_def spawn_begin_def Let_def init_result_def spawn_end_def drain_queue_def dr
    stop_accepting_def clear_queue_owner_def destroy_actor_def grab_queue_def g [OF ok] new_queue_def new_actor_def
  show "next_obj t = next_obj s + 1"
    and "q < next_obj s \<Longrightarrow> queue_of t q = queue_of s q \<and> actor_of t q = actor_of s q"
    and "h \<noteq> next_handle s \<Longrightarrow> grab_queue t h = grab_queue s h"
    by (simp_all add: ev)
qed

text \<open>Handles can be used up while the first actor lives on.\<close>

lemma burn_handles:
  assumes s: "reach is_new_system sys_step s" "next_obj s = 1" "grab_queue s 1 = Some 0" and "n < 2 ^ 32"
  shows "\<exists>t. reach (\<lambda>t. t = s) sys_step t \<and> next_obj t = n + 1 \<and> grab_queue t 1 = Some 0 \<and>
    queue_of t 0 = queue_of s 0 \<and> actor_of t 0 = actor_of s 0"
  using assms(4)
proof (induction n)
  case 0
  have "reach (\<lambda>t. t = s) sys_step s" by (rule reach_init) simp
  with s show ?case by auto
next
  case (Suc n)
  let ?pick = "\<lambda>ps :: nat list. 0 :: nat"
  obtain t where t: "reach (\<lambda>t. t = s) sys_step t" "next_obj t = n + 1" "grab_queue t 1 = Some 0"
    "queue_of t 0 = queue_of s 0" "actor_of t 0 = actor_of s 0" using Suc by auto
  let ?u = "snd (spawn ?pick [] InitFailed t)"
  note rt = reach_later [OF s(1) t(1)]
  note f = spawn_fail_frame [OF runtime.reach_inv [OF rt] HOL.refl, where pick = ?pick]
  have "next_handle t = of_nat (n + 2)"
    using numbering.reach_inv [OF rt] t(2) by (simp add: numbered_def)
  moreover have "unat (of_nat (n + 2) :: u32) \<noteq> 1"
  proof (cases "n + 2 < 2 ^ 32")
    case True
    then show ?thesis by (simp only: unat_handle)
  next
    case False
    with Suc.prems have "n + 2 = 2 ^ 32" by simp
    then show ?thesis by (simp only: unsigned_of_nat) simp
  qed
  ultimately have "1 \<noteq> next_handle t" by (metis unsigned_1)
  then have "grab_queue ?u 1 = Some 0" using f(3) t(3) by simp
  moreover have "reach (\<lambda>t. t = s) sys_step ?u" by (rule reach_step [OF t(1) step_spawn [OF picks_first]])
  moreover have "next_obj ?u = Suc n + 1" using f(1) t(2) by simp
  moreover have "queue_of ?u 0 = queue_of s 0 \<and> actor_of ?u 0 = actor_of s 0" using f(2) [of 0] t by simp
  ultimately show ?case by blast
qed

section \<open>Properties\<close>

text \<open>
  C8.  A handle never comes to stand for another actor while fewer than \<open>2 ^ 32\<close> actors have been spawned: if
  it reaches an actor now and an actor later, whatever happens in between, it is the same one.  The handle
  \<open>0\<close>, which \<open>spawn\<close> returns on failure, stands for none.
\<close>

theorem handles_denote_one_actor:
  assumes "reach is_new_system sys_step s" and "reach (\<lambda>t. t = s) sys_step s'"
    and "next_obj s' < 2 ^ 32" and "grab_queue s h = Some q" and "grab_queue s' h = Some q'"
  shows "q' = q \<and> h \<noteq> 0"
proof -
  note s' = reach_later [OF assms(1,2)]
  note inv = runtime.reach_inv [OF assms(1)] runtime.reach_inv [OF s']
  have q: "q < next_obj s" "handle (queue_of s q) = h" and q': "q' < next_obj s'" "handle (queue_of s' q') = h"
    using sys_invD(2) [OF inv(1) assms(4)] sys_invD(2) [OF inv(2) assms(5)] by auto
  have h: "h = of_nat (q + 1)" "h = of_nat (q' + 1)"
    using q q' numbering.reach_inv [OF assms(1)] numbering.reach_inv [OF s'] by (auto simp: numbered_def)
  have "next_obj s \<le> next_obj s'" using numbers.reach_R [OF assms(2)] by (simp add: keeps_numbers_def)
  with q q' assms(3) have "unat h = q + 1" "unat h = q' + 1"
    using unat_handle [of "q + 1"] unat_handle [of "q' + 1"] h by simp_all
  then show ?thesis by auto
qed

text \<open>One actor is spawned, then another; then the first is killed.\<close>

definition one_actor :: system where
  "one_actor = snd (spawn (\<lambda>ps. 0) [] InitOk (new_system 4 4))"

definition two_actors :: system where
  "two_actors = snd (spawn (\<lambda>ps. 0) [] InitOk one_actor)"

definition first_killed :: system where
  "first_killed = kill (\<lambda>ps. 0) 1 two_actors"

lemma one_actor_reached: "reach is_new_system sys_step one_actor"
  unfolding one_actor_def by (rule reach_step [OF new_reachable step_spawn [OF picks_first]])

lemma two_actors_reached: "reach (\<lambda>t. t = one_actor) sys_step two_actors"
  unfolding two_actors_def
proof (rule reach_step)
  show "reach (\<lambda>t. t = one_actor) sys_step one_actor" by (rule reach_init) simp
qed (rule step_spawn [OF picks_first])

lemma first_killed_reached: "reach (\<lambda>t. t = one_actor) sys_step first_killed"
  unfolding first_killed_def by (rule reach_step [OF two_actors_reached step_kill [OF picks_first]])

lemma actors_state:
  "grab_queue one_actor 1 = Some 0" "grab_queue two_actors 1 = Some 0" "next_obj one_actor = 1"
  "next_obj two_actors = 2" "phase_of first_killed 0 = Gone"
  by code_simp+

theorem handles_denote_one_actor_witness:
  "the (grab_queue two_actors 1) = the (grab_queue one_actor 1) \<and> (1 :: u32) \<noteq> 0"
  using handles_denote_one_actor [OF one_actor_reached two_actors_reached _ actors_state(1,2)] actors_state
  by simp

text \<open>
  C30.  Once the counter of handles wraps, a new actor takes the handle, and the place in the registry, of one that
  is still running: its messages now go to the other actor, \<open>kill\<close> no longer reaches it, and it is not
  among the actors \<open>run\<close> destroys at its end.
\<close>

theorem handle_reused_after_wrap:
  "\<exists>s s' q. reach is_new_system sys_step s \<and> reach (\<lambda>t. t = s) sys_step s' \<and>
     grab_queue s 1 = Some 0 \<and> grab_queue s' 1 = Some q \<and> q \<noteq> 0 \<and>
     phase_of s' 0 = Running \<and> owner (queue_of s' 0) = Some 0"
proof -
  let ?pick = "\<lambda>ps :: nat list. 0 :: nat"
  define s where "s = snd (spawn ?pick [] InitOk (new_system 4 4))"
  have s: "reach is_new_system sys_step s"
    unfolding s_def by (rule reach_step [OF new_reachable step_spawn [OF picks_first]])
  have alive: "next_obj s = 1" "grab_queue s 1 = Some 0" "initialized (queue_of s 0)" "\<not> destroyed (actor_of s 0)"
    "\<not> releasing (queue_of s 0)" "owner (queue_of s 0) = Some 0"
    unfolding s_def by code_simp+
  obtain t where t: "reach (\<lambda>t. t = s) sys_step t" "next_obj t = 2 ^ 32"
    "queue_of t 0 = queue_of s 0" "actor_of t 0 = actor_of s 0"
    using burn_handles [OF s alive(1,2), of "2 ^ 32 - 1"] by auto
  let ?u = "snd (spawn ?pick [] InitOk t)"
  note rt = reach_later [OF s t(1)]
  have h: "next_handle t = 1"
    using numbering.reach_inv [OF rt] t(2) by (simp add: numbered_def)
  have "grab_queue ?u 1 = Some (2 ^ 32)" "queue_of ?u 0 = queue_of s 0" "actor_of ?u 0 = actor_of s 0"
    "next_obj ?u = 2 ^ 32 + 1"
    using reg.find_insert [OF sys_invD(1) [OF runtime.reach_inv [OF rt]]] h t(2-4)
    by (simp_all add: spawn_def spawn_begin_def Let_def init_result_def spawn_end_def grab_queue_def
        new_queue_def new_actor_def)
  moreover from this alive have "phase_of ?u 0 = Running" by (simp add: phase_of_def)
  moreover have "reach (\<lambda>t. t = s) sys_step ?u" by (rule reach_step [OF t(1) step_spawn [OF picks_first]])
  ultimately show ?thesis using s alive(2,6) by (intro exI [of _ s] exI [of _ ?u] exI [of _ "2 ^ 32"]) simp
qed

text \<open>
  An actor only moves forward through its life, whatever the threads do: unborn, starting, running, closing,
  gone.  None is revived once it is closed or destroyed, or becomes uninitialised again, and it keeps its handle.
\<close>

theorem actors_move_forward:
  assumes "reach (\<lambda>t. t = s) sys_step s'"
  shows "phase_of s q \<le> phase_of s' q \<and> (q < next_obj s \<longrightarrow> handle (queue_of s' q) = handle (queue_of s q))"
  using life.reach_R [OF assms] by (simp add: forward_def)

theorem actors_move_forward_witness:
  "phase_of one_actor 0 \<le> phase_of first_killed 0 \<and>
   handle (queue_of first_killed 0) = handle (queue_of one_actor 0)"
  using actors_move_forward [OF first_killed_reached, of 0] actors_state(3) by simp

end
