(* ===== verification/Dispatch_Sequential.thy ===== *)
theory Dispatch_Sequential
  imports Dispatch_Protocol Actor_Props
begin

text \<open>
  The two models of the runtime agree: a thread that runs an operation of \<open>Dispatch_Protocol\<close> to its end
  without interference does to the queue what the operation of \<open>Actor_System\<close> does in one step.
\<close>

section \<open>The shared variables of one queue\<close>

definition view :: "obj \<Rightarrow> system \<Rightarrow> shared" where
  "view q s =
     (let x = queue_of s q; a = actor_of s q
      in \<lparr>q_mail = length (mailbox x), q_count = int (mailbox_count x), q_state = schedule_state x,
          q_accepting = accepting x, q_releasing = releasing x, q_initialized = initialized x,
          q_owner = (owner x \<noteq> None), a_depth = int (dispatch_depth a),
          a_destroy_requested = destroy_requested a, a_destroyed = destroyed a,
          registered = (grab_queue s (handle x) = Some q), tokens = refs q s,
          destroys = length (filter is_destroy (events_of q s))\<rparr>)"

section \<open>Running alone\<close>

fun solo :: "choice list \<Rightarrow> pc \<times> shared \<Rightarrow> (pc \<times> shared) option" where
  "solo [] x = Some x"
| "solo (c # cs) (p, s) = (case atomic False p c s of None \<Rightarrow> None | Some x \<Rightarrow> solo cs x)"

lemma solo_append: "solo (cs @ ds) x = (case solo cs x of None \<Rightarrow> None | Some y \<Rightarrow> solo ds y)"
  by (induction cs x rule: solo.induct) (auto split: option.split)

lemma solo_schedule:
  "solo cs (pcs p t, sh p) = Some (l, s') \<Longrightarrow>
   run_schedule False (map (Pair t) cs) p = Some \<lparr>sh = s', pcs = (pcs p)(t := l)\<rparr>"
proof (induction cs arbitrary: p)
  case (Cons c cs)
  then obtain l1 s1 where a: "atomic False (pcs p t) c (sh p) = Some (l1, s1)" "solo cs (l1, s1) = Some (l, s')"
    by (auto split: option.splits)
  with Cons.IH [of "\<lparr>sh = s1, pcs = (pcs p)(t := l1)\<rparr>"] show ?case
    by (simp add: thread_step_def del: fun_upd_apply) simp
next
  case (Nil p)
  then show ?case by (cases p) auto
qed

text \<open>Some run of the thread alone leads from one point to another.\<close>

inductive alone :: "pc \<times> shared \<Rightarrow> pc \<times> shared \<Rightarrow> bool" where
  alone_stop: "alone x x"
| alone_step: "atomic False p c s = Some y \<Longrightarrow> alone y z \<Longrightarrow> alone (p, s) z"

lemma alone_trans: "alone x y \<Longrightarrow> alone y z \<Longrightarrow> alone x z"
  by (induction rule: alone.induct) (auto intro: alone_step)

lemma alone_solo: "alone x y \<Longrightarrow> \<exists>cs. solo cs x = Some y"
proof (induction rule: alone.induct)
  case (alone_stop x)
  show ?case by (rule exI [of _ "[]"]) simp
next
  case (alone_step p c s y z)
  then obtain cs where "solo cs y = Some z" by blast
  with alone_step(1) show ?case by (intro exI [of _ "c # cs"]) simp
qed

text \<open>A stretch of the program, computed.\<close>

lemma solo_alone: "solo cs x = Some y \<Longrightarrow> alone x y"
  by (induction cs x rule: solo.induct) (auto intro: alone_stop alone_step split: option.splits)

section \<open>\<open>schedule_queue\<close> and \<open>push_message\<close>\<close>

lemma alone_schedule:
  "alone (Sched r, view q s) (return_to r, view q (schedule_queue q s))"
proof (cases "initialized (queue_of s q)")
  case True
  note ev = view_def schedule_queue_def enqueue_global_def refs_def events_of_def grab_queue_def Let_def atomic_def
  show ?thesis
  proof (cases "schedule_state (queue_of s q) = 0")
    case free: True
    have "atomic False (Sched r) Go (view q s) = Some (SchedCas r, view q s)"
      using True by (simp add: ev)
    moreover have "atomic False (SchedCas r) Go (view q s) = Some (SchedEnqueue r, (view q s)\<lparr>q_state := 1\<rparr>)"
      using free by (simp add: ev)
    moreover have "atomic False (SchedEnqueue r) Go ((view q s)\<lparr>q_state := 1\<rparr>) =
        Some (return_to r, view q (schedule_queue q s))"
      using True free by (simp add: ev)
    ultimately show ?thesis by (blast intro: alone_step alone_stop)
  next
    case busy: False
    have "atomic False (Sched r) Go (view q s) = Some (SchedCas r, view q s)"
      using True by (simp add: ev)
    moreover have "atomic False (SchedCas r) Go (view q s) = Some (return_to r, view q (schedule_queue q s))"
      using True busy by (simp add: ev)
    ultimately show ?thesis by (blast intro: alone_step alone_stop)
  qed
next
  case False
  then have "atomic False (Sched r) Go (view q s) = Some (return_to r, view q (schedule_queue q s))"
    by (simp add: view_def schedule_queue_def atomic_def Let_def)
  then show ?thesis by (blast intro: alone_step alone_stop)
qed

lemma view_same:
  "queue_of t = queue_of s \<Longrightarrow> actor_of t = actor_of s \<Longrightarrow> actor_shards t = actor_shards s \<Longrightarrow>
   global_queue t = global_queue s \<Longrightarrow> filter is_destroy (events_of q t) = filter is_destroy (events_of q s) \<Longrightarrow>
   view q t = view q s"
  by (simp add: view_def grab_queue_def refs_def Let_def)

text \<open>A message that is accepted and does not make the mailbox overloaded.\<close>

lemma alone_push:
  assumes inv: "sys_inv X Y Z s" and r: "receiver s dest = Some q"
    and calm: "mailbox_count (queue_of s q) + 1 < overload_threshold (queue_of s q)"
  shows "alone (Idle, view q s) (Idle, view q (push_message dest msg s))"
proof -
  let ?s1 = "enqueue_mail q msg s" and ?v = "view q s"
  from receiverD [OF r] have g: "grab_queue s dest = Some q" "accepting (queue_of s q)" by auto
  then have h: "handle (queue_of s q) = dest" using sys_invD(2) [OF inv] by blast
  have p: "push_message dest msg s = (if initialized (queue_of s q) then schedule_queue q ?s1 else ?s1)"
    using calm push_message_n_accept [OF r, of 7 msg]
    by (simp add: push_message_def posted_def enqueue_mail_def eval_nat_numeral Let_def)
  have 1: "atomic False Idle CallPush ?v = Some (PushAccepting, ?v)"
    using g h by (simp add: atomic_def view_def Let_def)
  have 2: "atomic False PushAccepting Go ?v = Some (PushEnqueue, ?v)"
    using g by (simp add: atomic_def view_def Let_def)
  have 3: "atomic False PushEnqueue Go ?v = Some (PushCount, ?v\<lparr>q_mail := q_mail ?v + 1\<rparr>)"
    by (simp add: atomic_def)
  have 4: "atomic False PushCount Go (?v\<lparr>q_mail := q_mail ?v + 1\<rparr>) = Some (PushInit, view q ?s1)"
    by (simp add: atomic_def view_def enqueue_mail_def refs_def grab_queue_def Let_def)
  have 5: "atomic False PushInit Go (view q ?s1) =
      Some (if initialized (queue_of s q) then Sched RIdle else Idle, view q ?s1)"
    by (simp add: atomic_def view_def enqueue_mail_def Let_def)
  have "alone (PushInit, view q ?s1) (Idle, view q (push_message dest msg s))"
    using 5 alone_schedule [of RIdle q ?s1]
    by (cases "initialized (queue_of s q)") (auto simp: p intro: alone_step alone_stop)
  with 1 2 3 4 show ?thesis by (blast intro: alone_step)
qed

section \<open>Draining\<close>

text \<open>A mailbox without requests is drained without calls into the system.\<close>

definition no_requests :: "obj \<Rightarrow> system \<Rightarrow> bool" where
  "no_requests q s \<longleftrightarrow> (\<forall>pm \<in> set (mailbox (queue_of s q)). \<not> wants_reply (snd pm))"

lemma alone_drain:
  assumes ok: "picks_ok pick" and nr: "no_requests q s"
    and c: "mailbox_count (queue_of s q) = length (mailbox (queue_of s q))"
  shows "alone (Drain k, view q s) (after_drain k, view q (drain_queue pick q s))"
proof -
  have "alone (Drain k, view q s) (DrainEnd k, view q (drain_loop pick q s))"
    using ok nr c
  proof (induction pick q s rule: drain_loop.induct)
    case (1 pick q s)
    show ?case
    proof (cases "try_dequeue pick (mailbox (queue_of s q))")
      case None
      then have "mailbox (queue_of s q) = []" using try_dequeue_None "1.prems"(1) by blast
      then have "atomic False (Drain k) Go (view q s) = Some (DrainEnd k, view q (drain_loop pick q s))"
        using None by (subst drain_loop.simps) (simp add: atomic_def view_def Let_def)
      then show ?thesis by (blast intro: alone_step alone_stop)
    next
      case (Some x)
      obtain pm rest where x: "x = (pm, rest)" by fastforce
      note d = Some [unfolded x]
      let ?t = "drop_mail q pm rest s" and ?v = "view q s"
      have mb: "set (mailbox (queue_of s q)) = insert pm (set rest)" "length (mailbox (queue_of s q)) = Suc (length rest)"
        using try_dequeue_SomeD [OF d] by auto
      then have quiet: "\<not> wants_reply (snd pm)" using "1.prems"(2) by (simp add: no_requests_def)
      have t: "mailbox (queue_of ?t q) = rest" "mailbox_count (queue_of ?t q) = length rest"
        using quiet mb "1.prems"(3) by (simp_all add: drop_mail_def Let_def)
      have vt: "view q ?t = ?v\<lparr>q_mail := q_mail ?v - 1, q_count := q_count ?v - 1\<rparr>"
        using quiet mb "1.prems"(3)
        by (simp add: drop_mail_def view_def refs_def grab_queue_def Let_def of_nat_diff)
      have "atomic False (Drain k) Go ?v = Some (DrainCount k, ?v\<lparr>q_mail := q_mail ?v - 1\<rparr>)"
        using mb by (simp add: atomic_def view_def Let_def)
      moreover have "atomic False (DrainCount k) Go (?v\<lparr>q_mail := q_mail ?v - 1\<rparr>) = Some (Drain k, view q ?t)"
        by (simp add: atomic_def vt)
      moreover have "alone (Drain k, view q ?t) (DrainEnd k, view q (drain_loop pick q ?t))"
        by (rule "1.IH" [OF Some x [symmetric] "1.prems"(1)]) (use "1.prems"(2) mb t in \<open>auto simp: no_requests_def\<close>)
      moreover have "drain_loop pick q s = drain_loop pick q ?t" using d by (subst drain_loop.simps) simp
      ultimately show ?thesis by (auto intro: alone_step)
    qed
  qed
  moreover have "atomic False (DrainEnd k) Go (view q t) =
      Some (after_drain k, view q (upd_queue q (\<lambda>x. x\<lparr>mailbox_count := 0\<rparr>) t))" for t
    by (simp add: atomic_def view_def refs_def grab_queue_def Let_def)
  ultimately show ?thesis
    unfolding drain_queue_def by (blast intro: alone_trans alone_step alone_stop)
qed

section \<open>Killing\<close>

lemma alone_kill:
  assumes ok: "picks_ok pick" and inv: "sys_inv {} {} {} s" and g: "grab_queue s h = Some q"
    and nr: "no_requests q s"
  shows "alone (Idle, view q s) (Idle, view q (kill pick h s))"
proof -
  from sys_invD(2) [OF inv g] have q: "q < next_obj s" "handle (queue_of s q) = h" "accepting (queue_of s q)" by auto
  have qok: "owner (queue_of s q) = Some q" "mailbox_count (queue_of s q) = length (mailbox (queue_of s q))"
    "dispatch_depth (actor_of s q) = 0" "\<not> destroyed (actor_of s q)"
    using sys_invD(3) [OF inv q(1)] q(3) by (auto simp: queue_ok_def)
  let ?c = "condemned h q s" and ?v = "view q s"
  let ?d = "drain_queue pick q ?c"
  have k: "kill pick h s = upd_queue q (\<lambda>x. x\<lparr>schedule_state := 0\<rparr>) (clear_queue_owner q (Some q) (destroy_actor q ?d))"
    using kill_unfold [OF inv g] by simp
  have c: "mailbox (queue_of ?c q) = mailbox (queue_of s q)" "mailbox_count (queue_of ?c q) = mailbox_count (queue_of s q)"
    "destroyed (actor_of ?c q) = destroyed (actor_of s q)"
    by (simp_all add: condemned_def stop_accepting_def Let_def)
  have vc: "view q ?c = ?v\<lparr>registered := False, q_accepting := False, q_releasing := True, a_destroy_requested := True\<rparr>"
    using g q(2) reg.find_erase [OF sys_invD(1) [OF inv], of h h]
    by (simp add: condemned_def stop_accepting_def view_def refs_def grab_queue_def events_of_def Let_def)
  have 1: "atomic False Idle CallKill ?v = Some (KillAccepting, ?v\<lparr>registered := False\<rparr>)"
    using g q(2) by (simp add: atomic_def view_def Let_def)
  have "alone (KillAccepting, ?v\<lparr>registered := False\<rparr>) (Drain Kill, view q ?c)"
    unfolding vc using qok by (intro solo_alone [of "[Go, Go, Go, Go, Go]"]) (simp add: atomic_def view_def Let_def)
  moreover have "alone (Drain Kill, view q ?c) (Destroy Kill, view q ?d)"
    using alone_drain [OF ok, of q ?c Kill] nr qok(2) c by (simp add: no_requests_def)
  moreover have "alone (Destroy Kill, view q ?d) (Idle, view q (kill pick h s))"
  proof (rule solo_alone [of "[Go, Go, Go, Go]"])
    have "owner (queue_of ?d q) = Some q" "\<not> destroyed (actor_of ?d q)"
      using drain_queue_static [of ?c pick q] qok c by (simp_all add: static_same_def)
    then show "solo [Go, Go, Go, Go] (Destroy Kill, view q ?d) = Some (Idle, view q (kill pick h s))"
      by (simp add: k atomic_def view_def destroy_actor_def clear_queue_owner_def refs_def grab_queue_def Let_def)
  qed
  ultimately show ?thesis using 1 by (blast intro: alone_trans alone_step)
qed

section \<open>Dispatching\<close>

text \<open>
  What \<open>on_message\<close> calls is another operation, on the queues it concerns: the actor may make any calls that
  leave the shared variables and the mailbox of its own queue as they are, and returns normally.
\<close>

definition leaves_alone :: "(nat list \<Rightarrow> nat) \<Rightarrow> obj \<Rightarrow> behaviour \<Rightarrow> bool" where
  "leaves_alone pick q beh \<longleftrightarrow> (\<forall>s h m. snd (beh s q m) = None \<and>
     (let t = run_actions pick q h (fst (beh s q m)) s
      in view q t = view q s \<and> mailbox (queue_of t q) = mailbox (queue_of s q)))"

lemma view_eqD:
  assumes "view q t = view q s"
  shows "releasing (queue_of t q) = releasing (queue_of s q)"
    and "destroy_requested (actor_of t q) = destroy_requested (actor_of s q)"
    and "mailbox_count (queue_of t q) = mailbox_count (queue_of s q)"
    and "dispatch_depth (actor_of t q) = dispatch_depth (actor_of s q)"
  using assms by (simp_all add: view_def Let_def)

lemma deliver_view:
  assumes "leaves_alone pick q beh"
  shows "view q (deliver pick beh w q q pm rest s) =
      view q (upd_queue q (\<lambda>x. x\<lparr>mailbox := rest, mailbox_count := mailbox_count x - 1\<rparr>) s)"
    and "mailbox (queue_of (deliver pick beh w q q pm rest s) q) = rest"
proof -
  let ?s1 = "upd_queue q (\<lambda>x. x\<lparr>mailbox := rest, mailbox_count := mailbox_count x - 1\<rparr>) s"
  have m: "view q (upd_monitor w f u) = view q u" "mailbox (queue_of (upd_monitor w f u) q) = mailbox (queue_of u q)" for f u
    by (simp_all add: view_def upd_monitor_def refs_def grab_queue_def events_of_def Let_def)
  have e: "view q (emit (EvDeliver q pm) u) = view q u" for u
    by (simp add: view_def refs_def grab_queue_def events_of_def Let_def)
  let ?h = "handle (queue_of ?s1 q)"
  let ?s2 = "emit (EvDeliver q pm) (upd_monitor w (mon_begin (source (snd pm)) ?h) ?s1)"
  obtain acts exc where b: "beh ?s2 q (snd pm) = (acts, exc)" by fastforce
  have "snd (beh ?s2 q (snd pm)) = None \<and> view q (run_actions pick q ?h (fst (beh ?s2 q (snd pm))) ?s2) = view q ?s2 \<and>
      mailbox (queue_of (run_actions pick q ?h (fst (beh ?s2 q (snd pm))) ?s2) q) = mailbox (queue_of ?s2 q)"
    using assms unfolding leaves_alone_def Let_def by blast
  then have exc: "exc = None" and t: "view q (run_actions pick q ?h acts ?s2) = view q ?s2"
    "mailbox (queue_of (run_actions pick q ?h acts ?s2) q) = mailbox (queue_of ?s2 q)"
    unfolding b by simp_all
  have d: "deliver pick beh w q q pm rest s = upd_monitor w mon_end (run_actions pick q ?h acts ?s2)"
    unfolding deliver_def Let_def b exc by simp
  show "view q (deliver pick beh w q q pm rest s) = view q ?s1"
    unfolding d by (simp only: m e t)
  show "mailbox (queue_of (deliver pick beh w q q pm rest s) q) = rest"
    unfolding d m(2) t(2) by (simp add: upd_monitor_def)
qed

lemma alone_loop:
  assumes ok: "picks_ok pick" and beh: "leaves_alone pick q beh"
  shows "\<not> releasing (queue_of s q) \<Longrightarrow> \<not> destroy_requested (actor_of s q) \<Longrightarrow>
    mailbox_count (queue_of s q) = length (mailbox (queue_of s q)) \<Longrightarrow>
    t = dispatch_loop pick beh w q q k s \<Longrightarrow>
    alone (Loop k, view q s) (FinReleasing, view q t) \<and> \<not> releasing (queue_of t q) \<and>
    \<not> destroy_requested (actor_of t q) \<and> mailbox_count (queue_of t q) = length (mailbox (queue_of t q)) \<and>
    dispatch_depth (actor_of t q) = dispatch_depth (actor_of s q)"
proof (induction k arbitrary: s)
  case 0
  then have "solo [Go] (Loop 0, view q s) = Some (FinReleasing, view q t)" by (simp add: atomic_def)
  from solo_alone [OF this] 0 show ?case by simp
next
  case (Suc k)
  show ?case
  proof (cases "try_dequeue pick (mailbox (queue_of s q))")
    case None
    then have "mailbox (queue_of s q) = []" using try_dequeue_None [OF ok] by blast
    moreover from None Suc.prems have "t = s" by simp
    ultimately have "solo [Go, Go, Go] (Loop (Suc k), view q s) = Some (FinReleasing, view q t)"
      using Suc.prems by (simp add: atomic_def view_def Let_def)
    from solo_alone [OF this] Suc.prems \<open>t = s\<close> show ?thesis by simp
  next
    case (Some x)
    obtain pm rest where x: "x = (pm, rest)" by fastforce
    let ?u = "deliver pick beh w q q pm rest s"
    note len = try_dequeue_length [OF Some [unfolded x]]
    note d = deliver_view [OF beh, of w pm rest s]
    have u: "releasing (queue_of ?u q) = releasing (queue_of s q)"
      "destroy_requested (actor_of ?u q) = destroy_requested (actor_of s q)"
      "dispatch_depth (actor_of ?u q) = dispatch_depth (actor_of s q)"
      "mailbox (queue_of ?u q) = rest" "mailbox_count (queue_of ?u q) = length rest"
      using view_eqD [OF d(1)] d(2) Suc.prems(3) len by simp_all
    have "solo [Go, Go, Go, Go, Go] (Loop (Suc k), view q s) = Some (Loop k, view q ?u)"
      using Suc.prems len unfolding d(1)
      by (simp add: atomic_def view_def refs_def grab_queue_def events_of_def Let_def of_nat_diff)
    then have "alone (Loop (Suc k), view q s) (Loop k, view q ?u)" by (rule solo_alone)
    moreover have "t = dispatch_loop pick beh w q q k ?u" using Suc.prems Some x by simp
    ultimately show ?thesis using Suc.IH [of ?u] Suc.prems u by (auto intro: alone_trans)
  qed
qed

lemma alone_finish:
  assumes "\<not> releasing (queue_of s q)" "\<not> destroy_requested (actor_of s q)"
    and "dispatch_depth (actor_of s q) = 1" and t: "t = dispatch_finish pick q q s"
  shows "alone (FinReleasing, view q s)
    (Idle, view q (dispatch_leave q q (destroy_requested (actor_of t q) \<or> releasing (queue_of t q)) t))"
proof (cases "mailbox_count (queue_of s q) > 0")
  case True
  with assms show ?thesis
    by (intro solo_alone [of "[Go, Go, Go, Go, Go, Go, Go, Go]"])
      (simp add: atomic_def view_def dispatch_finish_def dispatch_leave_def set_state_def enqueue_global_def
        refs_def grab_queue_def events_of_def Let_def)
next
  case False
  with assms show ?thesis
    by (intro solo_alone [of "[Go, Go, Go, Go, Go, Go, Go, Go, Go, Go]"])
      (simp add: atomic_def view_def dispatch_finish_def dispatch_leave_def set_state_def
        refs_def grab_queue_def events_of_def Let_def)
qed

lemma alone_dispatch:
  assumes ok: "picks_ok pick" and inv: "sys_inv {} {} {} s" and run: "running s"
    and d: "try_dequeue gpick (global_queue s) = Some ((p, Some q), rest)"
    and size: "length (mailbox (queue_of s q)) < 2 ^ 64" and beh: "leaves_alone pick q beh"
  shows "alone (Idle, view q s) (Idle, view q (worker_turn gpick pick beh w s))"
proof -
  let ?s1 = "taken rest w s" and ?weight = "calc_weight (worker_count s) (int w)"
  have tokens: "refs q s = Suc (refs q ?s1)" using taken_refs [OF d, where w = w and r = q] by simp
  then have q: "q < next_obj s" using sys_invD(4) [OF inv, of q] by (metis Zero_not_Suc linorder_not_le)
  note qok = sys_invD(3) [OF inv q]
  have turn: "worker_turn gpick pick beh w s = dispatch_queue pick beh ?weight w q ?s1"
    using run d by (simp add: worker_turn_def taken_def Let_def)
  have take: "atomic False Idle CallTake (view q s) = Some (DispState, view q ?s1)"
    using tokens by (simp add: atomic_def view_def taken_frame grab_queue_def Let_def)
  show ?thesis
  proof (cases "releasing (queue_of s q)")
    case True
    then have "schedule_state (queue_of s q) = 0" using qok by (auto simp: queue_ok_def)
    then have "solo [Go] (DispState, view q ?s1) = Some (Idle, view q (worker_turn gpick pick beh w s))"
      by (simp add: turn dispatch_queue_def taken_frame atomic_def view_def Let_def)
    with take show ?thesis by (blast intro: alone_step solo_alone)
  next
    case False
    then have st: "schedule_state (queue_of s q) = 1" "owner (queue_of s q) = Some q"
      "\<not> destroy_requested (actor_of s q)" "mailbox_count (queue_of s q) = length (mailbox (queue_of s q))"
      "dispatch_depth (actor_of s q) = 0"
      using qok tokens by (auto simp: queue_ok_def split: if_splits)
    let ?s2 = "upd_actor q (\<lambda>x. x\<lparr>dispatch_depth := dispatch_depth x + 1\<rparr>) (set_state q 2 ?s1)"
    let ?batch = "batch_size ?weight (length (mailbox (queue_of s q)))"
    let ?s3 = "dispatch_loop pick beh w q q ?batch ?s2"
    let ?s4 = "dispatch_finish pick q q ?s3"
    have "batch_for ?weight (int (length (mailbox (queue_of s q)))) = ?batch"
      using size by (simp add: batch_for_def)
    then have "solo [Go, Go, Go, Go, Go, Go, Weight ?weight] (DispState, view q ?s1) = Some (Loop ?batch, view q ?s2)"
      using st False
      by (simp add: atomic_def view_def taken_frame set_state_def refs_def grab_queue_def events_of_def Let_def)
    then have "alone (Idle, view q s) (Loop ?batch, view q ?s2)" using take by (blast intro: alone_step solo_alone)
    moreover have "worker_turn gpick pick beh w s =
        dispatch_leave q q (destroy_requested (actor_of ?s4 q) \<or> releasing (queue_of ?s4 q)) ?s4"
      using st False by (simp add: turn dispatch_queue_def set_state_def taken_frame queue_owner_def Let_def)
    moreover have "\<not> releasing (queue_of ?s2 q)" "\<not> destroy_requested (actor_of ?s2 q)"
      "mailbox_count (queue_of ?s2 q) = length (mailbox (queue_of ?s2 q))" "dispatch_depth (actor_of ?s2 q) = 1"
      using st False by (simp_all add: set_state_def taken_frame)
    note loop = alone_loop [OF ok beh this(1-3) HOL.refl, where w = w and k = ?batch] this(4)
    then have "alone (Loop ?batch, view q ?s2) (FinReleasing, view q ?s3)"
      "\<not> releasing (queue_of ?s3 q)" "\<not> destroy_requested (actor_of ?s3 q)" "dispatch_depth (actor_of ?s3 q) = 1"
      by simp_all
    ultimately show ?thesis using alone_finish [of ?s3 q ?s4 pick] by (auto intro: alone_trans)
  qed
qed

section \<open>Property\<close>

text \<open>
  The operations on a queue, under the conditions in which they make no call that is another operation on it.
\<close>

inductive queue_op :: "(nat list \<Rightarrow> nat) \<Rightarrow> obj \<Rightarrow> system \<Rightarrow> system \<Rightarrow> bool" where
  op_push: "receiver s dest = Some q \<Longrightarrow> mailbox_count (queue_of s q) + 1 < overload_threshold (queue_of s q) \<Longrightarrow>
    queue_op pick q s (push_message dest msg s)"
| op_kill: "grab_queue s h = Some q \<Longrightarrow> no_requests q s \<Longrightarrow> queue_op pick q s (kill pick h s)"
| op_dispatch: "running s \<Longrightarrow> try_dequeue gpick (global_queue s) = Some ((p, Some q), rest) \<Longrightarrow>
    length (mailbox (queue_of s q)) < 2 ^ 64 \<Longrightarrow> leaves_alone pick q beh \<Longrightarrow> queue_op pick q s (worker_turn gpick pick beh w s)"

text \<open>
  C7.  The coarse and the fine model of the runtime agree on three operations.  In every reachable state,
  a \<open>push_message\<close> that is accepted and stays below the overload threshold, a \<open>kill\<close> of an actor with no
  request in its mailbox, and a worker's turn on an actor whose \<open>on_message\<close> does not throw and makes only calls
  that leave its own queue alone, as one step of \<open>Actor_System\<close>, change the queue exactly as some run of one
  thread of \<open>Dispatch_Protocol\<close> does that executes the operation atom by atom, without interference, from idle
  to idle.  (An overload warning and the answers to requests are further messages, operations of their own.)
\<close>

theorem operations_are_protocol_runs:
  assumes "reach is_new_system sys_step s" and "picks_ok pick" and "queue_op pick q s s'"
    and "sh p = view q s" and "pcs p t = Idle"
  shows "\<exists>cs. run_schedule False (map (Pair t) cs) p = Some \<lparr>sh = view q s', pcs = pcs p\<rparr>"
proof -
  note inv = runtime.reach_inv [OF assms(1)]
  from assms(3) have "alone (Idle, view q s) (Idle, view q s')"
  proof cases
    case op_push
    with alone_push [OF inv] show ?thesis by simp
  next
    case op_kill
    with alone_kill [OF assms(2) inv] show ?thesis by simp
  next
    case op_dispatch
    with alone_dispatch [OF assms(2) inv] show ?thesis by simp
  qed
  then obtain cs where "solo cs (pcs p t, sh p) = Some (Idle, view q s')"
    using alone_solo assms(4,5) by fastforce
  from solo_schedule [OF this] show ?thesis using assms(5) by (metis fun_upd_triv)
qed

text \<open>An actor with a message is taken by a worker; it answers by setting a timer.\<close>

definition sets_timer :: behaviour where
  "sets_timer s a msg = ([ATimeout 100], None)"

lemma sets_timer_alone: "leaves_alone pick q sets_timer"
  by (simp add: leaves_alone_def sets_timer_def alloc_session_def timeout_def view_def refs_def grab_queue_def
      events_of_def Let_def)

definition mail_waiting :: system where
  "mail_waiting = run_begin (send 7 1 PTYPE_TEXT 0 (Text ''hi'') (snd (spawn (\<lambda>ps. 0) [] InitOk (new_system 4 4))))"

lemma mail_waiting_reached: "reach is_new_system sys_step mail_waiting"
  unfolding mail_waiting_def
  using reach_step [OF reach_step [OF reach_step [OF new_reachable step_spawn [OF picks_first]] step_send] step_run]
  by blast

lemma mail_waiting_state:
  "running mail_waiting" "global_queue mail_waiting = [(0, Some 0)]"
  "length (mailbox (queue_of mail_waiting 0)) = 1"
  "mailbox (queue_of (worker_turn (\<lambda>ps. 0) (\<lambda>ps. 0) sets_timer 2 mail_waiting) 0) = []"
  by code_simp+

theorem operations_are_protocol_runs_witness:
  "\<exists>cs. run_schedule False (map (Pair 3) cs) \<lparr>sh = view 0 mail_waiting, pcs = \<lambda>t. Idle\<rparr> =
     Some \<lparr>sh = view 0 (worker_turn (\<lambda>ps. 0) (\<lambda>ps. 0) sets_timer 2 mail_waiting), pcs = \<lambda>t. Idle\<rparr>"
  using operations_are_protocol_runs [OF mail_waiting_reached, of "\<lambda>ps. 0" 0
      "worker_turn (\<lambda>ps. 0) (\<lambda>ps. 0) sets_timer 2 mail_waiting" "\<lparr>sh = view 0 mail_waiting, pcs = \<lambda>t. Idle\<rparr>" 3]
    op_dispatch [OF mail_waiting_state(1), of "\<lambda>ps. 0" 0 0 "[]" "\<lambda>ps. 0" sets_timer 2] mail_waiting_state
  by (simp add: picks_first try_dequeue_def sets_timer_alone)

end
