(* ===== verification/Json_Binding.thy ===== *)
theory Json_Binding
  imports Actor_System
begin

text \<open>
  \<open>src/src/skynet_json.h\<close>: parsing and printing JSON.  RapidJSON is a parameter: \<open>read\<close> gives a document or the
  offset and the code of a parse error, \<open>error_text\<close> is \<open>GetParseError_En\<close>, \<open>accept\<close> gives what a writer has put into
  its buffer and whether it accepted the whole value.
\<close>

definition json_parse ::
    "(string \<Rightarrow> (nat \<times> nat) + 'doc) \<Rightarrow> (nat \<Rightarrow> string) \<Rightarrow> string \<Rightarrow> string + 'doc" where
  "json_parse read error_text t =
     (case read t of
        Inr doc \<Rightarrow> Inr doc
      | Inl (offset, code) \<Rightarrow>
          Inl (''JSON parse error at offset '' @ show_nat offset @ '': '' @ error_text code))"

text \<open>
  The answer of \<open>Accept\<close> is not looked at: a value the writer breaks off at, such as a number that is not finite,
  is turned into the text written so far, without an error.
\<close>

definition json_stringify :: "(bool \<Rightarrow> 'v \<Rightarrow> string \<times> bool) \<Rightarrow> 'v \<Rightarrow> bool \<Rightarrow> string" where
  "json_stringify accept v pretty = fst (accept pretty v)"

text \<open>
  A document that the writer accepts is read back from its text, indented or not, if the reader reads back
  what the writer writes.
\<close>

lemma json_roundtrip:
  assumes "\<And>v pretty out. accept pretty v = (out, True) \<Longrightarrow> read out = Inr v"
    and "snd (accept pretty v)"
  shows "json_parse read error_text (json_stringify accept v pretty) = Inr v"
  using assms by (cases "accept pretty v") (auto simp: json_parse_def json_stringify_def)

end
