(* ===== verification/Process_Start.thy ===== *)
theory Process_Start
  imports Services Platform Actor_Props
begin

text \<open>
  The process around the runtime: \<open>main\<close> with its signal handler (\<open>src/src/main.cpp\<close>), the destructor of
  \<open>ActorSystem\<close> (\<open>src/src/skynet.cpp\<close>), the name of the node and the local time (\<open>src/src/platform.cpp\<close>,
  \<open>lua_cluster.cpp\<close>), and the
  logger's file and time stamp (\<open>src/src/service_logger.h\<close>).  Readings of clocks, of the thread and of the random
  device are arguments.
\<close>

section \<open>The name of the node\<close>

fun show_hex :: "nat \<Rightarrow> string" where
  "show_hex n = (if n < 16 then [digit_char n] else show_hex (n div 16) @ [digit_char (n mod 16)])"

declare show_hex.simps [simp del]

definition make_node_name :: "u64 \<Rightarrow> u64 \<Rightarrow> u32 \<Rightarrow> u64 \<Rightarrow> string \<times> u64" where
  "make_node_name now tid rd sequence =
     (''node'' @ show_hex (unat now) @ show_hex (unat tid) @ show_hex (unat rd) @ show_hex (unat sequence),
      sequence + 1)"

text \<open>The static local variables: the name, once it is made, and the counter of \<open>make_node_name\<close>.\<close>

record node_statics =
  node_static_name :: "string option"
  node_seq :: u64

definition node_name :: "u64 \<Rightarrow> u64 \<Rightarrow> u32 \<Rightarrow> node_statics \<Rightarrow> string \<times> node_statics" where
  "node_name now tid rd st =
     (case node_static_name st of
        Some name \<Rightarrow> (name, st)
      | None \<Rightarrow>
          (let (name, n) = make_node_name now tid rd (node_seq st)
           in (name, st\<lparr>node_static_name := Some name, node_seq := n\<rparr>)))"

definition lnodename :: "u64 \<Rightarrow> u64 \<Rightarrow> u32 \<Rightarrow> node_statics \<Rightarrow> string \<times> node_statics" where
  "lnodename now tid rd st = node_name now tid rd st"

text \<open>The name stays the same for the life of the process.\<close>

lemma node_name_stable:
  "node_name now tid rd st = (name, st') \<Longrightarrow> node_name now' tid' rd' st' = (name, st')"
  by (auto simp: node_name_def split: option.splits prod.splits)

section \<open>Local time and the time stamp of the logger\<close>

text \<open>The members of \<open>std::tm\<close> that are used; \<open>localtime\<close> is the function of the C library.\<close>

record tm =
  tm_sec :: int
  tm_min :: int
  tm_hour :: int

definition local_time :: "(int \<Rightarrow> tm option) \<Rightarrow> int \<Rightarrow> tm" where
  "local_time localtime v =
     (case localtime v of Some t \<Rightarrow> t | None \<Rightarrow> \<lparr>tm_sec = 0, tm_min = 0, tm_hour = 0\<rparr>)"

text \<open>\<open>%0<w>d\<close> of a number that is not negative.\<close>

definition show_padded :: "nat \<Rightarrow> nat \<Rightarrow> string" where
  "show_padded w n = (let t = show_nat n in replicate (w - length t) CHR ''0'' @ t)"

text \<open>\<open>now\<close> is the reading of \<open>system_clock\<close> in nanoseconds since 1970.\<close>

definition log_time :: "(int \<Rightarrow> tm option) \<Rightarrow> nat \<Rightarrow> string" where
  "log_time localtime now =
     (let t = local_time localtime (int (now div 1000000000));
          ms = now div 1000000 mod 1000
      in take 31 (show_padded 2 (nat (tm_hour t)) @ '':'' @ show_padded 2 (nat (tm_min t)) @ '':'' @
           show_padded 2 (nat (tm_sec t)) @ ''.'' @ show_padded 3 ms))"

text \<open>A logger with the given file, if it can be opened.\<close>

definition new_logger :: "string \<Rightarrow> bool \<Rightarrow> string list \<Rightarrow> logger" where
  "new_logger logfile opens contents =
     \<lparr>log_file_open = (logfile \<noteq> [] \<and> opens), log_stdout = [], log_file = contents\<rparr>"

lemma show_nat_length: "n < 10 \<Longrightarrow> length (show_nat n) = 1" "10 \<le> n \<Longrightarrow> n < 100 \<Longrightarrow> length (show_nat n) = 2"
  "100 \<le> n \<Longrightarrow> n < 1000 \<Longrightarrow> length (show_nat n) = 3"
proof -
  show 1: "n < 10 \<Longrightarrow> length (show_nat n) = 1" for n by (simp add: show_nat.simps)
  show 2: "10 \<le> n \<Longrightarrow> n < 100 \<Longrightarrow> length (show_nat n) = 2" for n
    using 1 [of "n div 10"] by (subst show_nat.simps) simp
  show "100 \<le> n \<Longrightarrow> n < 1000 \<Longrightarrow> length (show_nat n) = 3"
    using 2 [of "n div 10"] by (subst show_nat.simps) simp
qed

lemma show_padded_length: "n < 100 \<Longrightarrow> length (show_padded 2 n) = 2" "n < 1000 \<Longrightarrow> length (show_padded 3 n) = 3"
  using show_nat_length [of n] by (cases "n < 10"; cases "n < 100"; simp add: show_padded_def Let_def)+

text \<open>The stamp has the width the log line counts on, whatever \<open>localtime\<close> answers.\<close>

lemma log_time_width:
  assumes "\<And>v t. localtime v = Some t \<Longrightarrow>
    0 \<le> tm_hour t \<and> tm_hour t < 24 \<and> 0 \<le> tm_min t \<and> tm_min t < 60 \<and> 0 \<le> tm_sec t \<and> tm_sec t < 61"
  shows "length (log_time localtime now) = 12"
proof -
  let ?t = "local_time localtime (int (now div 1000000000))"
  have "nat (tm_hour ?t) < 100" "nat (tm_min ?t) < 100" "nat (tm_sec ?t) < 100"
    using assms by (auto simp: local_time_def split: option.split dest!: assms)
  then show ?thesis by (simp add: log_time_def Let_def show_padded_length)
qed

section \<open>The process\<close>

text \<open>The system, the lines of the process on its standard output, and whether the signal handler waits.\<close>

record process =
  p_system :: system
  p_output :: "string list"
  p_armed :: bool

abbreviation (input) NEWLINE :: char where "NEWLINE \<equiv> CHR 0x0A"

definition banner :: "int \<Rightarrow> string \<Rightarrow> string list" where
  "banner thread_count preload_script =
     [''=== skynet-cpp ==='' @ [NEWLINE],
      ''Workers: '' @ show_int thread_count @ [NEWLINE],
      ''Preload: '' @ c_str preload_script @ [NEWLINE],
      ''Ctrl+C to stop.'' @ [NEWLINE, NEWLINE]]"

text \<open>\<open>main\<close> up to the start of the threads in \<open>run\<close>.\<close>

definition main_begin ::
    "(nat list \<Rightarrow> nat) \<Rightarrow> (string \<Rightarrow> action list \<times> init_outcome) \<Rightarrow> int \<Rightarrow> host \<Rightarrow> process" where
  "main_begin pick script hardware h =
     (let thread_count = get_thread_count (getenv_string ''SKYNET_THREAD'' h);
          preload_script = get_preload_script (getenv_string ''SKYNET_PRELOAD'' h);
          sys0 = new_system thread_count hardware
      in \<lparr>p_system = run_begin (bootstrap pick script preload_script sys0),
          p_output = banner thread_count preload_script, p_armed = True\<rparr>)"

text \<open>The handler of \<open>SIGINT\<close>, which does not wait for another signal.\<close>

definition on_interrupt :: "process \<Rightarrow> process" where
  "on_interrupt p =
     (if p_armed p
      then \<lparr>p_system = shutdown (p_system p),
            p_output = p_output p @ [[NEWLINE] @ ''Shutting down...'' @ [NEWLINE]], p_armed = False\<rparr>
      else p)"

text \<open>\<open>~ActorSystem\<close>, and the end of \<open>main\<close> once the threads have been joined.\<close>

definition destruct_system :: "system \<Rightarrow> system" where
  "destruct_system s = shutdown s"

definition main_end :: "(nat list \<Rightarrow> nat) \<Rightarrow> process \<Rightarrow> process" where
  "main_end pick p = p\<lparr>p_system := destruct_system (run_end pick (p_system p))\<rparr>"

text \<open>
  What holds of every state the runtime can reach holds of the process: its state when the threads start is
  one of them, and the interrupt is a step.
\<close>

lemma main_begin_reachable:
  assumes "picks_ok pick"
  shows "reach is_new_system sys_step (p_system (main_begin pick script hardware h))"
proof -
  obtain acts out where "script (get_preload_script (getenv_string ''SKYNET_PRELOAD'' h)) = (acts, out)" by fastforce
  moreover note spawned = reach_step [OF new_reachable step_spawn [OF assms]]
  note started = reach_step [OF reach_step [OF reach_step [OF spawned step_register] step_spawn [OF assms]] step_run]
  ultimately show ?thesis
    unfolding main_begin_def bootstrap_def Let_def by (auto simp: case_prod_beta intro!: started)
qed

lemma on_interrupt_reachable:
  "reach is_new_system sys_step (p_system p) \<Longrightarrow> reach is_new_system sys_step (p_system (on_interrupt p))"
  by (auto simp: on_interrupt_def intro: reach_step step_shutdown)

text \<open>
  The first interrupt stops the runtime and wakes the workers, the second does nothing.  The preload
  script cannot stop the process while it starts: \<open>run\<close> sets \<open>running_\<close> whatever the script has called.
\<close>

lemma interrupt_once:
  "\<not> running (p_system (on_interrupt (main_begin pick script hardware h)))"
  "on_interrupt (on_interrupt p) = on_interrupt p"
  "running (p_system (main_begin pick script hardware h))"
  by (auto simp: main_begin_def on_interrupt_def shutdown_def run_begin_def emit_def Let_def)

end
