(* ===== verification/Spec2Isabelle.thy ===== *)
theory Spec2Isabelle
  imports Lua_Seri_Types Cluster_Props Actor_Behaviour Dispatch_Races Worker_Wakeup
    Tcp_Output Lua_Actor_Props Lua_Commands Lua_Messages Lua_Profile Services Stream_Delivery
    Actor_Handles Dispatch_Sequential Lua_Calls Lua_Buffers Json_Binding Process_Start
begin

text \<open>
  Verification of the skynet-cpp actor runtime, \<open>src/src/\<close>.

  \<^bold>\<open>The program.\<close>  A process hosts actors that own a mailbox and a handle.  Worker threads take the
  queues of actors with mail off a global queue and run \<open>on_message\<close> for a batch of messages; a thread of
  \<open>asio::io_context\<close> runs timers and sockets and reports them as messages; a monitor thread looks for stuck
  workers.  Most actors are Lua services: a Lua state whose callback gets the messages and whose calls of
  \<open>skynet.core\<close> reach the runtime.  Services exchange Lua values in a binary format, talk TCP and UDP through
  \<open>socketdriver\<close>, cut TCP streams into frames with \<open>netpack\<close> and reach other nodes with \<open>cluster.core\<close>.

  \<^bold>\<open>The theories.\<close>
  \<^item> \<open>Skynet_Prelude\<close>: bytes and words in memory, big-endian headers, the locale of a framing
    (\<open>frame_codec\<close>), reachability and the locale of a system with an inductive invariant
    (\<open>invariant_system\<close>), which every state machine below interprets.
  \<^item> \<open>Actor_Types\<close>, \<open>Actor_System\<close> (\<open>skynet.h\<close>, \<open>skynet.cpp\<close>): messages, actors, queues, the registry of 64
    shards, names, sending, errors, timers, draining, \<open>kill\<close>, \<open>spawn\<close>, dispatching, statistics, \<open>run\<close>,
    \<open>shutdown\<close> and the monitor.  Objects behind \<open>shared_ptr\<close> live in stores indexed by identity.  A step
    (\<open>sys_step\<close> in \<open>Actor_Lifecycle\<close>) is one call of the API or one turn of a worker, on any thread; what user
    code does in \<open>on_init\<close> and \<open>on_message\<close> is a parameter, a list of calls that may depend on the whole
    state.  \<open>Actor_Invariants\<close> and \<open>Actor_Lifecycle\<close> prove the invariant \<open>sys_inv\<close> for every operation and
    interpret the laws of the registry.  \<open>Actor_Frames\<close> has locales for what all operations have in common: a
    preorder that holds across the few updates they are made of holds across each of them and every run.
    \<open>Actor_Props\<close>, \<open>Actor_Behaviour\<close> and \<open>Actor_Handles\<close> draw the properties from these.
  \<^item> \<open>Dispatch_Protocol\<close>, \<open>Dispatch_Invariants\<close>, \<open>Dispatch_Races\<close>: the atomic operations on one queue inside
    \<open>push_message\<close>, \<open>schedule_queue\<close>, \<open>dispatch_queue\<close>, \<open>kill\<close> and \<open>spawn\<close>, interleaved between any number of
    threads: what \<open>Actor_System\<close> takes as one step is here up to a dozen.  \<open>Dispatch_Sequential\<close> shows that the
    two models agree where a thread is alone.
  \<^item> \<open>Worker_Loop\<close>, \<open>Worker_Shutdown\<close>, \<open>Worker_Wakeup\<close>: idle workers, \<open>enqueue_global\<close> and \<open>shutdown\<close> at the
    same grain.  \<open>Thread_Counts\<close> counts the threads in a region of the code for both protocols.
  \<^item> \<open>Lua_Value\<close>, \<open>Lua_Seri\<close>, \<open>Lua_Seri_Props\<close>, \<open>Lua_Seri_Roundtrip\<close>, \<open>Lua_Seri_Types\<close> (\<open>lua_seri.cpp\<close>): the
    serializer byte by byte, with its chain of 128-byte blocks.  \<open>Lua_Buffers\<close>: the functions Lua calls, with
    their arguments and what they free.
  \<^item> \<open>Netpack\<close> (\<open>lua_netpack.cpp\<close>), \<open>Cluster\<close>, \<open>Cluster_Props\<close> (\<open>lua_cluster.cpp\<close>): framing, and request and
    response packets with their multi-part form.
  \<^item> \<open>Network\<close>, \<open>Network_Props\<close>, \<open>Tcp_Output\<close> (\<open>network.h\<close>, \<open>network.cpp\<close>), \<open>Socket_Store\<close>, \<open>Socket_Props\<close>
    (\<open>lua_socket_binding.cpp\<close>): connections, listeners, connectors and UDP sockets as state machines whose
    inputs are the completions of asynchronous operations; the calls of \<open>send\<close> and what is written for them; the
    identifiers Lua uses.
  \<^item> \<open>Lua_Paths\<close> (path functions of \<open>skynet.cpp\<close> and \<open>lua_actor.cpp\<close>), \<open>Platform\<close> (\<open>platform.cpp\<close>), \<open>Lua_Actor\<close>,
    \<open>Lua_Actor_Props\<close> (\<open>lua_actor.cpp\<close>, \<open>lua_actor.h\<close>), \<open>Lua_Binding\<close>, \<open>Lua_Commands\<close>, \<open>Lua_Calls\<close>
    (\<open>lua_binding.cpp\<close>: the commands, their composition, and the calls by name with their arguments),
    \<open>Lua_Profile\<close> (\<open>lua_profile.cpp\<close>), \<open>Json_Binding\<close> (\<open>skynet_json.h\<close>): the Lua side of the runtime.
  \<^item> \<open>Services\<close> (\<open>service_gate.h\<close>, \<open>service_logger.h\<close>, \<open>main.cpp\<close>), \<open>Process_Start\<close> (\<open>main.cpp\<close>, \<open>platform.cpp\<close>): gate,
    logger, and the process from its start through an interrupt to its end.
  \<^item> \<open>Lua_Messages\<close> and \<open>Stream_Delivery\<close> compose them: a Lua value from the packer of one service to the
    callback of another, and a frame from the socket through mailbox and dispatcher to the filter.

  Functions keep their names; a definition that has none in the source is a loop or a branch of the
  function its comment names.  Fields of a record are the members of the struct; fields marked as history
  are not in the program and are only written.

  \<^bold>\<open>What is shown.\<close>  Of the runtime, as long as whole calls do not interfere: messages are neither lost nor
  duplicated and those of one thread keep their order, waiting messages are scheduled, an actor is destroyed at
  most once and handles nothing afterwards, undeliverable requests are answered if their sender can be, \<open>kill\<close>
  empties the mailbox and the end of \<open>run\<close> destroys whatever is still registered; a handle stands for
  one actor until the counter wraps, and what happens then (\<open>Actor_Handles\<close>).  Of the
  protocol on one queue: mutual exclusion and no lost wake-up under every interleaving, and that \<open>push_message\<close>,
  \<open>kill\<close> and a worker's turn, where they make no further call on the queue, are its runs; of the workers:
  no queue is left behind while all of them sleep; and five schedules in which the code does not do what it
  should (\<open>Dispatch_Races\<close>, \<open>Worker_Shutdown\<close>, \<open>Worker_Wakeup\<close>).  Of the formats: round
  trips on values, packets and streams cut anywhere; type soundness on arbitrary bytes, and how deep an input
  makes the unpacker recurse.  Of the network: what is written is what the calls of \<open>send\<close> passed, in order, with
  one write at a time; identifiers that lead back to their objects.  Of
  the Lua side: its commands are actions of the actor model, so that the theorems about the runtime apply
  to Lua services (\<open>lua_actor_is_behaviour\<close>); a value sent by one service is what the callback of another one
  unpacks; memory and references are accounted for.

  \<^bold>\<open>Bounds.\<close>  \<open>push_message\<close> and \<open>error\<close> call each other; their nesting is bounded by 8, and the flag \<open>too_deep\<close>
  records that the bound was hit, which \<open>error_nesting_bounded\<close> excludes.  The unpacker has the length of
  its input plus one as fuel, and \<open>unpack_recursion_depth\<close> shows that this is enough, and needed.  \<open>drain_loop\<close>, the packer
  and the loops of \<open>netpack\<close> and \<open>cluster\<close> have termination proofs.  A callback in \<open>Lua_Commands\<close> is run for
  the number of calls it makes.

  \<^bold>\<open>Assumptions.\<close>  \<open>moodycamel::ConcurrentQueue\<close> keeps the order of one producer (\<open>picks_ok\<close>).  In
  \<open>Actor_System\<close> a call runs without interference on what it touches; the interference is the subject of
  \<open>Dispatch_Protocol\<close> and \<open>Worker_Loop\<close>, which assume sequentially consistent atomics but for one store whose
  delay is modelled; \<open>enqueue_global\<close> reads \<open>sleeping_workers_\<close> with relaxed order, so that what is shown of
  \<open>Worker_Loop\<close> needs a machine whose \<open>fetch_add\<close> is a full barrier.  The completion handlers of asio run one at a time on one thread.  Memory a message
  points to is not changed by anyone but its owner.  Doubles of the profiler are exact.

  \<open>on_destroy\<close> makes no calls of the runtime: \<open>destroy_actor\<close> only records that it has run.  (\<open>LuaActor::on_destroy\<close>
  runs \<open>skynet.coverage.flush\<close> if it is loaded, and \<open>lua_close\<close> runs finalizers; Lua code in either could call
  \<open>skynet.core\<close>, which is not covered.)  The memory of a Lua state and the Lua and C stack suffice for what the
  functions of the Lua library are asked to do, except where a parameter says otherwise (\<open>lua_alloc\<close>, \<open>lua_on_init\<close>,
  \<open>unpack_values\<close>); when they do not, the library leaves the C++ function with an error.  In \<open>lua_reaction\<close> the fields of
  \<open>LuaActor\<close> and its paths are the same at the start of every message.

  \<^bold>\<open>Not modelled.\<close>  The Lua interpreter, asio, rapidjson and the allocator are parameters or inputs, as are the
  readings of clocks, of the thread and of the random device.  The registration tables of \<open>netpack\<close>,
  \<open>socketdriver\<close> and \<open>cluster.core\<close> name the functions the models of these modules define and nothing else.
  The Lua library under \<open>src/lualib\<close> is another program.
\<close>

end
